(* ===== verification/Prelude.thy ===== *)
theory Prelude
  imports Main "HOL-Library.Word"
begin

text \<open>
  The shared vocabulary of the development: the machine integers of the Go
  sources as words, Go errors as values, byte readers, and the generic facts on
  lists, words and byte strings that the component theories use.

  \<^item> Types: \<open>byte\<close> and \<open>u16\<close> to \<open>u64\<close> are Go's \<open>uint8\<close> to \<open>uint64\<close>;
    arithmetic wraps as in Go.  \<open>time\<close> and \<open>duration\<close> are nanoseconds as \<open>int\<close>;
    the zero \<open>time.Time\<close> is \<open>0\<close>.
  \<^item> \<open>go_error\<close> has one constructor per kind of error value the sources return,
    and \<open>GoPanic\<close> for a call to \<open>panic\<close> or a run-time panic.
  \<^item> A \<open>bytes.Reader\<close> is the list of the bytes not read yet.  A parsing function
    maps it to an error or to a value and the bytes left over; \<open>rbind\<close> is the
    \<open>if err != nil { return nil, err }\<close> idiom.
  \<^item> \<open>le_val\<close> and \<open>le_enc\<close> are the mathematical little-endian code, the
    reference the two byte orders are compared with.
\<close>

unbundle bit_operations_syntax

named_theorems parse_simps \<open>rewrite rules that run a parser on written bytes\<close>
named_theorems const_defs \<open>numeric constants of the protocol package\<close>

type_synonym byte = "8 word"
type_synonym u16 = "16 word"
type_synonym u32 = "32 word"
type_synonym u64 = "64 word"
type_synonym time = int
type_synonym duration = int

section \<open>Errors and results\<close>

datatype go_error =
    EOF                           \<comment> \<open>\<open>io.EOF\<close>\<close>
  | ErrUnexpectedEOF              \<comment> \<open>\<open>io.ErrUnexpectedEOF\<close>\<close>
  | GoError string                \<comment> \<open>\<open>errors.New\<close> or \<open>fmt.Errorf\<close>, with the format string\<close>
  | ErrorCode u32                 \<comment> \<open>a bare \<open>qerr.ErrorCode\<close> used as an error\<close>
  | QuicError u32 string          \<comment> \<open>\<open>qerr.Error(code, msg)\<close>, with the format string\<close>
  | QuicErrorOf u32 go_error      \<comment> \<open>\<open>qerr.Error(code, err.Error())\<close>\<close>
  | GoPanic string

type_synonym 'a result = "go_error + 'a"
type_synonym 'a parsed = "go_error + 'a \<times> byte list"

definition rbind :: "'a parsed \<Rightarrow> ('a \<Rightarrow> byte list \<Rightarrow> go_error + 'b) \<Rightarrow> go_error + 'b" where
  "rbind m f = (case m of Inl e \<Rightarrow> Inl e | Inr (x, r) \<Rightarrow> f x r)"

lemma rbind_Inl [simp]: "rbind (Inl e) f = Inl e"
  by (simp add: rbind_def)

lemma rbind_Inr [simp]: "rbind (Inr (x, r)) f = f x r"
  by (simp add: rbind_def)

lemma rbind_eq_Inr:
  "rbind m f = Inr z \<longleftrightarrow> (\<exists>x r. m = Inr (x, r) \<and> f x r = Inr z)"
  by (auto simp: rbind_def split: sum.splits)

lemma rbind_cong [fundef_cong]:
  "m = m' \<Longrightarrow> (\<And>x r. m' = Inr (x, r) \<Longrightarrow> f x r = f' x r) \<Longrightarrow> rbind m f = rbind m' f'"
  by (auto simp: rbind_def split: sum.splits)

text \<open>Sequencing of writes: the bytes appended to a \<open>bytes.Buffer\<close>, or an error.\<close>

definition wbind :: "'a result \<Rightarrow> ('a \<Rightarrow> 'b result) \<Rightarrow> 'b result" where
  "wbind m f = (case m of Inl e \<Rightarrow> Inl e | Inr x \<Rightarrow> f x)"

lemma wbind_Inl [simp]: "wbind (Inl e) f = Inl e"
  by (simp add: wbind_def)

lemma wbind_Inr [simp]: "wbind (Inr x) f = f x"
  by (simp add: wbind_def)

lemma wbind_eq_Inr: "wbind m f = Inr z \<longleftrightarrow> (\<exists>x. m = Inr x \<and> f x = Inr z)"
  by (auto simp: wbind_def split: sum.splits)

text \<open>
  A method that changes its receiver and returns an error: the new state and the
  error, if any.  \<open>andThen\<close> is \<open>if err != nil { return err }\<close>; what was changed
  before an early return stays changed.
\<close>

definition andThen ::
    "'s \<times> go_error option \<Rightarrow> ('s \<Rightarrow> 's \<times> go_error option) \<Rightarrow> 's \<times> go_error option" where
  "andThen m f = (case m of (s, None) \<Rightarrow> f s | (s, Some e) \<Rightarrow> (s, Some e))"

lemma andThen_simps [simp]:
  "andThen (s, None) f = f s" "andThen (s, Some e) f = (s, Some e)"
  by (simp_all add: andThen_def)

lemma andThen_eq_None: "andThen m f = (s, None) \<longleftrightarrow> (\<exists>t. m = (t, None) \<and> f t = (s, None))"
  by (auto simp: andThen_def split: prod.splits option.splits)

text \<open>An invariant of every step is an invariant of the sequence, also after an early return.\<close>

lemma andThen_inv:
  "P (fst m) \<Longrightarrow> (\<And>s. P s \<Longrightarrow> P (fst (f s))) \<Longrightarrow> P (fst (andThen m f))"
  by (cases m) (auto simp: andThen_def split: option.splits)

section \<open>Integers and time\<close>

text \<open>
  Go's signed division truncates towards zero; \<open>time.Time.Sub\<close> saturates at the
  ends of the \<open>int64\<close> range of a \<open>time.Duration\<close>.
\<close>

definition go_quot :: "int \<Rightarrow> int \<Rightarrow> int" where
  "go_quot a b = (if (a < 0) = (b < 0) then \<bar>a\<bar> div \<bar>b\<bar> else - (\<bar>a\<bar> div \<bar>b\<bar>))"

definition minDuration :: duration where "minDuration = - (2 ^ 63)"
definition maxDuration :: duration where "maxDuration = 2 ^ 63 - 1"

definition timeSub :: "time \<Rightarrow> time \<Rightarrow> duration" where
  "timeSub t u = max minDuration (min maxDuration (t - u))"

definition Microsecond :: duration where "Microsecond = 1000"
definition Millisecond :: duration where "Millisecond = 1000 * Microsecond"
definition Second :: duration where "Second = 1000 * Millisecond"

section \<open>Byte readers\<close>

text \<open>\<open>bytes.Reader.ReadByte\<close> and \<open>io.ReadFull\<close> of the standard library.\<close>

fun ReadByte :: "byte list \<Rightarrow> byte parsed" where
  "ReadByte [] = Inl EOF"
| "ReadByte (b # r) = Inr (b, r)"

definition ReadFull :: "nat \<Rightarrow> byte list \<Rightarrow> byte list parsed" where
  "ReadFull n r =
     (if n \<le> length r then Inr (take n r, drop n r)
      else if r = [] then Inl EOF else Inl ErrUnexpectedEOF)"

lemma ReadFull_append [simp]: "length bs = n \<Longrightarrow> ReadFull n (bs @ r) = Inr (bs, r)"
  by (auto simp: ReadFull_def)

lemma ReadFull_Inr:
  "ReadFull n r = Inr (bs, r') \<longleftrightarrow> length bs = n \<and> r = bs @ r'"
proof
  assume "ReadFull n r = Inr (bs, r')"
  then show "length bs = n \<and> r = bs @ r'"
    by (auto simp: ReadFull_def split: if_splits)
qed auto

lemma ReadByte_Inr: "ReadByte r = Inr (b, r') \<longleftrightarrow> r = b # r'"
  by (cases r) auto

text \<open>
  \<open>leaves n m\<close>: if the parsing step \<open>m\<close> succeeds, at most \<open>n\<close> bytes are left.
  The rules in \<open>leaves_intros\<close> follow the structure of a parser.
\<close>

named_theorems leaves_intros \<open>a parser leaves no more bytes than it was given\<close>

definition leaves :: "nat \<Rightarrow> 'a parsed \<Rightarrow> bool" where
  "leaves n m \<longleftrightarrow> (\<forall>x r. m = Inr (x, r) \<longrightarrow> length r \<le> n)"

lemma leaves_rbind [leaves_intros]:
  "leaves n m \<Longrightarrow> (\<And>x r. length r \<le> n \<Longrightarrow> leaves n (f x r)) \<Longrightarrow> leaves n (rbind m f)"
  by (auto simp: leaves_def rbind_eq_Inr)

lemma leaves_if [leaves_intros]:
  "leaves n p \<Longrightarrow> leaves n q \<Longrightarrow> leaves n (if c then p else q)"
  by simp

lemma leaves_values [leaves_intros]:
  "leaves n (Inl e)" "length r \<le> n \<Longrightarrow> leaves n (Inr (x, r))"
  by (simp_all add: leaves_def)

lemma leaves_ReadByte [leaves_intros]: "length b \<le> n \<Longrightarrow> leaves n (ReadByte b)"
  by (auto simp: leaves_def ReadByte_Inr)

lemma leaves_ReadFull [leaves_intros]: "length b \<le> n \<Longrightarrow> leaves n (ReadFull k b)"
  by (auto simp: leaves_def ReadFull_Inr)

lemma type_byte_progress:
  assumes "rbind (ReadByte b) f = Inr (x, r)"
    and "\<And>t r. length r < length b \<Longrightarrow> leaves (length b - 1) (f t r)"
  shows "length r < length b"
  using assms by (fastforce simp: rbind_eq_Inr ReadByte_Inr leaves_def)

section \<open>The mathematical little-endian code\<close>

fun le_val :: "byte list \<Rightarrow> nat" where
  "le_val [] = 0"
| "le_val (b # bs) = unat b + 256 * le_val bs"

fun le_enc :: "nat \<Rightarrow> nat \<Rightarrow> byte list" where
  "le_enc 0 x = []"
| "le_enc (Suc n) x = of_nat (x mod 256) # le_enc n (x div 256)"

lemma length_le_enc [simp]: "length (le_enc n x) = n"
  by (induction n arbitrary: x) auto

lemma unat_byte_of_mod [simp]: "unat (of_nat (x mod 256) :: byte) = x mod 256"
  by (simp add: unat_of_nat)

lemma le_val_le_enc: "le_val (le_enc n x) = x mod 256 ^ n"
proof (induction n arbitrary: x)
  case 0
  then show ?case by simp
next
  case (Suc n)
  have "le_val (le_enc (Suc n) x) = x mod 256 + 256 * ((x div 256) mod 256 ^ n)"
    by (simp add: Suc)
  also have "\<dots> = x mod 256 ^ Suc n"
    by (simp add: mod_mult2_eq)
  finally show ?case .
qed

lemma le_val_bound: "le_val bs < 256 ^ length bs"
proof (induction bs)
  case Nil
  then show ?case by simp
next
  case (Cons b bs)
  have "unat b < 256" using unsigned_less [of b] by simp
  with Cons show ?case by simp
qed

lemma le_enc_le_val: "length bs = n \<Longrightarrow> le_enc n (le_val bs) = bs"
proof (induction bs arbitrary: n)
  case Nil
  then show ?case by simp
next
  case (Cons b bs)
  have "unat b < 256" using unsigned_less [of b] by simp
  with Cons show ?case by auto
qed

lemma le_val_append: "le_val (xs @ ys) = le_val xs + 256 ^ length xs * le_val ys"
  by (induction xs) (auto simp: algebra_simps)

lemma le_enc_mod: "le_enc n (x mod 256 ^ n) = le_enc n x"
  by (metis le_enc_le_val le_val_le_enc length_le_enc)

section \<open>Words\<close>

lemma unat_drop_bit: "unat (drop_bit k x) = unat x div 2 ^ k"
  for x :: "'a::len word"
  by (simp only: unat_drop_bit_eq) (simp add: drop_bit_eq_div)

lemma byte_ucast_drop: "(ucast (drop_bit k x) :: byte) = of_nat (unat x div 2 ^ k mod 256)"
  for x :: "'a::len word"
proof -
  have "unat (ucast (drop_bit k x) :: byte) = unat (drop_bit k x) mod 256"
    by (simp only: unsigned_ucast_eq) (simp add: take_bit_eq_mod)
  then show ?thesis
    by (simp only: word_unat_eq_iff) (simp only: unat_drop_bit unat_byte_of_mod)
qed

lemma byte_ucast: "(ucast (x :: 'a::len word) :: byte) = of_nat (unat x mod 256)"
  using byte_ucast_drop [of 0 x] by simp

lemma unat_next_less: "i < l \<Longrightarrow> unat (i + 1) = unat i + 1" for i l :: "'a::len word"
proof -
  assume "i < l"
  moreover have "unat l < 2 ^ LENGTH('a)" by (rule unsigned_less)
  ultimately have "unat i + 1 < 2 ^ LENGTH('a)" unfolding word_less_nat_alt by linarith
  then show ?thesis by (simp add: unat_word_ariths)
qed

lemma unat_bound_u8: "unat x < 256" for x :: byte
  using unsigned_less [of x, where 'a = nat] by simp

lemma unat_bound_u16: "unat x < 65536" for x :: u16
  using unsigned_less [of x, where 'a = nat] by simp

lemma unat_bound_u32: "unat x < 4294967296" for x :: u32
  using unsigned_less [of x, where 'a = nat] by simp

lemma unat_bound_u64: "unat x < 18446744073709551616" for x :: u64
  using unsigned_less [of x, where 'a = nat] by simp

lemma unat_ucast_up: "LENGTH('a) \<le> LENGTH('b) \<Longrightarrow> unat (ucast x :: 'b::len word) = unat x"
  for x :: "'a::len word"
  by (simp add: unsigned_ucast_eq take_bit_nat_eq_self_iff
      order.strict_trans2 [OF unsigned_less power_increasing])

end
