(* ===== verification/Protocol.thy ===== *)
theory Protocol
  imports Prelude
begin

text \<open>
  Package \<open>internal/protocol\<close>: the numeric types and constants
  (\<open>protocol.go\<close>, \<open>server_parameters.go\<close>), the choice of a packet number length
  and the inference of a full packet number from its truncated form
  (\<open>packet_number.go\<close>), version numbers and their tags (\<open>version.go\<close>), and the
  encryption levels (\<open>encryption_level.go\<close>).

  Shown here: a truncated packet number is inferred exactly whenever the number
  is less than half an epoch away from the one expected next, the length chosen
  for a public header guarantees this, and version tags can be read back.
\<close>

type_synonym PacketNumber = u64
type_synonym PacketNumberLen = "8 word"
type_synonym ConnectionID = u64
type_synonym StreamID = u32
type_synonym PathID = "8 word"
type_synonym ByteCount = u64
type_synonym VersionNumber = int

datatype Perspective = PerspectiveServer | PerspectiveClient

section \<open>Constants\<close>

abbreviation (input) PacketNumberLenInvalid :: PacketNumberLen where "PacketNumberLenInvalid \<equiv> 0"
abbreviation (input) PacketNumberLen1 :: PacketNumberLen where "PacketNumberLen1 \<equiv> 1"
abbreviation (input) PacketNumberLen2 :: PacketNumberLen where "PacketNumberLen2 \<equiv> 2"
abbreviation (input) PacketNumberLen4 :: PacketNumberLen where "PacketNumberLen4 \<equiv> 4"
abbreviation (input) PacketNumberLen6 :: PacketNumberLen where "PacketNumberLen6 \<equiv> 6"

definition InitialPathID :: PathID where "InitialPathID = 0"
definition MaxByteCount :: ByteCount where "MaxByteCount = - 1"

definition MaxPacketSize :: ByteCount where "MaxPacketSize = 1350"
definition MaxTrackedSkippedPackets :: nat where "MaxTrackedSkippedPackets = 10"
definition DefaultMaxCongestionWindow :: nat where "DefaultMaxCongestionWindow = 2500"
definition MaxTrackedSentPackets :: nat where
  "MaxTrackedSentPackets = 2 * DefaultMaxCongestionWindow"
definition MaxTrackedReceivedAckRanges :: nat where
  "MaxTrackedReceivedAckRanges = DefaultMaxCongestionWindow"
abbreviation (input) MaxPacketsReceivedBeforeAckSend :: int where "MaxPacketsReceivedBeforeAckSend \<equiv> 20"
abbreviation (input) MaxNonRetransmittablePackets :: int where "MaxNonRetransmittablePackets \<equiv> 19"
abbreviation (input) RetransmittablePacketsBeforeAck :: int where "RetransmittablePacketsBeforeAck \<equiv> 2"
abbreviation (input) MaxStreamFrameSorterGaps :: nat where "MaxStreamFrameSorterGaps \<equiv> 2500"

text \<open>\<open>25 * time.Millisecond\<close>, in nanoseconds.\<close>

definition AckSendDelay :: duration where "AckSendDelay = 25 * 1000000"

lemmas packet_number_len_defs [const_defs] = InitialPathID_def

section \<open>Encryption levels\<close>

datatype EncryptionLevel =
    EncryptionUnspecified | EncryptionUnencrypted | EncryptionSecure | EncryptionForwardSecure

text \<open>The \<open>iota\<close> value of a level; Go compares levels by it.\<close>

fun level_rank :: "EncryptionLevel \<Rightarrow> nat" where
  "level_rank EncryptionUnspecified = 0"
| "level_rank EncryptionUnencrypted = 1"
| "level_rank EncryptionSecure = 2"
| "level_rank EncryptionForwardSecure = 3"

lemma level_rank_inject: "level_rank a = level_rank b \<Longrightarrow> a = b"
  by (cases a; cases b) auto

instantiation EncryptionLevel :: linorder
begin

definition less_eq_EncryptionLevel :: "EncryptionLevel \<Rightarrow> EncryptionLevel \<Rightarrow> bool" where
  "less_eq_EncryptionLevel a b \<longleftrightarrow> level_rank a \<le> level_rank b"

definition less_EncryptionLevel :: "EncryptionLevel \<Rightarrow> EncryptionLevel \<Rightarrow> bool" where
  "less_EncryptionLevel a b \<longleftrightarrow> level_rank a < level_rank b"

instance
  by standard
    (auto simp: less_eq_EncryptionLevel_def less_EncryptionLevel_def intro: level_rank_inject)

end

section \<open>Packet numbers\<close>

definition delta :: "PacketNumber \<Rightarrow> PacketNumber \<Rightarrow> PacketNumber" where
  "delta a b = (if a < b then b - a else a - b)"

definition closestTo :: "PacketNumber \<Rightarrow> PacketNumber \<Rightarrow> PacketNumber \<Rightarrow> PacketNumber" where
  "closestTo target a b = (if delta target a < delta target b then a else b)"

definition InferPacketNumber ::
    "PacketNumberLen \<Rightarrow> PacketNumber \<Rightarrow> PacketNumber \<Rightarrow> PacketNumber" where
  "InferPacketNumber packetNumberLength lastPacketNumber wirePacketNumber =
     (let epochDelta = push_bit (unat (packetNumberLength * 8)) 1;
          epoch = lastPacketNumber AND NOT (epochDelta - 1);
          prevEpochBegin = epoch - epochDelta;
          nextEpochBegin = epoch + epochDelta
      in closestTo (lastPacketNumber + 1) (epoch + wirePacketNumber)
           (closestTo (lastPacketNumber + 1)
              (prevEpochBegin + wirePacketNumber) (nextEpochBegin + wirePacketNumber)))"

definition GetPacketNumberLengthForPublicHeader ::
    "PacketNumber \<Rightarrow> PacketNumber \<Rightarrow> PacketNumberLen" where
  "GetPacketNumberLengthForPublicHeader packetNumber leastUnacked =
     (let diff = packetNumber - leastUnacked
      in if diff < push_bit (2 * 8 - 2) 2 then PacketNumberLen2
         else if diff < push_bit (4 * 8 - 2) 2 then PacketNumberLen4
         else PacketNumberLen6)"

definition GetPacketNumberLength :: "PacketNumber \<Rightarrow> PacketNumberLen" where
  "GetPacketNumberLength packetNumber =
     (if packetNumber < push_bit (1 * 8) 1 then PacketNumberLen1
      else if packetNumber < push_bit (2 * 8) 1 then PacketNumberLen2
      else if packetNumber < push_bit (4 * 8) 1 then PacketNumberLen4
      else PacketNumberLen6)"

lemma uint_delta: "uint (delta a b) = \<bar>uint a - uint b\<bar>"
  by (auto simp: delta_def word_less_alt uint_sub_if_size)

lemma closestTo_left:
  "\<bar>uint t - uint a\<bar> < \<bar>uint t - uint b\<bar> \<Longrightarrow> closestTo t a b = a"
  by (simp add: closestTo_def word_less_alt uint_delta)

lemma closestTo_right:
  "\<bar>uint t - uint b\<bar> < \<bar>uint t - uint a\<bar> \<Longrightarrow> closestTo t a b = b"
  by (simp add: closestTo_def word_less_alt uint_delta)

lemma closestTo_cases: "closestTo t a b = a \<or> closestTo t a b = b"
  by (simp add: closestTo_def)

lemma uint_clear_low:
  "uint (x AND NOT (push_bit n 1 - 1)) = uint x - uint x mod 2 ^ n" for x :: "'a::len word"
proof -
  have m: "x AND NOT (push_bit n 1 - 1) = x AND NOT (mask n)"
    by (simp add: mask_eq_exp_minus_1)
  have "(x AND NOT (mask n)) + take_bit n x = (x AND NOT (mask n)) OR take_bit n x"
    by (rule disjunctive_add_eq_or) (simp add: bit_eq_iff bit_simps)
  also have "\<dots> = x"
    by (auto simp: bit_eq_iff bit_simps)
  finally have "x AND NOT (mask n) = x - take_bit n x"
    by (simp add: algebra_simps)
  moreover have "uint (take_bit n x) = uint x mod 2 ^ n"
    by (simp only: unsigned_take_bit_eq) (simp add: take_bit_eq_mod)
  moreover have "uint x mod 2 ^ n \<le> uint x"
    by (simp add: zmod_le_nonneg_dividend)
  ultimately show ?thesis
    unfolding m by (simp add: uint_sub_if_size)
qed

text \<open>
  The arithmetic behind the inference: a number less than half an epoch away from
  \<open>L + 1\<close> lies in the epoch of \<open>L\<close> or in a neighbouring one.
\<close>

lemma epoch_candidates:
  fixes P L D :: int
  assumes D: "0 < D" and L: "0 \<le> L" and near: "2 * \<bar>P - (L + 1)\<bar> < D"
  shows "P = L - L mod D + P mod D \<or> P = L - L mod D - D + P mod D
       \<or> P = L - L mod D + D + P mod D"
proof -
  define p l a b where "p = P div D" and "l = L div D" and "a = P mod D" and "b = L mod D"
  have P: "P = p * D + a" and Lq: "L = l * D + b"
    by (simp_all add: p_def l_def a_def b_def)
  have bP: "0 \<le> a" "a < D" and bL: "0 \<le> b" "b < D"
    using D by (simp_all add: a_def b_def)
  have near1: "2 * (P - (L + 1)) < D" and near2: "2 * ((L + 1) - P) < D"
    using near by (simp_all add: abs_if split: if_splits)
  have lt: "x - y < 2 * D" if "2 * (x + c - (y + d)) < D + 2" "0 \<le> c" "d < D" for x y c d
    using that D by presburger
  have "(p - l) * D < 2 * D" and "(l - p) * D < 2 * D"
    using lt [of "p * D" a "l * D" b] lt [of "l * D" b "p * D" a] P Lq near1 near2 bP bL
    by (simp_all add: left_diff_distrib)
  then have "p - l < 2" and "l - p < 2" using D by simp_all
  then consider "p = l" | "p = l - 1" | "p = l + 1" by linarith
  then have "P = L - b + a \<or> P = L - b - D + a \<or> P = L - b + D + a"
    using P Lq by cases (simp_all add: algebra_simps)
  then show ?thesis by (simp only: a_def b_def)
qed

lemma nearer_than_epoch:
  fixes P T D z :: int
  assumes "2 * \<bar>P - T\<bar> < D" and "P + D \<le> z \<or> z \<le> P - D"
  shows "\<bar>T - P\<bar> < \<bar>T - z\<bar>"
  using assms by arith

lemma uint_add_small:
  "uint a + uint b < 2 ^ LENGTH('a) \<Longrightarrow> uint (a + b) = uint a + uint b" for a b :: "'a::len word"
  by (simp add: uint_add_lem)

lemma InferPacketNumber_window:
  fixes pn lastPN :: PacketNumber and n :: nat
  assumes n: "n = unat (pnl * 8)" "0 < n" "n \<le> 48"
    and last: "uint lastPN < 2 ^ 62"
    and near: "2 * \<bar>uint pn - (uint lastPN + 1)\<bar> < 2 ^ n"
  shows "InferPacketNumber pnl lastPN (take_bit n pn) = pn"
proof -
  define D where "D = (2::int) ^ n"
  define E where "E = uint lastPN - uint lastPN mod D"
  define W where "W = uint pn mod D"
  have Dpos: "0 < D" by (simp add: D_def)
  have Dle: "D \<le> 2 ^ 48"
    unfolding D_def using n(3) by (intro power_increasing) auto
  have Ebd: "0 \<le> E" "E \<le> uint lastPN" "uint lastPN < E + D"
    using Dpos pos_mod_bound [OF Dpos, of "uint lastPN"]
      zmod_le_nonneg_dividend [of "uint lastPN" D] by (simp_all add: E_def)
  have Wbd: "0 \<le> W" "W < D" using Dpos by (simp_all add: W_def)
  have uD: "uint (push_bit n 1 :: u64) = D"
    using n(3) by (simp add: D_def push_bit_eq_mult uint_2p word_neq_0_conv [symmetric])
  let ?w = "take_bit n pn"
  let ?ep = "lastPN AND NOT (push_bit n 1 - 1)"
  let ?t = "lastPN + 1"
  have uw: "uint ?w = W"
    by (simp only: W_def D_def unsigned_take_bit_eq) (simp add: take_bit_eq_mod)
  have uep: "uint ?ep = E"
    by (simp only: uint_clear_low E_def D_def)
  have ut: "uint ?t = uint lastPN + 1"
    using last by (subst uint_add_small) auto
  have ucur: "uint (?ep + ?w) = E + W"
    using uep uw Ebd Wbd Dle last by (subst uint_add_small) auto
  have unext0: "uint (?ep + push_bit n 1) = E + D"
    using uep uD Ebd Wbd Dle last by (subst uint_add_small) auto
  have unext: "uint (?ep + push_bit n 1 + ?w) = E + D + W"
    using unext0 uw Ebd Wbd Dle last by (subst uint_add_small) auto
  have Ecase: "E = 0 \<or> D \<le> E"
  proof (cases "uint lastPN < D")
    case True
    then show ?thesis by (simp add: E_def)
  next
    case False
    then have "1 \<le> uint lastPN div D" using Dpos by (simp add: int_one_le_iff_zero_less pos_imp_zdiv_pos_iff)
    then have "D \<le> D * (uint lastPN div D)" using Dpos by simp
    then show ?thesis by (simp add: E_def minus_mod_eq_mult_div)
  qed
  have uprev: "uint (?ep - push_bit n 1 + ?w) = (if D \<le> E then E - D + W else 2 ^ 64 - D + W)"
  proof -
    have u0: "uint (?ep - push_bit n 1) = (if D \<le> E then E - D else 2 ^ 64 + E - D)"
      by (simp only: uint_sub_if_size uep uD) (simp add: word_size)
    show ?thesis
    proof (cases "D \<le> E")
      case True
      have "uint (?ep - push_bit n 1) + uint ?w < 2 ^ 64"
        using True u0 uw Ebd Wbd Dle last by simp
      then show ?thesis using True u0 uw by (subst uint_add_small) auto
    next
      case False
      then have "E = 0" using Ecase by simp
      then have "uint (?ep - push_bit n 1) + uint ?w < 2 ^ 64"
        using False u0 uw Wbd by simp
      then show ?thesis using False \<open>E = 0\<close> u0 uw by (subst uint_add_small) auto
    qed
  qed
  have cand: "uint pn = E + W \<or> uint pn = E - D + W \<or> uint pn = E + D + W"
    using epoch_candidates [OF Dpos, of "uint lastPN" "uint pn"] near
    by (simp add: E_def W_def D_def)
  have nonneg: "0 \<le> uint pn" by simp
  have near': "2 * \<bar>uint pn - (uint lastPN + 1)\<bar> < D" using near by (simp add: D_def)
  let ?c = "?ep + ?w" and ?p = "?ep - push_bit n 1 + ?w" and ?x = "?ep + push_bit n 1 + ?w"
  have infer: "InferPacketNumber pnl lastPN ?w = closestTo ?t ?c (closestTo ?t ?p ?x)"
    by (simp only: InferPacketNumber_def Let_def n(1))
  have far: "\<bar>uint ?t - uint pn\<bar> < \<bar>uint ?t - z\<bar>"
    if "uint pn + D \<le> z \<or> z \<le> uint pn - D" for z
    unfolding ut using near' that by (rule nearer_than_epoch)
  from cand show ?thesis
  proof (elim disjE)
    assume pn: "uint pn = E + W"
    then have c: "?c = pn" using ucur by (simp add: word_uint_eq_iff)
    have "closestTo ?t pn ?p = pn" and "closestTo ?t pn ?x = pn"
      using uprev unext pn Wbd Dle last Ebd by (intro closestTo_left far; simp)+
    with closestTo_cases [of ?t ?p ?x] show ?thesis
      unfolding infer c by metis
  next
    assume pn: "uint pn = E - D + W"
    have ge: "D \<le> E" using pn Ecase nonneg Wbd by linarith
    then have p: "?p = pn" using pn uprev by (simp add: word_uint_eq_iff)
    have "closestTo ?t pn ?x = pn"
      using unext pn Dpos by (intro closestTo_left far) simp
    moreover have "closestTo ?t ?c pn = pn"
      using ucur pn by (intro closestTo_right far) simp
    ultimately show ?thesis by (simp only: infer p)
  next
    assume pn: "uint pn = E + D + W"
    then have x: "?x = pn" using unext by (simp add: word_uint_eq_iff)
    have "closestTo ?t ?p pn = pn"
      using uprev pn Dpos Wbd Dle last Ebd by (intro closestTo_right far) simp
    moreover have "closestTo ?t ?c pn = pn"
      using ucur pn by (intro closestTo_right far) simp
    ultimately show ?thesis by (simp only: infer x)
  qed
qed

lemma InferPacketNumber_half_epoch:
  assumes len: "pnl \<in> {PacketNumberLen1, PacketNumberLen2, PacketNumberLen4, PacketNumberLen6}"
    and last: "uint lastPN < 2 ^ 62"
    and near: "\<bar>uint pn - (uint lastPN + 1)\<bar> < 2 ^ (8 * unat pnl - 1)"
  shows "InferPacketNumber pnl lastPN (take_bit (8 * unat pnl) pn) = pn"
proof -
  have n: "8 * unat pnl = unat (pnl * 8)" "0 < 8 * unat pnl" "8 * unat pnl \<le> 48"
    using len by (auto simp: packet_number_len_defs)
  have "2 * \<bar>uint pn - (uint lastPN + 1)\<bar> < 2 * 2 ^ (8 * unat pnl - 1)"
    using near by simp
  also have "\<dots> = (2::int) ^ (8 * unat pnl)"
    using n(2) by (simp flip: power_Suc)
  finally show ?thesis
    using n last by (intro InferPacketNumber_window) auto
qed

text \<open>
  C14: Packet number inference.  A packet number truncated to its low
  \<open>8 * packetNumberLength\<close> bits is recovered exactly by \<open>InferPacketNumber\<close>
  whenever it is less than half an epoch (\<open>2 ^ (8 * packetNumberLength - 1)\<close>)
  away from the number following the largest one seen.
\<close>

theorem InferPacketNumber_recovers:
  assumes len: "pnl \<in> {PacketNumberLen1, PacketNumberLen2, PacketNumberLen4, PacketNumberLen6}"
    and last: "uint lastPN < 2 ^ 62"
    and near: "\<bar>uint pn - (uint lastPN + 1)\<bar> < 2 ^ (8 * unat pnl - 1)"
  shows "InferPacketNumber pnl lastPN (take_bit (8 * unat pnl) pn) = pn"
  using assms by (rule InferPacketNumber_half_epoch)

theorem InferPacketNumber_recovers_witness:
  "InferPacketNumber PacketNumberLen2 65530 (take_bit 16 65540) = 65540"
  using InferPacketNumber_recovers [of PacketNumberLen2 65530 65540]
  by (simp add: packet_number_len_defs)

lemma public_header_infers:
  assumes order: "leastUnacked \<le> lastPN + 1" "lastPN < pn"
    and bounds: "uint pn < 2 ^ 62" "pn - leastUnacked < 2 ^ 47"
    and pnl: "pnl = GetPacketNumberLengthForPublicHeader pn leastUnacked"
  shows "InferPacketNumber pnl lastPN (take_bit (8 * unat pnl) pn) = pn"
proof (rule InferPacketNumber_half_epoch)
  show "pnl \<in> {PacketNumberLen1, PacketNumberLen2, PacketNumberLen4, PacketNumberLen6}"
    by (auto simp: pnl GetPacketNumberLengthForPublicHeader_def Let_def)
  show "uint lastPN < 2 ^ 62"
    using order bounds by (simp add: word_less_alt)
  have t: "uint (lastPN + 1) = uint lastPN + 1"
    using order bounds by (intro uint_add_small [THEN trans]) (auto simp: word_less_alt)
  have diff: "uint (pn - leastUnacked) = uint pn - uint leastUnacked"
    using order t by (simp add: uint_sub_if_size word_le_def word_less_alt)
  have "uint (pn - leastUnacked) < 2 ^ (8 * unat pnl - 1)"
    using bounds(2) unfolding pnl
    by (auto simp: GetPacketNumberLengthForPublicHeader_def Let_def packet_number_len_defs
        word_less_alt push_bit_eq_mult)
  then show "\<bar>uint pn - (uint lastPN + 1)\<bar> < 2 ^ (8 * unat pnl - 1)"
    using order t diff by (simp add: word_le_def word_less_alt)
qed

text \<open>
  C30: The length chosen for the public header is long enough.  If the peer has
  already seen every number below \<open>leastUnacked\<close>, and nothing beyond the packet
  itself, the number written with \<open>GetPacketNumberLengthForPublicHeader\<close> bytes
  is inferred correctly, as long as fewer than \<open>2 ^ 47\<close> packets are outstanding.
\<close>

theorem public_header_length_sufficient:
  assumes order: "leastUnacked \<le> lastPN + 1" "lastPN < pn"
    and bounds: "uint pn < 2 ^ 62" "pn - leastUnacked < 2 ^ 47"
    and pnl: "pnl = GetPacketNumberLengthForPublicHeader pn leastUnacked"
  shows "InferPacketNumber pnl lastPN (take_bit (8 * unat pnl) pn) = pn"
  using assms by (rule public_header_infers)

theorem public_header_length_sufficient_witness:
  "InferPacketNumber (GetPacketNumberLengthForPublicHeader 70000 40000) 39999
     (take_bit (8 * unat (GetPacketNumberLengthForPublicHeader 70000 40000)) 70000) = 70000"
  using public_header_length_sufficient [OF _ _ _ _ refl, of 40000 39999 70000] by simp

text \<open>\<open>GetPacketNumberLength\<close> picks the shortest of the four lengths that fits.\<close>

lemma GetPacketNumberLength_cases:
  "GetPacketNumberLength pn \<in> {1, 2, 4, 6}"
  by (simp add: GetPacketNumberLength_def packet_number_len_defs)

lemma GetPacketNumberLength_fits:
  assumes "uint pn < 2 ^ 48"
  shows "uint pn < 2 ^ (8 * unat (GetPacketNumberLength pn))"
  using assms
  by (simp add: GetPacketNumberLength_def packet_number_len_defs word_less_alt push_bit_eq_mult)

section \<open>Versions\<close>

abbreviation (input) Version37 :: VersionNumber where "Version37 \<equiv> 37"
abbreviation (input) Version38 :: VersionNumber where "Version38 \<equiv> 38"
definition Version39 :: VersionNumber where "Version39 = 39"
abbreviation (input) VersionTLS :: VersionNumber where "VersionTLS \<equiv> 101"
abbreviation (input) VersionWhatever :: VersionNumber where "VersionWhatever \<equiv> 0"
abbreviation (input) VersionUnsupported :: VersionNumber where "VersionUnsupported \<equiv> - 1"
definition VersionUnknown :: VersionNumber where "VersionUnknown = - 2"
definition VersionMP :: VersionNumber where "VersionMP = 512"

lemmas version_defs [const_defs] = Version39_def VersionUnknown_def VersionMP_def

definition SupportedVersions :: "VersionNumber list" where
  "SupportedVersions = [VersionMP, Version39, Version38, Version37]"

definition UsesTLS :: "VersionNumber \<Rightarrow> bool" where
  "UsesTLS vn \<longleftrightarrow> vn = VersionTLS"

text \<open>\<open>'Q'\<close> is 81 and \<open>'0'\<close> is 48; the arithmetic is on \<open>uint32\<close>.\<close>

definition VersionNumberToTag :: "VersionNumber \<Rightarrow> u32" where
  "VersionNumberToTag vn =
     (let v = word_of_int vn
      in 81 + push_bit 8 (v div 100 mod 10 + 48) + push_bit 16 (v div 10 mod 10 + 48)
           + push_bit 24 (v mod 10 + 48))"

definition VersionTagToNumber :: "u32 \<Rightarrow> VersionNumber" where
  "VersionTagToNumber v =
     uint (((drop_bit 8 v AND 0xff) - 48) * 100 + ((drop_bit 16 v AND 0xff) - 48) * 10
           + ((drop_bit 24 v AND 0xff) - 48))"

fun IsSupportedVersion :: "VersionNumber list \<Rightarrow> VersionNumber \<Rightarrow> bool" where
  "IsSupportedVersion [] v = False"
| "IsSupportedVersion (t # supported) v = (if t = v then True else IsSupportedVersion supported v)"

text \<open>The two nested loops: the inner one scans \<open>theirs\<close> for one of our versions.\<close>

fun ChooseSupportedVersion :: "VersionNumber list \<Rightarrow> VersionNumber list \<Rightarrow> VersionNumber" where
  "ChooseSupportedVersion [] theirs = VersionUnsupported"
| "ChooseSupportedVersion (ourVer # ours) theirs =
     (if ourVer \<in> set theirs then ourVer else ChooseSupportedVersion ours theirs)"

lemma IsSupportedVersion_iff: "IsSupportedVersion vs v \<longleftrightarrow> v \<in> set vs"
  by (induction vs) auto

lemma ChooseSupportedVersion_find:
  "ChooseSupportedVersion ours theirs =
     (case find (\<lambda>v. v \<in> set theirs) ours of Some v \<Rightarrow> v | None \<Rightarrow> VersionUnsupported)"
  by (induction ours) auto

lemma unat_byte_field:
  "unat (drop_bit k v AND 0xff) = unat v div 2 ^ k mod 256" for v :: u32
proof -
  have "drop_bit k v AND 0xff = take_bit 8 (drop_bit k v)"
    by (simp add: take_bit_eq_mask mask_eq_exp_minus_1)
  moreover have "unat (take_bit 8 (drop_bit k v)) = unat v div 2 ^ k mod 256"
    by (simp only: unsigned_take_bit_eq unat_drop_bit) (simp add: take_bit_eq_mod)
  ultimately show ?thesis by simp
qed

lemma unat_VersionNumberToTag:
  assumes "0 \<le> vn" "vn < 1000"
  shows "unat (VersionNumberToTag vn) =
    81 + 256 * (nat vn div 100 + 48) + 65536 * (nat vn div 10 mod 10 + 48)
       + 16777216 * (nat vn mod 10 + 48)"
proof -
  obtain n where n: "vn = int n" "n < 1000"
    using assms by (metis nat_int_comparison(2) of_nat_numeral zero_le_imp_eq_int)
  have v: "unat (of_nat n :: u32) = n" using n by (simp add: unat_of_nat)
  have h: "n div 100 mod 10 = n div 100" using n by simp
  have "n div 100 < 10" "n div 10 mod 10 < 10" "n mod 10 < 10" using n by auto
  then show ?thesis
    using h by (simp add: VersionNumberToTag_def Let_def n push_bit_eq_mult v
        unat_word_ariths)
qed

lemma tag_fields:
  fixes a b c :: nat
  assumes "a < 208" "b < 208" "c < 208"
  defines "t \<equiv> 81 + 256 * (a + 48) + 65536 * (b + 48) + 16777216 * (c + 48)"
  shows "t div 2 ^ 8 mod 256 = a + 48" and "t div 2 ^ 16 mod 256 = b + 48"
    and "t div 2 ^ 24 mod 256 = c + 48"
proof -
  have t: "t = 81 + 256 * ((a + 48) + 256 * ((b + 48) + 256 * (c + 48)))"
    by (simp add: t_def)
  have t1: "t div 256 = (a + 48) + 256 * ((b + 48) + 256 * (c + 48))"
    unfolding t by simp
  then have t2: "t div 256 div 256 = (b + 48) + 256 * (c + 48)"
    using assms(1) by simp
  then have t3: "t div 256 div 256 div 256 = c + 48"
    using assms(2) by simp
  show "t div 2 ^ 8 mod 256 = a + 48" proof -
    have "((a + 48) + 256 * x) mod 256 = a + 48" for x
      using assms(1) by (simp only: mod_mult_self2) simp
    then have "t div 256 mod 256 = a + 48" by (simp only: t1)
    then show ?thesis by simp
  qed
  show "t div 2 ^ 16 mod 256 = b + 48" proof -
    have "((b + 48) + 256 * x) mod 256 = b + 48" for x
      using assms(2) by (simp only: mod_mult_self2) simp
    then have "t div 256 div 256 mod 256 = b + 48" by (simp only: t2)
    then show ?thesis by (simp flip: div_mult2_eq)
  qed
  show "t div 2 ^ 24 mod 256 = c + 48" using t3 assms(3) by (simp add: div_mult2_eq [symmetric])
qed

lemma VersionTagToNumber_tag:
  assumes "0 \<le> vn" "vn < 1000"
  shows "VersionTagToNumber (VersionNumberToTag vn) = vn"
proof -
  let ?t = "VersionNumberToTag vn" and ?n = "nat vn"
  have n: "?n < 1000" using assms by simp
  note u = unat_VersionNumberToTag [OF assms]
  have d: "?n div 100 < 10" "?n div 10 mod 10 < 10" "?n mod 10 < 10" using n by auto
  have f1: "unat (drop_bit 8 ?t AND 0xff) = ?n div 100 + 48"
    using tag_fields [of "?n div 100" "?n div 10 mod 10" "?n mod 10"] d
    by (simp only: unat_byte_field u)
  have f2: "unat (drop_bit 16 ?t AND 0xff) = ?n div 10 mod 10 + 48"
    using tag_fields [of "?n div 100" "?n div 10 mod 10" "?n mod 10"] d
    by (simp only: unat_byte_field u)
  have f3: "unat (drop_bit 24 ?t AND 0xff) = ?n mod 10 + 48"
    using tag_fields [of "?n div 100" "?n div 10 mod 10" "?n mod 10"] d
    by (simp only: unat_byte_field u)
  have s: "unat ((drop_bit 8 ?t AND 0xff) - 48) = ?n div 100"
    "unat ((drop_bit 16 ?t AND 0xff) - 48) = ?n div 10 mod 10"
    "unat ((drop_bit 24 ?t AND 0xff) - 48) = ?n mod 10"
    by (simp_all add: unat_sub_if_size f1 f2 f3)
  have "unat (x * 100 + y * 10 + z) = ?n"
    if "unat x = ?n div 100" "unat y = ?n div 10 mod 10" "unat z = ?n mod 10" for x y z :: u32
  proof -
    have "?n div 100 = ?n div 10 div 10" by (simp flip: div_mult2_eq)
    then have *: "(?n div 100) * 100 + (?n div 10 mod 10) * 10 + ?n mod 10 = ?n"
      using div_mult_mod_eq [of "?n div 10" 10] div_mult_mod_eq [of ?n 10] by linarith
    have "unat x * 100 + unat y * 10 + unat z = ?n" by (simp only: that *)
    then show ?thesis using n by (simp add: unat_word_ariths)
  qed
  from this [OF s] show ?thesis
    using assms unfolding VersionTagToNumber_def by (metis int_nat_eq of_nat_unat)
qed

text \<open>
  C31: Version tags can be read back.  For every version number of at most three
  digits, \<open>VersionTagToNumber\<close> inverts \<open>VersionNumberToTag\<close>.
\<close>

theorem VersionTag_roundtrip:
  assumes "0 \<le> vn" "vn < 1000"
  shows "VersionTagToNumber (VersionNumberToTag vn) = vn"
  using assms by (rule VersionTagToNumber_tag)

theorem VersionTag_roundtrip_witness:
  "VersionTagToNumber (VersionNumberToTag VersionMP) = VersionMP"
  using VersionTag_roundtrip [of VersionMP] by (simp add: VersionMP_def)

end
