(* ===== verification/Utils.thy ===== *)
theory Utils
  imports Protocol
begin

text \<open>
  The comparisons of \<open>internal/utils/minmax.go\<close> and the intervals of
  \<open>packet_interval.go\<close> and \<open>streamframe_interval.go\<close>.  The lemmas in
  \<open>minmax_simps\<close> say that the former are the minimum and the maximum of the
  linear order of their type.
\<close>

named_theorems minmax_simps \<open>the comparison helpers are \<open>min\<close> and \<open>max\<close>\<close>

definition InfDuration :: duration where "InfDuration = 2 ^ 63 - 1"

definition MaxInt :: "int \<Rightarrow> int \<Rightarrow> int" where
  "MaxInt a b = (if a < b then b else a)"

definition MaxUint32 :: "u32 \<Rightarrow> u32 \<Rightarrow> u32" where
  "MaxUint32 a b = (if a < b then b else a)"

definition MaxUint64 :: "u64 \<Rightarrow> u64 \<Rightarrow> u64" where
  "MaxUint64 a b = (if a < b then b else a)"

definition MinUint64 :: "u64 \<Rightarrow> u64 \<Rightarrow> u64" where
  "MinUint64 a b = (if a < b then a else b)"

definition MinInt :: "int \<Rightarrow> int \<Rightarrow> int" where
  "MinInt a b = (if a < b then a else b)"

definition MinUint32 :: "u32 \<Rightarrow> u32 \<Rightarrow> u32" where
  "MinUint32 a b = (if a < b then a else b)"

definition MinInt64 :: "int \<Rightarrow> int \<Rightarrow> int" where
  "MinInt64 a b = (if a < b then a else b)"

definition MaxInt64 :: "int \<Rightarrow> int \<Rightarrow> int" where
  "MaxInt64 a b = (if a > b then a else b)"

definition MinByteCount :: "ByteCount \<Rightarrow> ByteCount \<Rightarrow> ByteCount" where
  "MinByteCount a b = (if a < b then a else b)"

definition utils_MaxByteCount :: "ByteCount \<Rightarrow> ByteCount \<Rightarrow> ByteCount" where
  "utils_MaxByteCount a b = (if a > b then a else b)"

definition MaxDuration :: "duration \<Rightarrow> duration \<Rightarrow> duration" where
  "MaxDuration a b = (if a > b then a else b)"

definition MinDuration :: "duration \<Rightarrow> duration \<Rightarrow> duration" where
  "MinDuration a b = (if a > b then b else a)"

definition AbsDuration :: "duration \<Rightarrow> duration" where
  "AbsDuration d = (if d \<ge> 0 then d else - d)"

definition MinTime :: "time \<Rightarrow> time \<Rightarrow> time" where
  "MinTime a b = (if a > b then b else a)"

definition MaxTime :: "time \<Rightarrow> time \<Rightarrow> time" where
  "MaxTime a b = (if a > b then a else b)"

definition MaxPacketNumber :: "PacketNumber \<Rightarrow> PacketNumber \<Rightarrow> PacketNumber" where
  "MaxPacketNumber a b = (if a > b then a else b)"

definition MinPacketNumber :: "PacketNumber \<Rightarrow> PacketNumber \<Rightarrow> PacketNumber" where
  "MinPacketNumber a b = (if a < b then a else b)"

lemma minmax_eq [minmax_simps]:
  "MaxInt = max"
  "MaxUint32 = max"
  "MaxUint64 = max"
  "MinUint64 = min"
  "MinInt = min"
  "MinUint32 = min"
  "MinInt64 = min"
  "MaxInt64 = max"
  "MinByteCount = min"
  "utils_MaxByteCount = max"
  "MaxDuration = max"
  "MinDuration = min"
  "MinTime = min"
  "MaxTime = max"
  "MaxPacketNumber = max"
  "MinPacketNumber = min"
  by (auto simp: fun_eq_iff min_def max_def MaxInt_def
      MaxUint32_def
      MaxUint64_def
      MinUint64_def
      MinInt_def
      MinUint32_def
      MinInt64_def
      MaxInt64_def
      MinByteCount_def
      utils_MaxByteCount_def
      MaxDuration_def
      MinDuration_def
      MinTime_def
      MaxTime_def
      MaxPacketNumber_def
      MinPacketNumber_def)

lemma AbsDuration_eq [minmax_simps]: "AbsDuration d = \<bar>d\<bar>"
  by (simp add: AbsDuration_def)

record PacketInterval =
  pi_Start :: PacketNumber
  pi_End :: PacketNumber

record ByteInterval =
  bi_Start :: ByteCount
  bi_End :: ByteCount

end
