(* ===== verification/ByteOrder.thy ===== *)
theory ByteOrder
  imports Protocol
begin

text \<open>
  The byte orders of \<open>internal/utils\<close>: the methods of \<open>littleEndian\<close> and
  \<open>bigEndian\<close>, the interface \<open>ByteOrder\<close> as a dispatch on the two
  implementations, and the 16-bit floats of \<open>float16.go\<close>.

  A read method maps the unread bytes to an error or to the value and the rest; a
  write method gives the bytes it appends, or a panic.  The locale
  \<open>byte_order\<close> states the contract of the interface against a mathematical code
  (\<open>enc\<close> and \<open>dec\<close>); it is interpreted for both implementations and for the
  dispatch, and the frame theories only use its consequences.
\<close>

section \<open>littleEndian\<close>

function little_ReadUintN_from :: "byte \<Rightarrow> byte \<Rightarrow> u64 \<Rightarrow> byte list \<Rightarrow> u64 parsed" where
  "little_ReadUintN_from len i res b =
     (if i < len
      then rbind (ReadByte b) (\<lambda>bt b.
        little_ReadUintN_from len (i + 1) (res XOR push_bit (unat (i * 8)) (ucast bt)) b)
      else Inr (res, b))"
  by auto

termination little_ReadUintN_from
  by (relation "measure (\<lambda>(len, i, res, b). unat len - unat i)")
    (auto simp: unat_next_less word_less_nat_alt intro!: diff_less_mono2)

declare little_ReadUintN_from.simps [simp del]

definition little_ReadUintN :: "byte list \<Rightarrow> byte \<Rightarrow> u64 parsed" where
  "little_ReadUintN b len = little_ReadUintN_from len 0 0 b"

definition little_ReadUint64 :: "byte list \<Rightarrow> u64 parsed" where
  "little_ReadUint64 b =
     rbind (ReadByte b) (\<lambda>b1 b. rbind (ReadByte b) (\<lambda>b2 b.
     rbind (ReadByte b) (\<lambda>b3 b. rbind (ReadByte b) (\<lambda>b4 b.
     rbind (ReadByte b) (\<lambda>b5 b. rbind (ReadByte b) (\<lambda>b6 b.
     rbind (ReadByte b) (\<lambda>b7 b. rbind (ReadByte b) (\<lambda>b8 b.
       Inr (ucast b1 + push_bit 8 (ucast b2) + push_bit 16 (ucast b3) + push_bit 24 (ucast b4)
            + push_bit 32 (ucast b5) + push_bit 40 (ucast b6) + push_bit 48 (ucast b7)
            + push_bit 56 (ucast b8), b)))))))))"

definition little_ReadUint32 :: "byte list \<Rightarrow> u32 parsed" where
  "little_ReadUint32 b =
     rbind (ReadByte b) (\<lambda>b1 b. rbind (ReadByte b) (\<lambda>b2 b.
     rbind (ReadByte b) (\<lambda>b3 b. rbind (ReadByte b) (\<lambda>b4 b.
       Inr (ucast b1 + push_bit 8 (ucast b2) + push_bit 16 (ucast b3) + push_bit 24 (ucast b4),
            b)))))"

definition little_ReadUint16 :: "byte list \<Rightarrow> u16 parsed" where
  "little_ReadUint16 b =
     rbind (ReadByte b) (\<lambda>b1 b. rbind (ReadByte b) (\<lambda>b2 b.
       Inr (ucast b1 + push_bit 8 (ucast b2), b)))"

definition little_WriteUint64 :: "u64 \<Rightarrow> byte list" where
  "little_WriteUint64 i =
     [ucast i, ucast (drop_bit 8 i), ucast (drop_bit 16 i), ucast (drop_bit 24 i),
      ucast (drop_bit 32 i), ucast (drop_bit 40 i), ucast (drop_bit 48 i), ucast (drop_bit 56 i)]"

definition little_WriteUint56 :: "u64 \<Rightarrow> byte list result" where
  "little_WriteUint56 i =
     (if i \<ge> push_bit 56 1 then Inl (GoPanic ''%#x doesn't fit into 56 bits'')
      else Inr [ucast i, ucast (drop_bit 8 i), ucast (drop_bit 16 i), ucast (drop_bit 24 i),
                ucast (drop_bit 32 i), ucast (drop_bit 40 i), ucast (drop_bit 48 i)])"

definition little_WriteUint48 :: "u64 \<Rightarrow> byte list result" where
  "little_WriteUint48 i =
     (if i \<ge> push_bit 48 1 then Inl (GoPanic ''%#x doesn't fit into 48 bits'')
      else Inr [ucast i, ucast (drop_bit 8 i), ucast (drop_bit 16 i), ucast (drop_bit 24 i),
                ucast (drop_bit 32 i), ucast (drop_bit 40 i)])"

definition little_WriteUint40 :: "u64 \<Rightarrow> byte list result" where
  "little_WriteUint40 i =
     (if i \<ge> push_bit 40 1 then Inl (GoPanic ''%#x doesn't fit into 40 bits'')
      else Inr [ucast i, ucast (drop_bit 8 i), ucast (drop_bit 16 i), ucast (drop_bit 24 i),
                ucast (drop_bit 32 i)])"

definition little_WriteUint32 :: "u32 \<Rightarrow> byte list" where
  "little_WriteUint32 i =
     [ucast i, ucast (drop_bit 8 i), ucast (drop_bit 16 i), ucast (drop_bit 24 i)]"

definition little_WriteUint24 :: "u32 \<Rightarrow> byte list result" where
  "little_WriteUint24 i =
     (if i \<ge> push_bit 24 1 then Inl (GoPanic ''%#x doesn't fit into 24 bits'')
      else Inr [ucast i, ucast (drop_bit 8 i), ucast (drop_bit 16 i)])"

definition little_WriteUint16 :: "u16 \<Rightarrow> byte list" where
  "little_WriteUint16 i = [ucast i, ucast (drop_bit 8 i)]"

section \<open>bigEndian\<close>

function big_ReadUintN_from :: "byte \<Rightarrow> byte \<Rightarrow> u64 \<Rightarrow> byte list \<Rightarrow> u64 parsed" where
  "big_ReadUintN_from len i res b =
     (if i < len
      then rbind (ReadByte b) (\<lambda>bt b.
        big_ReadUintN_from len (i + 1)
          (res XOR push_bit (unat ((len - 1 - i) * 8)) (ucast bt)) b)
      else Inr (res, b))"
  by auto

termination big_ReadUintN_from
  by (relation "measure (\<lambda>(len, i, res, b). unat len - unat i)")
    (auto simp: unat_next_less word_less_nat_alt intro!: diff_less_mono2)

declare big_ReadUintN_from.simps [simp del]

definition big_ReadUintN :: "byte list \<Rightarrow> byte \<Rightarrow> u64 parsed" where
  "big_ReadUintN b len = big_ReadUintN_from len 0 0 b"

definition big_ReadUint64 :: "byte list \<Rightarrow> u64 parsed" where
  "big_ReadUint64 b =
     rbind (ReadByte b) (\<lambda>b8 b. rbind (ReadByte b) (\<lambda>b7 b.
     rbind (ReadByte b) (\<lambda>b6 b. rbind (ReadByte b) (\<lambda>b5 b.
     rbind (ReadByte b) (\<lambda>b4 b. rbind (ReadByte b) (\<lambda>b3 b.
     rbind (ReadByte b) (\<lambda>b2 b. rbind (ReadByte b) (\<lambda>b1 b.
       Inr (ucast b1 + push_bit 8 (ucast b2) + push_bit 16 (ucast b3) + push_bit 24 (ucast b4)
            + push_bit 32 (ucast b5) + push_bit 40 (ucast b6) + push_bit 48 (ucast b7)
            + push_bit 56 (ucast b8), b)))))))))"

definition big_ReadUint32 :: "byte list \<Rightarrow> u32 parsed" where
  "big_ReadUint32 b =
     rbind (ReadByte b) (\<lambda>b4 b. rbind (ReadByte b) (\<lambda>b3 b.
     rbind (ReadByte b) (\<lambda>b2 b. rbind (ReadByte b) (\<lambda>b1 b.
       Inr (ucast b1 + push_bit 8 (ucast b2) + push_bit 16 (ucast b3) + push_bit 24 (ucast b4),
            b)))))"

definition big_ReadUint16 :: "byte list \<Rightarrow> u16 parsed" where
  "big_ReadUint16 b =
     rbind (ReadByte b) (\<lambda>b2 b. rbind (ReadByte b) (\<lambda>b1 b.
       Inr (ucast b1 + push_bit 8 (ucast b2), b)))"

definition big_WriteUint64 :: "u64 \<Rightarrow> byte list" where
  "big_WriteUint64 i =
     [ucast (drop_bit 56 i), ucast (drop_bit 48 i), ucast (drop_bit 40 i), ucast (drop_bit 32 i),
      ucast (drop_bit 24 i), ucast (drop_bit 16 i), ucast (drop_bit 8 i), ucast i]"

definition big_WriteUint56 :: "u64 \<Rightarrow> byte list result" where
  "big_WriteUint56 i =
     (if i \<ge> push_bit 56 1 then Inl (GoPanic ''%#x doesn't fit into 56 bits'')
      else Inr [ucast (drop_bit 48 i), ucast (drop_bit 40 i), ucast (drop_bit 32 i),
                ucast (drop_bit 24 i), ucast (drop_bit 16 i), ucast (drop_bit 8 i), ucast i])"

definition big_WriteUint48 :: "u64 \<Rightarrow> byte list result" where
  "big_WriteUint48 i =
     (if i \<ge> push_bit 48 1 then Inl (GoPanic ''%#x doesn't fit into 48 bits'')
      else Inr [ucast (drop_bit 40 i), ucast (drop_bit 32 i),
                ucast (drop_bit 24 i), ucast (drop_bit 16 i), ucast (drop_bit 8 i), ucast i])"

definition big_WriteUint40 :: "u64 \<Rightarrow> byte list result" where
  "big_WriteUint40 i =
     (if i \<ge> push_bit 40 1 then Inl (GoPanic ''%#x doesn't fit into 40 bits'')
      else Inr [ucast (drop_bit 32 i),
                ucast (drop_bit 24 i), ucast (drop_bit 16 i), ucast (drop_bit 8 i), ucast i])"

definition big_WriteUint32 :: "u32 \<Rightarrow> byte list" where
  "big_WriteUint32 i =
     [ucast (drop_bit 24 i), ucast (drop_bit 16 i), ucast (drop_bit 8 i), ucast i]"

definition big_WriteUint24 :: "u32 \<Rightarrow> byte list result" where
  "big_WriteUint24 i =
     (if i \<ge> push_bit 24 1 then Inl (GoPanic ''%#x doesn't fit into 24 bits'')
      else Inr [ucast (drop_bit 16 i), ucast (drop_bit 8 i), ucast i])"

definition big_WriteUint16 :: "u16 \<Rightarrow> byte list" where
  "big_WriteUint16 i = [ucast (drop_bit 8 i), ucast i]"

section \<open>The interface ByteOrder\<close>

datatype ByteOrder = LittleEndian | BigEndian

definition GetByteOrder :: "VersionNumber \<Rightarrow> ByteOrder" where
  "GetByteOrder v = (if v < Version39 then LittleEndian else BigEndian)"

text \<open>A call through the interface goes to the method of the implementation.\<close>

fun ReadUintN :: "ByteOrder \<Rightarrow> byte list \<Rightarrow> byte \<Rightarrow> u64 parsed" where
  "ReadUintN LittleEndian = little_ReadUintN"
| "ReadUintN BigEndian = big_ReadUintN"

fun ReadUint64 :: "ByteOrder \<Rightarrow> byte list \<Rightarrow> u64 parsed" where
  "ReadUint64 LittleEndian = little_ReadUint64"
| "ReadUint64 BigEndian = big_ReadUint64"

fun ReadUint32 :: "ByteOrder \<Rightarrow> byte list \<Rightarrow> u32 parsed" where
  "ReadUint32 LittleEndian = little_ReadUint32"
| "ReadUint32 BigEndian = big_ReadUint32"

fun ReadUint16 :: "ByteOrder \<Rightarrow> byte list \<Rightarrow> u16 parsed" where
  "ReadUint16 LittleEndian = little_ReadUint16"
| "ReadUint16 BigEndian = big_ReadUint16"

fun WriteUint64 :: "ByteOrder \<Rightarrow> u64 \<Rightarrow> byte list" where
  "WriteUint64 LittleEndian = little_WriteUint64"
| "WriteUint64 BigEndian = big_WriteUint64"

fun WriteUint56 :: "ByteOrder \<Rightarrow> u64 \<Rightarrow> byte list result" where
  "WriteUint56 LittleEndian = little_WriteUint56"
| "WriteUint56 BigEndian = big_WriteUint56"

fun WriteUint48 :: "ByteOrder \<Rightarrow> u64 \<Rightarrow> byte list result" where
  "WriteUint48 LittleEndian = little_WriteUint48"
| "WriteUint48 BigEndian = big_WriteUint48"

fun WriteUint40 :: "ByteOrder \<Rightarrow> u64 \<Rightarrow> byte list result" where
  "WriteUint40 LittleEndian = little_WriteUint40"
| "WriteUint40 BigEndian = big_WriteUint40"

fun WriteUint32 :: "ByteOrder \<Rightarrow> u32 \<Rightarrow> byte list" where
  "WriteUint32 LittleEndian = little_WriteUint32"
| "WriteUint32 BigEndian = big_WriteUint32"

fun WriteUint24 :: "ByteOrder \<Rightarrow> u32 \<Rightarrow> byte list result" where
  "WriteUint24 LittleEndian = little_WriteUint24"
| "WriteUint24 BigEndian = big_WriteUint24"

fun WriteUint16 :: "ByteOrder \<Rightarrow> u16 \<Rightarrow> byte list" where
  "WriteUint16 LittleEndian = little_WriteUint16"
| "WriteUint16 BigEndian = big_WriteUint16"

section \<open>The contract of a byte order\<close>

text \<open>
  \<open>enc n x\<close> are the \<open>n\<close> bytes of the number \<open>x\<close> and \<open>dec\<close> is its inverse.  Each
  write appends an encoding, each read decodes the next bytes or reports \<open>io.EOF\<close>.
\<close>

definition reads :: "nat \<Rightarrow> (byte list \<Rightarrow> nat) \<Rightarrow> (byte list \<Rightarrow> ('a::len word) parsed) \<Rightarrow> bool" where
  "reads n dec rd \<longleftrightarrow>
     (\<forall>b. rd b = (if n \<le> length b then Inr (of_nat (dec (take n b)), drop n b) else Inl EOF))"

definition fits :: "nat \<Rightarrow> (nat \<Rightarrow> nat \<Rightarrow> byte list) \<Rightarrow> ('a::len word \<Rightarrow> byte list result) \<Rightarrow> bool" where
  "fits n enc wr \<longleftrightarrow>
     (\<forall>i. if unat i < 256 ^ n then wr i = Inr (enc n (unat i)) else \<exists>m. wr i = Inl (GoPanic m))"

locale byte_order =
  fixes enc :: "nat \<Rightarrow> nat \<Rightarrow> byte list"
    and dec :: "byte list \<Rightarrow> nat"
    and rN :: "byte list \<Rightarrow> byte \<Rightarrow> u64 parsed"
    and r64 :: "byte list \<Rightarrow> u64 parsed"
    and r32 :: "byte list \<Rightarrow> u32 parsed"
    and r16 :: "byte list \<Rightarrow> u16 parsed"
    and w64 :: "u64 \<Rightarrow> byte list"
    and w56 :: "u64 \<Rightarrow> byte list result"
    and w48 :: "u64 \<Rightarrow> byte list result"
    and w40 :: "u64 \<Rightarrow> byte list result"
    and w32 :: "u32 \<Rightarrow> byte list"
    and w24 :: "u32 \<Rightarrow> byte list result"
    and w16 :: "u16 \<Rightarrow> byte list"
  assumes length_enc: "length (enc n x) = n"
    and dec_enc: "dec (enc n x) = x mod 256 ^ n"
    and enc_dec: "length bs = n \<Longrightarrow> enc n (dec bs) = bs"
    and dec_bound: "dec bs < 256 ^ length bs"
    and rN: "unat len \<le> 8 \<Longrightarrow> reads (unat len) dec (\<lambda>b. rN b len)"
    and r64: "reads 8 dec r64"
    and r32: "reads 4 dec r32"
    and r16: "reads 2 dec r16"
    and w64: "w64 i64 = enc 8 (unat i64)"
    and w56: "fits 7 enc w56"
    and w48: "fits 6 enc w48"
    and w40: "fits 5 enc w40"
    and w32: "w32 i32 = enc 4 (unat i32)"
    and w24: "fits 3 enc w24"
    and w16: "w16 i16 = enc 2 (unat i16)"
begin

lemma reads_enc:
  "reads n dec rd \<Longrightarrow> unat x < 256 ^ n \<Longrightarrow> rd (enc n (unat x) @ b) = Inr (x, b)"
  by (simp add: reads_def length_enc dec_enc)

lemma reads_inverse:
  assumes "reads n dec (rd :: byte list \<Rightarrow> ('a::len word) parsed)"
    and "256 ^ n \<le> (2 :: nat) ^ LENGTH('a)" and "rd b = Inr (x, r)"
  shows "b = enc n (unat x) @ r" and "unat x < 256 ^ n"
proof -
  have n: "n \<le> length b" and x: "x = of_nat (dec (take n b))" and r: "r = drop n b"
    using assms(1,3) by (auto simp: reads_def split: if_splits)
  have "dec (take n b) < 256 ^ n" using dec_bound [of "take n b"] n by simp
  with assms(2) have u: "unat x = dec (take n b)" by (simp add: x unat_of_nat)
  show "b = enc n (unat x) @ r" using enc_dec [of "take n b" n] n by (simp add: u r)
  show "unat x < 256 ^ n" using u \<open>dec (take n b) < 256 ^ n\<close> by simp
qed

lemma reads_short: "reads n dec rd \<Longrightarrow> length b < n \<Longrightarrow> rd b = Inl EOF"
  by (simp add: reads_def)

lemma fits_ok: "fits n enc wr \<Longrightarrow> unat i < 256 ^ n \<Longrightarrow> wr i = Inr (enc n (unat i))"
  by (simp add: fits_def)

lemma fits_Inr: "fits n enc wr \<Longrightarrow> wr i = Inr bs \<Longrightarrow> unat i < 256 ^ n \<and> bs = enc n (unat i)"
  by (auto simp: fits_def split: if_splits) (metis Inl_Inr_False Inr_inject)+

lemma r16_w16: "r16 (w16 i @ b) = Inr (i, b)"
  using reads_enc [OF r16, of i b] unsigned_less [of i] by (simp add: w16)

lemma r32_w32: "r32 (w32 i @ b) = Inr (i, b)"
  using reads_enc [OF r32, of i b] unsigned_less [of i] by (simp add: w32)

lemma r64_w64: "r64 (w64 i @ b) = Inr (i, b)"
  using reads_enc [OF r64, of i b] unsigned_less [of i] by (simp add: w64)

lemma rN_enc: "unat len \<le> 8 \<Longrightarrow> unat i < 256 ^ unat len \<Longrightarrow>
    rN (enc (unat len) (unat i) @ b) len = Inr (i, b)"
  using reads_enc [OF rN] by blast

lemma length_writes [simp]:
  "length (w64 i64) = 8" "length (w32 i32) = 4" "length (w16 i16) = 2"
  by (simp_all add: w64 w32 w16 length_enc)

lemma enc_mod: "enc n (x mod 256 ^ n) = enc n x"
  by (metis dec_enc enc_dec length_enc)

lemma enc_inj: "x < 256 ^ n \<Longrightarrow> y < 256 ^ n \<Longrightarrow> enc n x = enc n y \<Longrightarrow> x = y"
  by (metis dec_enc mod_less)

end

section \<open>Both implementations satisfy the contract\<close>

definition be_enc :: "nat \<Rightarrow> nat \<Rightarrow> byte list" where
  "be_enc n x = rev (le_enc n x)"

definition be_val :: "byte list \<Rightarrow> nat" where
  "be_val bs = le_val (rev bs)"

lemma le_enc_Suc_end: "le_enc (Suc n) x = le_enc n x @ [of_nat (x div 256 ^ n mod 256)]"
proof (induction n arbitrary: x)
  case (Suc n)
  have "le_enc (Suc (Suc n)) x = of_nat (x mod 256) # le_enc (Suc n) (x div 256)" by simp
  also have "\<dots> = le_enc (Suc n) x @ [of_nat (x div 256 div 256 ^ n mod 256)]"
    by (simp only: Suc.IH [of "x div 256"] le_enc.simps(2) [of n x] append_Cons)
  finally show ?case by (simp only: div_mult2_eq power_Suc)
qed simp

lemma le_enc_2: "le_enc 2 x = [of_nat (x mod 256), of_nat (x div 2 ^ 8 mod 256)]"
  using le_enc_Suc_end [of 1 x, unfolded Suc_1] by simp

lemma le_enc_unfold:
  "le_enc 3 x = le_enc 2 x @ [of_nat (x div 2 ^ 16 mod 256)]"
  "le_enc 4 x = le_enc 3 x @ [of_nat (x div 2 ^ 24 mod 256)]"
  "le_enc 5 x = le_enc 4 x @ [of_nat (x div 2 ^ 32 mod 256)]"
  "le_enc 6 x = le_enc 5 x @ [of_nat (x div 2 ^ 40 mod 256)]"
  "le_enc 7 x = le_enc 6 x @ [of_nat (x div 2 ^ 48 mod 256)]"
  "le_enc 8 x = le_enc 7 x @ [of_nat (x div 2 ^ 56 mod 256)]"
  using le_enc_Suc_end [of 2 x] le_enc_Suc_end [of 3 x] le_enc_Suc_end [of 4 x]
    le_enc_Suc_end [of 5 x] le_enc_Suc_end [of 6 x] le_enc_Suc_end [of 7 x]
  by simp_all

lemma little_writes:
  "little_WriteUint64 i = le_enc 8 (unat i)"
  "little_WriteUint32 j = le_enc 4 (unat j)"
  "little_WriteUint16 k = le_enc 2 (unat k)"
  unfolding little_WriteUint64_def little_WriteUint32_def little_WriteUint16_def
    byte_ucast unat_drop_bit le_enc_unfold le_enc_2 by simp_all

lemma big_writes:
  "big_WriteUint64 i = be_enc 8 (unat i)"
  "big_WriteUint32 j = be_enc 4 (unat j)"
  "big_WriteUint16 k = be_enc 2 (unat k)"
  unfolding big_WriteUint64_def big_WriteUint32_def big_WriteUint16_def be_enc_def
    byte_ucast unat_drop_bit le_enc_unfold le_enc_2 by simp_all

lemma little_fits:
  "fits 7 le_enc little_WriteUint56" "fits 6 le_enc little_WriteUint48"
  "fits 5 le_enc little_WriteUint40" "fits 3 le_enc little_WriteUint24"
  unfolding fits_def little_WriteUint56_def little_WriteUint48_def little_WriteUint40_def
    little_WriteUint24_def byte_ucast unat_drop_bit le_enc_unfold le_enc_2
  by (simp_all add: word_le_nat_alt)

lemma big_fits:
  "fits 7 be_enc big_WriteUint56" "fits 6 be_enc big_WriteUint48"
  "fits 5 be_enc big_WriteUint40" "fits 3 be_enc big_WriteUint24"
  unfolding fits_def big_WriteUint56_def big_WriteUint48_def big_WriteUint40_def
    big_WriteUint24_def byte_ucast unat_drop_bit be_enc_def le_enc_unfold le_enc_2
  by (simp_all add: word_le_nat_alt)

lemma rbind_ReadByte:
  "rbind (ReadByte b) f = (case b of [] \<Rightarrow> Inl EOF | x # r \<Rightarrow> f x r)"
  by (cases b) simp_all

lemma readsI:
  assumes "\<And>b. length b < n \<Longrightarrow> rd b = Inl EOF"
    and "\<And>bs r. length bs = n \<Longrightarrow> rd (bs @ r) = Inr (of_nat (dec bs), r)"
  shows "reads n dec rd"
  unfolding reads_def
proof
  fix b
  show "rd b = (if n \<le> length b then Inr (of_nat (dec (take n b)), drop n b) else Inl EOF)"
    using assms(1) [of b] assms(2) [of "take n b" "drop n b"] by simp
qed

lemma length_cases:
  "length bs = 2 \<longleftrightarrow> (\<exists>b1 b2. bs = [b1, b2])"
  "length bs = 4 \<longleftrightarrow> (\<exists>b1 b2 b3 b4. bs = [b1, b2, b3, b4])"
  "length bs = 8 \<longleftrightarrow> (\<exists>b1 b2 b3 b4 b5 b6 b7 b8. bs = [b1, b2, b3, b4, b5, b6, b7, b8])"
  by (auto simp: numeral_eq_Suc length_Suc_conv)

lemma little_reads:
  "reads 8 le_val little_ReadUint64" "reads 4 le_val little_ReadUint32"
  "reads 2 le_val little_ReadUint16"
  unfolding little_ReadUint64_def little_ReadUint32_def little_ReadUint16_def
  by (rule readsI; (simp add: rbind_ReadByte split: list.split)?;
      (auto simp: length_cases push_bit_eq_mult)?)+

lemma big_reads:
  "reads 8 be_val big_ReadUint64" "reads 4 be_val big_ReadUint32"
  "reads 2 be_val big_ReadUint16"
  unfolding big_ReadUint64_def big_ReadUint32_def big_ReadUint16_def be_val_def
  by (rule readsI; (simp add: rbind_ReadByte split: list.split)?;
      (auto simp: length_cases push_bit_eq_mult)?)+

lemma xor_push_bit_add:
  fixes a :: "'a::len word"
  assumes "unat a < 2 ^ k"
  shows "a XOR push_bit k c = a + push_bit k c"
proof -
  have "unat (take_bit k a) = unat a"
    using assms by (simp only: unsigned_take_bit_eq) (simp add: take_bit_eq_mod)
  then have a: "take_bit k a = a" by (simp only: word_unat_eq_iff)
  have "take_bit k a AND push_bit k c = 0"
    by (rule bit_word_eqI) (auto simp: bit_simps)
  then show ?thesis using disjunctive_add_eq_xor [of a "push_bit k c"] by (simp only: a)
qed

lemma power_2_8: "(2 :: 'a::comm_semiring_1) ^ (8 * k) = 256 ^ k"
  by (simp add: power_mult)

lemma little_ReadUintN_from_eq:
  assumes "unat len = unat i + n" "unat len \<le> 8" "unat res < 256 ^ unat i"
  shows "little_ReadUintN_from len i res b =
    (if n \<le> length b
     then Inr (res + of_nat (256 ^ unat i * le_val (take n b)), drop n b) else Inl EOF)"
  using assms
proof (induction n arbitrary: i res b)
  case 0
  then show ?case
    by (subst little_ReadUintN_from.simps) (simp add: word_less_nat_alt)
next
  case (Suc n)
  have lt: "i < len" using Suc.prems by (simp add: word_less_nat_alt)
  have i8: "unat (i * 8) = 8 * unat i" using Suc.prems by (simp add: unat_word_ariths)
  show ?case
  proof (cases b)
    case Nil
    then show ?thesis by (subst little_ReadUintN_from.simps) (simp add: lt)
  next
    case (Cons x b')
    let ?res = "res XOR push_bit (unat (i * 8)) (ucast x)"
    have res: "?res = res + of_nat (256 ^ unat i * unat x)"
      using xor_push_bit_add [of res "8 * unat i" "ucast x"] Suc.prems
      by (simp add: i8 power_2_8 push_bit_eq_mult mult.commute [of "ucast x"])
    have x: "unat x < 256" using unsigned_less [of x] by simp
    have "256 ^ Suc (unat i) \<le> (256 :: nat) ^ 8"
      using Suc.prems by (intro power_increasing) auto
    moreover have "unat res + 256 ^ unat i * unat x < 256 ^ Suc (unat i)"
    proof -
      have "256 ^ unat i * Suc (unat x) \<le> 256 ^ unat i * (256 :: nat)"
        using x by (intro mult_le_mono2) simp
      then show ?thesis using Suc.prems(3) unfolding mult_Suc_right power_Suc by linarith
    qed
    ultimately have "unat res + 256 ^ unat i * unat x < 2 ^ 64" by simp
    moreover have "?res = of_nat (unat res + 256 ^ unat i * unat x)" unfolding res by simp
    ultimately have "unat ?res = unat res + 256 ^ unat i * unat x"
      by (simp only: unat_of_nat) simp
    then have "unat ?res < 256 ^ unat (i + 1)"
      using \<open>_ < 256 ^ Suc (unat i)\<close> by (simp add: unat_next_less [OF lt])
    then show ?thesis
      using Suc.IH [of "i + 1" ?res b'] Suc.prems unat_next_less [OF lt]
      by (subst little_ReadUintN_from.simps)
        (simp add: lt Cons res algebra_simps)
  qed
qed

lemma be_val_Cons: "be_val (x # bs) = be_val bs + 256 ^ length bs * unat x"
  by (simp add: be_val_def le_val_append)

lemma xor_high_low:
  fixes c :: nat and x :: byte
  assumes "n < 8"
  shows "(of_nat (256 ^ Suc n * c) :: u64) XOR push_bit (8 * n) (ucast x)
    = of_nat (256 ^ Suc n * c + 256 ^ n * unat x)"
proof -
  let ?a = "push_bit (8 * n) (ucast x) :: u64"
  have a: "?a = of_nat (256 ^ n * unat x)" 
    unfolding push_bit_eq_mult power_2_8 by (simp add: mult.commute)
  have x: "unat x < 256" using unsigned_less [of x] by simp
  have lt: "256 ^ n * unat x < 256 ^ Suc n" using x by simp
  moreover have "256 ^ Suc n \<le> (256 :: nat) ^ 8" using assms by (intro power_increasing) auto
  ultimately have "256 ^ n * unat x < 256 ^ 8" by linarith
  then have "256 ^ n * unat x < 2 ^ 64" by simp
  then have "unat ?a = 256 ^ n * unat x" unfolding a by (simp only: unat_of_nat) simp
  then have u: "unat ?a < 2 ^ (8 * Suc n)" using lt unfolding power_2_8 by linarith
  have h: "(of_nat (256 ^ Suc n * c) :: u64) = push_bit (8 * Suc n) (of_nat c)"
    unfolding push_bit_eq_mult power_2_8 by simp
  show ?thesis
    unfolding h using xor_push_bit_add [OF u, of "of_nat c"]
    by (simp only: h [symmetric] a of_nat_add add.commute xor.commute)
qed

lemma big_ReadUintN_from_eq:
  assumes "unat len = unat i + n" "unat len \<le> 8" "res = of_nat (256 ^ n * c)"
  shows "big_ReadUintN_from len i res b =
    (if n \<le> length b then Inr (res + of_nat (be_val (take n b)), drop n b) else Inl EOF)"
  using assms
proof (induction n arbitrary: i res b c)
  case 0
  then show ?case
    by (subst big_ReadUintN_from.simps) (simp add: word_less_nat_alt be_val_def)
next
  case (Suc n)
  have lt: "i < len" using Suc.prems by (simp add: word_less_nat_alt)
  have "len = of_nat (unat len)" by simp
  also have "\<dots> = i + of_nat (Suc n)" unfolding Suc.prems(1) of_nat_add by simp
  finally have sh: "len - 1 - i = of_nat n" by simp
  have i8: "unat ((len - 1 - i) * 8) = 8 * n"
    using Suc.prems unfolding sh by (simp add: unat_word_ariths unat_of_nat)
  show ?case
  proof (cases b)
    case Nil
    then show ?thesis by (subst big_ReadUintN_from.simps) (simp add: lt)
  next
    case (Cons x b')
    let ?res = "res XOR push_bit (unat ((len - 1 - i) * 8)) (ucast x)"
    have res: "?res = of_nat (256 ^ n * (256 * c + unat x))"
      using xor_high_low [of n c x] Suc.prems unfolding i8 by (simp add: algebra_simps)
    have IH: "big_ReadUintN_from len (i + 1) ?res b' =
        (if n \<le> length b' then Inr (?res + of_nat (be_val (take n b')), drop n b') else Inl EOF)"
      by (rule Suc.IH [OF _ _ res]) (use Suc.prems unat_next_less [OF lt] in simp_all)
    have "?res + of_nat (be_val (take n b')) = res + of_nat (be_val (take (Suc n) b))"
      if "n \<le> length b'"
      unfolding res unfolding Suc.prems(3) Cons take_Suc_Cons be_val_Cons
      using that by (simp add: algebra_simps)
    then show ?thesis
      by (subst big_ReadUintN_from.simps)
        (simp only: lt if_True Cons ReadByte.simps rbind_Inr IH, auto)
  qed
qed

lemma little_readN: "unat len \<le> 8 \<Longrightarrow> reads (unat len) le_val (\<lambda>b. little_ReadUintN b len)"
  using little_ReadUintN_from_eq [of len 0 "unat len" 0]
  by (simp add: reads_def little_ReadUintN_def)

lemma big_readN: "unat len \<le> 8 \<Longrightarrow> reads (unat len) be_val (\<lambda>b. big_ReadUintN b len)"
  using big_ReadUintN_from_eq [of len 0 "unat len" 0 0]
  by (simp add: reads_def big_ReadUintN_def)

interpretation little: byte_order le_enc le_val little_ReadUintN little_ReadUint64
  little_ReadUint32 little_ReadUint16 little_WriteUint64 little_WriteUint56 little_WriteUint48
  little_WriteUint40 little_WriteUint32 little_WriteUint24 little_WriteUint16
  by unfold_locales
    (simp_all add: le_val_le_enc le_enc_le_val le_val_bound little_readN little_reads
      little_writes little_fits)

interpretation big: byte_order be_enc be_val big_ReadUintN big_ReadUint64
  big_ReadUint32 big_ReadUint16 big_WriteUint64 big_WriteUint56 big_WriteUint48
  big_WriteUint40 big_WriteUint32 big_WriteUint24 big_WriteUint16
proof unfold_locales
  show "length (be_enc n x) = n" "be_val (be_enc n x) = x mod 256 ^ n"
    "length bs = n \<Longrightarrow> be_enc n (be_val bs) = bs" "be_val bs < 256 ^ length bs" for n x bs
    using le_val_bound [of "rev bs"]
    by (simp_all add: be_enc_def be_val_def le_val_le_enc le_enc_le_val)
qed (simp_all add: big_readN big_reads big_writes big_fits)

text \<open>The dispatch of the interface satisfies the contract for either value.\<close>

fun bo_enc :: "ByteOrder \<Rightarrow> nat \<Rightarrow> nat \<Rightarrow> byte list" where
  "bo_enc LittleEndian = le_enc"
| "bo_enc BigEndian = be_enc"

fun bo_val :: "ByteOrder \<Rightarrow> byte list \<Rightarrow> nat" where
  "bo_val LittleEndian = le_val"
| "bo_val BigEndian = be_val"

interpretation bo: byte_order "bo_enc bo" "bo_val bo" "ReadUintN bo" "ReadUint64 bo"
  "ReadUint32 bo" "ReadUint16 bo" "WriteUint64 bo" "WriteUint56 bo" "WriteUint48 bo"
  "WriteUint40 bo" "WriteUint32 bo" "WriteUint24 bo" "WriteUint16 bo" for bo
  by (cases bo) (simp_all add: little.byte_order_axioms big.byte_order_axioms)

declare bo.r16_w16 [simp, parse_simps] bo.r32_w32 [simp, parse_simps]
  bo.r64_w64 [simp, parse_simps] bo.length_enc [simp] bo.length_writes [simp]

section \<open>Inversion rules for parsers\<close>

lemma ReadUint16_Inr: "ReadUint16 bo b = Inr (x, r) \<longleftrightarrow> b = WriteUint16 bo x @ r"
  using bo.reads_inverse(1) [OF bo.r16, of bo b x r] by (auto simp: bo.w16 [symmetric])

lemma ReadUint32_Inr: "ReadUint32 bo b = Inr (x, r) \<longleftrightarrow> b = WriteUint32 bo x @ r"
  using bo.reads_inverse(1) [OF bo.r32, of bo b x r] by (auto simp: bo.w32 [symmetric])

lemma ReadUint64_Inr: "ReadUint64 bo b = Inr (x, r) \<longleftrightarrow> b = WriteUint64 bo x @ r"
  using bo.reads_inverse(1) [OF bo.r64, of bo b x r] by (auto simp: bo.w64 [symmetric])

lemma ReadUintN_Inr:
  assumes "unat n \<le> 8"
  shows "ReadUintN bo b n = Inr (x, r) \<longleftrightarrow>
    b = bo_enc bo (unat n) (unat x) @ r \<and> unat x < 256 ^ unat n"
proof -
  have "(256 :: nat) ^ unat n \<le> 256 ^ 8" using assms by (intro power_increasing) auto
  then show ?thesis
    using bo.reads_inverse [OF bo.rN [OF assms], of bo b x r] bo.rN_enc [OF assms, of x bo r]
    by auto
qed

lemma little_ReadUintN_from_progress:
  "little_ReadUintN_from len i res b = Inr (x, r) \<Longrightarrow> length r \<le> length b"
proof (induction len i res b arbitrary: x r rule: little_ReadUintN_from.induct)
  case (1 len i res b)
  then show ?case
    by (subst (asm) (2) little_ReadUintN_from.simps)
      (auto simp: rbind_eq_Inr ReadByte_Inr split: if_splits intro!: le_SucI)
qed

lemma big_ReadUintN_from_progress:
  "big_ReadUintN_from len i res b = Inr (x, r) \<Longrightarrow> length r \<le> length b"
proof (induction len i res b arbitrary: x r rule: big_ReadUintN_from.induct)
  case (1 len i res b)
  then show ?case
    by (subst (asm) (2) big_ReadUintN_from.simps)
      (auto simp: rbind_eq_Inr ReadByte_Inr split: if_splits intro!: le_SucI)
qed

lemma ReadUintN_progress: "ReadUintN bo b n = Inr (x, r) \<Longrightarrow> length r \<le> length b"
  by (cases bo) (auto simp: little_ReadUintN_def big_ReadUintN_def
      dest: little_ReadUintN_from_progress big_ReadUintN_from_progress)

lemma leaves_ReadUintN [leaves_intros]: "length b \<le> n \<Longrightarrow> leaves n (ReadUintN bo b k)"
  by (auto simp: leaves_def dest!: ReadUintN_progress)

lemma leaves_ReadUint [leaves_intros]:
  "length b \<le> n \<Longrightarrow> leaves n (ReadUint16 bo b)" "length b \<le> n \<Longrightarrow> leaves n (ReadUint32 bo b)"
  "length b \<le> n \<Longrightarrow> leaves n (ReadUint64 bo b)"
  by (auto simp: leaves_def ReadUint16_Inr ReadUint32_Inr ReadUint64_Inr)

lemmas read_Inr = rbind_eq_Inr ReadByte_Inr ReadFull_Inr
  ReadUint16_Inr ReadUint32_Inr ReadUint64_Inr

section \<open>Truncated fields\<close>

text \<open>
  Frames and headers write the low bytes of a 64-bit number in a field whose width
  is chosen at run time; each of these writes is the code of that width.
\<close>

lemma write_field_1: "[ucast x] = bo_enc bo 1 (unat x)" for x :: "'a::len word"
  by (cases bo) (simp_all add: be_enc_def byte_ucast)

lemma write_field_2: "WriteUint16 bo (ucast x) = bo_enc bo 2 (unat x)" for x :: "'a::len word"
  using bo.enc_mod [of bo 2 "unat x"] by (simp add: bo.w16 unsigned_ucast_eq take_bit_eq_mod)

lemma write_field_4: "WriteUint32 bo (ucast x) = bo_enc bo 4 (unat x)" for x :: "'a::len word"
  using bo.enc_mod [of bo 4 "unat x"] by (simp add: bo.w32 unsigned_ucast_eq take_bit_eq_mod)

lemma write_field_3:
  "unat x < 256 ^ 3 \<Longrightarrow> WriteUint24 bo (ucast x) = Inr (bo_enc bo 3 (unat x))"
  for x :: "'a::len word"
  using bo.fits_ok [OF bo.w24, of "ucast x" bo] by (simp add: unsigned_ucast_eq take_bit_eq_mod)

lemma write_field_6: "WriteUint48 bo (x AND mask 48) = Inr (bo_enc bo 6 (unat x))"
proof -
  have "unat (x AND mask 48) = unat x mod 2 ^ 48"
    by (simp only: take_bit_eq_mask [symmetric] unsigned_take_bit_eq) (simp add: take_bit_eq_mod)
  then show ?thesis
    using bo.fits_ok [OF bo.w48, of "x AND mask 48" bo] bo.enc_mod [of bo 6 "unat x"] by simp
qed

lemmas write_field_6' = write_field_6 [unfolded mask_eq_exp_minus_1, simplified]

lemmas write_fields = write_field_2 write_field_4 write_field_6 write_field_6'

end
