(* ===== verification/Float16.thy ===== *)
theory Float16
  imports ByteOrder
begin

text \<open>
  The unsigned 16-bit floats of \<open>internal/utils/float16.go\<close>, used for the delay
  field of ACK frames: five bits of exponent, eleven of mantissa and a hidden bit.
  The decoder is an exact inverse on every 16-bit code, and the encoder rounds
  towards zero with a relative error below one part in 2048.
\<close>

definition uFloat16ExponentBits :: nat where "uFloat16ExponentBits = 5"
definition uFloat16MaxExponent :: nat where
  "uFloat16MaxExponent = 2 ^ uFloat16ExponentBits - 2"
definition uFloat16MantissaBits :: nat where
  "uFloat16MantissaBits = 16 - uFloat16ExponentBits"
definition uFloat16MantissaEffectiveBits :: nat where
  "uFloat16MantissaEffectiveBits = uFloat16MantissaBits + 1"
definition uFloat16MaxValue :: u64 where
  "uFloat16MaxValue = push_bit uFloat16MaxExponent (push_bit uFloat16MantissaEffectiveBits 1 - 1)"

lemmas float16_consts =
  uFloat16ExponentBits_def uFloat16MaxExponent_def uFloat16MantissaBits_def
  uFloat16MantissaEffectiveBits_def

definition decodeUfloat16 :: "u16 \<Rightarrow> u64" where
  "decodeUfloat16 val =
     (let res = ucast val :: u64 in
      if res < push_bit uFloat16MantissaEffectiveBits 1 then res
      else
        let exponent = drop_bit uFloat16MantissaBits val - 1;
            res = res - push_bit uFloat16MantissaBits (ucast exponent)
        in push_bit (unat exponent) res)"

definition readUfloat16 :: "byte list \<Rightarrow> ByteOrder \<Rightarrow> u64 parsed" where
  "readUfloat16 b byteOrder =
     rbind (ReadUint16 byteOrder b) (\<lambda>val b. Inr (decodeUfloat16 val, b))"

function shiftUfloat16 :: "u16 \<Rightarrow> u16 \<Rightarrow> u64 \<Rightarrow> u16 \<times> u64" where
  "shiftUfloat16 offset exponent value =
     (if offset > 0
      then if value \<ge> push_bit (uFloat16MantissaBits + unat offset) 1
        then shiftUfloat16 (offset div 2) (exponent + offset) (drop_bit (unat offset) value)
        else shiftUfloat16 (offset div 2) exponent value
      else (exponent, value))"
  by auto

termination shiftUfloat16
  by (relation "measure (\<lambda>(offset, _, _). unat offset)")
    (auto simp: unat_div word_less_nat_alt)

declare shiftUfloat16.simps [simp del]

definition encodeUfloat16 :: "u64 \<Rightarrow> u16" where
  "encodeUfloat16 value =
     (if value < push_bit uFloat16MantissaEffectiveBits 1 then ucast value
      else if value \<ge> uFloat16MaxValue then - 1
      else let (exponent, value) = shiftUfloat16 16 0 value
           in ucast value + push_bit uFloat16MantissaBits exponent)"

definition writeUfloat16 :: "ByteOrder \<Rightarrow> u64 \<Rightarrow> byte list" where
  "writeUfloat16 byteOrder value = WriteUint16 byteOrder (encodeUfloat16 value)"

definition little_ReadUfloat16 :: "byte list \<Rightarrow> u64 parsed" where
  "little_ReadUfloat16 b = readUfloat16 b LittleEndian"

definition little_WriteUfloat16 :: "u64 \<Rightarrow> byte list" where
  "little_WriteUfloat16 val = writeUfloat16 LittleEndian val"

definition big_ReadUfloat16 :: "byte list \<Rightarrow> u64 parsed" where
  "big_ReadUfloat16 b = readUfloat16 b BigEndian"

definition big_WriteUfloat16 :: "u64 \<Rightarrow> byte list" where
  "big_WriteUfloat16 val = writeUfloat16 BigEndian val"

fun ReadUfloat16 :: "ByteOrder \<Rightarrow> byte list \<Rightarrow> u64 parsed" where
  "ReadUfloat16 LittleEndian = little_ReadUfloat16"
| "ReadUfloat16 BigEndian = big_ReadUfloat16"

fun WriteUfloat16 :: "ByteOrder \<Rightarrow> u64 \<Rightarrow> byte list" where
  "WriteUfloat16 LittleEndian = little_WriteUfloat16"
| "WriteUfloat16 BigEndian = big_WriteUfloat16"

lemma Ufloat16_dispatch:
  "ReadUfloat16 bo b = readUfloat16 b bo" "WriteUfloat16 bo v = writeUfloat16 bo v"
  by (cases bo; simp add: little_ReadUfloat16_def big_ReadUfloat16_def
      little_WriteUfloat16_def big_WriteUfloat16_def)+

section \<open>The shift loop\<close>

lemma unat_power_2: "k < 64 \<Longrightarrow> unat (2 ^ k :: u64) = 2 ^ k"
proof -
  assume "k < 64"
  then have "(2 :: nat) ^ k < 2 ^ 64" by (intro power_strict_increasing) auto
  moreover have "(2 ^ k :: u64) = of_nat (2 ^ k)" by simp
  ultimately show ?thesis by (simp only: unat_of_nat) simp
qed

lemma shift_step:
  assumes "0 < unat off" "unat off \<le> 16" "unat e + unat off < 2 ^ 16"
    and "2 ^ 11 \<le> unat v" "unat v < 2 ^ (11 + 2 * unat off)"
  obtains d e' v' where "shiftUfloat16 off e v = shiftUfloat16 (off div 2) e' v'"
    "unat e' = unat e + d" "d \<le> unat off" "unat v' = unat v div 2 ^ d"
    "2 ^ 11 \<le> unat v'" "unat v' < 2 ^ (11 + unat off)"
proof (cases "2 ^ (11 + unat off) \<le> unat v")
  case True
  have "shiftUfloat16 off e v = shiftUfloat16 (off div 2) (e + off) (drop_bit (unat off) v)"
    by (subst shiftUfloat16.simps)
      (use assms True in \<open>simp add: word_less_nat_alt word_le_nat_alt unat_power_2
        uFloat16MantissaBits_def uFloat16ExponentBits_def\<close>)
  moreover have "unat (e + off) = unat e + unat off"
    using assms(3) by (simp add: unat_word_ariths)
  moreover have "2 ^ 11 \<le> unat v div 2 ^ unat off"
    using True by (simp add: power_add less_eq_div_iff_mult_less_eq)
  moreover have "unat v div 2 ^ unat off < 2 ^ (11 + unat off)"
  proof (rule less_mult_imp_div_less)
    have "11 + 2 * unat off = 11 + unat off + unat off" by simp
    then show "unat v < 2 ^ (11 + unat off) * 2 ^ unat off"
      using assms(5) by (simp only: power_add)
  qed
  ultimately show ?thesis by (intro that) (auto simp: unat_drop_bit)
next
  case False
  have "shiftUfloat16 off e v = shiftUfloat16 (off div 2) e v"
    by (subst shiftUfloat16.simps)
      (use assms False in \<open>simp add: word_less_nat_alt word_le_nat_alt unat_power_2
        uFloat16MantissaBits_def uFloat16ExponentBits_def\<close>)
  then show ?thesis using assms False by (intro that [of e v 0]) auto
qed

lemma shift_loop:
  assumes "unat off = 2 ^ k" "k \<le> 4" "unat e + 2 * 2 ^ k < 2 ^ 16"
    and "2 ^ 11 \<le> unat v" "unat v < 2 ^ (11 + 2 * 2 ^ k)"
  shows "\<exists>d e' v'. shiftUfloat16 off e v = (e', v') \<and> unat e' = unat e + d
    \<and> unat v' = unat v div 2 ^ d \<and> 2 ^ 11 \<le> unat v' \<and> unat v' < 2 ^ 12"
  using assms
proof (induction k arbitrary: off e v)
  case 0
  have 1: "unat off = 1" using 0 by simp
  obtain d e' v' where s: "shiftUfloat16 off e v = shiftUfloat16 (off div 2) e' v'"
    and *: "unat e' = unat e + d" "unat v' = unat v div 2 ^ d"
      "2 ^ 11 \<le> unat v'" "unat v' < 2 ^ (11 + unat off)"
    by (rule shift_step [of off e v]) (use 0 in \<open>simp_all add: 1\<close>)
  have "unat (off div 2) = 0" using 0 by (simp add: unat_div)
  then have "off div 2 = 0" by (simp only: unat_eq_zero)
  then have "shiftUfloat16 off e v = (e', v')"
    unfolding s by (subst shiftUfloat16.simps) simp
  then show ?case using * 1 by (intro exI [of _ d]) simp
next
  case (Suc k)
  have k: "(2 :: nat) ^ Suc k \<le> 2 ^ 4" using Suc.prems by (intro power_increasing) auto
  obtain d e' v' where s: "shiftUfloat16 off e v = shiftUfloat16 (off div 2) e' v'"
    and *: "unat e' = unat e + d" "d \<le> unat off" "unat v' = unat v div 2 ^ d"
      "2 ^ 11 \<le> unat v'" "unat v' < 2 ^ (11 + unat off)"
    by (rule shift_step [of off e v]) (use Suc.prems k in simp_all)
  have "unat (off div 2) = 2 ^ k" using Suc.prems by (simp add: unat_div)
  then obtain d' e'' v'' where "shiftUfloat16 (off div 2) e' v' = (e'', v'')"
    "unat e'' = unat e' + d'" "unat v'' = unat v' div 2 ^ d'"
    "2 ^ 11 \<le> unat v''" "unat v'' < 2 ^ 12"
    using Suc.IH [of "off div 2" e' v'] Suc.prems * by fastforce
  then show ?case using s * by (intro exI [of _ "d + d'"]) (auto simp: power_add div_mult2_eq)
qed

section \<open>Codes\<close>

lemma unat_uFloat16MaxValue: "unat uFloat16MaxValue = (2 ^ 12 - 1) * 2 ^ 30"
  by (simp add: uFloat16MaxValue_def float16_consts)

lemma encode_small: "unat v < 2 ^ 12 \<Longrightarrow> unat (encodeUfloat16 v) = unat v"
  by (simp add: encodeUfloat16_def float16_consts word_less_nat_alt unsigned_ucast_eq
      take_bit_eq_mod)

lemma encode_large: "unat uFloat16MaxValue \<le> unat v \<Longrightarrow> encodeUfloat16 v = - 1"
  by (simp add: encodeUfloat16_def float16_consts word_less_nat_alt word_le_nat_alt
      unat_uFloat16MaxValue)

lemma encode_normal:
  assumes "2 ^ 12 \<le> unat v" "unat v < unat uFloat16MaxValue"
  obtains d where "1 \<le> d" "d \<le> 30" "2 ^ 11 \<le> unat v div 2 ^ d" "unat v div 2 ^ d < 2 ^ 12"
    "unat (encodeUfloat16 v) = unat v div 2 ^ d + d * 2 ^ 11"
proof -
  obtain d e' v' where sh: "shiftUfloat16 16 0 v = (e', v')" "unat e' = d"
      "unat v' = unat v div 2 ^ d" "2 ^ 11 \<le> unat v'" "unat v' < 2 ^ 12"
    using shift_loop [of 16 4 0 v] assms by (auto simp: unat_uFloat16MaxValue)
  have d1: "1 \<le> d" using sh(3,5) assms(1) by (cases d) auto
  have "unat v' * 2 ^ d \<le> unat v" using sh(3) by simp
  then have "2 ^ 11 * 2 ^ d \<le> unat v"
    using sh(4) by (meson le_trans mult_le_mono1)
  then have "2 ^ d < (2 :: nat) ^ 31"
    using assms(2) by (simp add: unat_uFloat16MaxValue)
  then have d30: "d \<le> 30" by (simp only: power_strict_increasing_iff)
  have "unat (ucast v' + push_bit uFloat16MantissaBits e' :: u16) = unat v' + d * 2 ^ 11"
    using sh d30
    by (simp add: unat_word_ariths float16_consts push_bit_eq_mult unsigned_ucast_eq take_bit_eq_mod)
  then have "unat (encodeUfloat16 v) = unat v' + d * 2 ^ 11"
    using assms by (simp add: encodeUfloat16_def float16_consts word_less_nat_alt
        word_le_nat_alt sh(1))
  then show ?thesis using that [of d] sh d1 d30 by simp
qed

lemma decode_small: "unat h < 2 ^ 12 \<Longrightarrow> unat (decodeUfloat16 h) = unat h"
  by (simp add: decodeUfloat16_def float16_consts word_less_nat_alt unsigned_ucast_eq
      take_bit_eq_mod)

lemma decode_normal:
  assumes "1 \<le> e" "e \<le> 30" "2 ^ 11 \<le> m" "m < 2 ^ 12" "unat h = m + e * 2 ^ 11"
  shows "unat (decodeUfloat16 h) = m * 2 ^ e"
proof -
  have big: "unat (ucast h :: u64) = m + e * 2 ^ 11"
    using assms by (simp add: unsigned_ucast_eq take_bit_eq_mod)
  have "unat (drop_bit 11 h) = Suc e"
    using assms by (simp only: unat_drop_bit) auto
  then have ex: "unat (drop_bit 11 h - 1) = e" by (simp add: unat_sub_if_size)
  have pe: "unat (push_bit 11 (ucast (drop_bit 11 h - 1)) :: u64) = e * 2 ^ 11"
    using assms(2) by (simp add: push_bit_eq_mult unat_word_ariths unsigned_ucast_eq
        take_bit_eq_mod ex)
  let ?r = "ucast h - push_bit 11 (ucast (drop_bit 11 h - 1)) :: u64"
  have r: "unat ?r = m" using big pe by (simp add: unat_sub_if_size)
  have "(2 :: nat) ^ e \<le> 2 ^ 30" using assms(2) by (intro power_increasing) auto
  then have "m * 2 ^ e \<le> 2 ^ 12 * 2 ^ 30" using assms(4) by (intro mult_le_mono) auto
  then have "m * 2 ^ e < 2 ^ 64" by simp
  moreover have "push_bit e ?r = of_nat (m * 2 ^ e)"
    using arg_cong [OF r, of "of_nat :: nat \<Rightarrow> u64"] by (simp add: push_bit_eq_mult)
  ultimately have "unat (push_bit e ?r) = m * 2 ^ e" by (simp only: unat_of_nat) simp
  moreover have "\<not> (ucast h :: u64) < 2 ^ 12"
    using assms big by (simp add: word_less_nat_alt)
  ultimately show ?thesis
    by (simp add: decodeUfloat16_def float16_consts Let_def ex)
qed

lemma unat_MaxUint16: "unat (- 1 :: u16) = 2 ^ 16 - 1"
  by (simp add: unsigned_minus_1_eq_mask mask_eq_exp_minus_1)

lemma decode_encode:
  shows decode_encode_small: "unat v < 2 ^ 12 \<Longrightarrow> decodeUfloat16 (encodeUfloat16 v) = v"
    and decode_encode_large: "unat uFloat16MaxValue \<le> unat v \<Longrightarrow>
      decodeUfloat16 (encodeUfloat16 v) = uFloat16MaxValue"
proof -
  show "unat v < 2 ^ 12 \<Longrightarrow> decodeUfloat16 (encodeUfloat16 v) = v"
    by (simp add: word_unat_eq_iff decode_small encode_small)
  have "unat (- 1 :: u16) = (2 ^ 12 - 1) + 30 * 2 ^ 11"
    by (simp add: unat_MaxUint16)
  then have "unat (decodeUfloat16 (- 1)) = (2 ^ 12 - 1) * 2 ^ 30"
    by (intro decode_normal) simp_all
  then show "unat uFloat16MaxValue \<le> unat v \<Longrightarrow>
      decodeUfloat16 (encodeUfloat16 v) = uFloat16MaxValue"
    by (simp add: encode_large word_unat_eq_iff unat_uFloat16MaxValue)
qed

lemma decode_encode_normal:
  assumes "2 ^ 12 \<le> unat v" "unat v < unat uFloat16MaxValue"
  shows "decodeUfloat16 (encodeUfloat16 v) \<le> v"
    and "unat v < unat (decodeUfloat16 (encodeUfloat16 v)) + unat v div 2 ^ 11"
proof -
  obtain d where d: "1 \<le> d" "d \<le> 30" "2 ^ 11 \<le> unat v div 2 ^ d" "unat v div 2 ^ d < 2 ^ 12"
    "unat (encodeUfloat16 v) = unat v div 2 ^ d + d * 2 ^ 11"
    using encode_normal [OF assms] .
  have dec: "unat (decodeUfloat16 (encodeUfloat16 v)) = unat v div 2 ^ d * 2 ^ d"
    using decode_normal [OF d(1-5)] .
  then show "decodeUfloat16 (encodeUfloat16 v) \<le> v" by (simp add: word_le_nat_alt)
  have "2 ^ d * 2 ^ 11 \<le> unat v div 2 ^ d * 2 ^ d" using d(3) by simp
  also have "\<dots> \<le> unat v" by simp
  finally have "2 ^ d \<le> unat v div 2 ^ 11"
    by (simp add: less_eq_div_iff_mult_less_eq)
  moreover have "unat v mod 2 ^ d < 2 ^ d" by simp
  ultimately show "unat v < unat (decodeUfloat16 (encodeUfloat16 v)) + unat v div 2 ^ 11"
    unfolding dec using div_mult_mod_eq [of "unat v" "2 ^ d"] by linarith
qed

lemma shift_unique:
  fixes m :: nat
  assumes "2 ^ 11 \<le> m" "m < 2 ^ 12"
    and "2 ^ 11 \<le> m * 2 ^ e div 2 ^ d" "m * 2 ^ e div 2 ^ d < 2 ^ 12"
  shows "d = e"
proof (rule linorder_cases [of d e])
  assume "d < e"
  then obtain k where k: "e = d + Suc k" using less_imp_Suc_add by auto
  then have "m * 2 ^ e div 2 ^ d = m * 2 ^ Suc k" by (simp add: power_add mult.assoc [symmetric])
  moreover have "2 ^ 11 * 2 \<le> m * 2 ^ Suc k" using assms(1) by (intro mult_le_mono) auto
  ultimately show ?thesis using assms(4) by simp
next
  assume "e < d"
  then obtain k where k: "d = e + Suc k" using less_imp_Suc_add by auto
  then have "m * 2 ^ e div 2 ^ d = m div 2 ^ Suc k"
    by (simp add: power_add div_mult2_eq mult.commute [of m] flip: div_mult2_eq)
  moreover have "m div 2 ^ Suc k \<le> m div 2" by (simp add: div_mult2_eq)
  ultimately show ?thesis using assms(2,3) by simp
qed

lemma encode_decode: "encodeUfloat16 (decodeUfloat16 h) = h"
proof (cases "unat h < 2 ^ 12")
  case True
  then show ?thesis by (simp add: word_unat_eq_iff encode_small decode_small)
next
  case False
  define e m where "e = unat h div 2 ^ 11 - 1" and "m = 2 ^ 11 + unat h mod 2 ^ 11"
  have hi: "unat h < 2 ^ 16" using unsigned_less [of h] by simp
  have e: "1 \<le> e" "e \<le> 30" and m: "2 ^ 11 \<le> m" "m < 2 ^ 12"
    using False hi by (auto simp: e_def m_def)
  have h: "unat h = m + e * 2 ^ 11"
    using False by (simp add: e_def m_def algebra_simps)
  note dec = decode_normal [OF e m h]
  have lo: "2 ^ 12 \<le> m * 2 ^ e"
  proof -
    have "2 ^ 11 * 2 ^ 1 \<le> m * 2 ^ e" using e m by (intro mult_le_mono power_increasing) auto
    then show ?thesis by simp
  qed
  show ?thesis
  proof (cases "unat (decodeUfloat16 h) < unat uFloat16MaxValue")
    case True
    obtain d where d: "2 ^ 11 \<le> m * 2 ^ e div 2 ^ d" "m * 2 ^ e div 2 ^ d < 2 ^ 12"
      "unat (encodeUfloat16 (decodeUfloat16 h)) = m * 2 ^ e div 2 ^ d + d * 2 ^ 11"
      using encode_normal [of "decodeUfloat16 h"] lo True unfolding dec by metis
    with shift_unique [OF m d(1,2)] h show ?thesis by (simp add: word_unat_eq_iff)
  next
    case False
    then have ge: "(2 ^ 12 - 1) * 2 ^ 30 \<le> m * 2 ^ e" by (simp add: dec unat_uFloat16MaxValue)
    have "e = 30"
    proof (rule ccontr)
      assume "e \<noteq> 30"
      then have "(2 :: nat) ^ e \<le> 2 ^ 29" using e by (intro power_increasing) auto
      then have "m * 2 ^ e \<le> 2 ^ 12 * 2 ^ 29" using m by (intro mult_le_mono) auto
      then show False using ge by simp
    qed
    then have "unat h = 2 ^ 16 - 1" using ge m h by simp
    then have "h = - 1" by (simp add: word_unat_eq_iff unat_MaxUint16)
    then show ?thesis using False by (simp add: encode_large)
  qed
qed

section \<open>Properties\<close>

text \<open>
  C29: The delay code loses less than one part in 2048.  In either byte order, reading
  back what \<open>WriteUfloat16\<close> wrote for a value consumes exactly the bytes written and
  gives the value itself below 4096, the largest representable value when the value is
  out of range, and otherwise a value that is not larger and is off by less than a
  2048th of it.
\<close>

theorem Ufloat16_rounds_down:
  "\<exists>v'. ReadUfloat16 bo (WriteUfloat16 bo v @ b) = Inr (v', b) \<and> v' \<le> v \<and>
     (unat v < 2 ^ 12 \<longrightarrow> v' = v) \<and>
     (uFloat16MaxValue \<le> v \<longrightarrow> v' = uFloat16MaxValue) \<and>
     (2 ^ 12 \<le> unat v \<and> v < uFloat16MaxValue \<longrightarrow> unat v - unat v' < unat v div 2 ^ 11)"
proof -
  have rd: "ReadUfloat16 bo (WriteUfloat16 bo v @ b) = Inr (decodeUfloat16 (encodeUfloat16 v), b)"
    by (simp add: Ufloat16_dispatch readUfloat16_def writeUfloat16_def)
  show ?thesis
  proof (cases "unat v < 2 ^ 12")
    case True
    then have "\<not> uFloat16MaxValue \<le> v" by (simp add: word_le_nat_alt unat_uFloat16MaxValue)
    with True show ?thesis using rd decode_encode_small [OF True] by simp
  next
    case ge: False
    show ?thesis
    proof (cases "uFloat16MaxValue \<le> v")
      case True
      then show ?thesis using rd ge decode_encode_large [of v]
        by (auto simp: word_le_nat_alt word_less_nat_alt)
    next
      case False
      then have lt: "unat v < unat uFloat16MaxValue" by (simp add: word_le_nat_alt)
      show ?thesis
        using rd ge False decode_encode_normal [of v, OF _ lt] by (auto simp: not_less)
    qed
  qed
qed

theorem Ufloat16_rounds_down_witness:
  "\<exists>v'. ReadUfloat16 BigEndian (WriteUfloat16 BigEndian 12345 @ [7]) = Inr (v', [7]) \<and>
     v' \<le> 12345 \<and> 12345 - unat v' < 6"
  using Ufloat16_rounds_down [of BigEndian 12345 "[7]"]
  by (auto simp: uFloat16MaxValue_def float16_consts)

text \<open>
  C32: Every 16-bit code is the code of the value it decodes to.  If
  \<open>ReadUfloat16\<close> reads a value, then writing that value gives the bytes that were read.
\<close>

theorem Ufloat16_code_unique:
  assumes "ReadUfloat16 bo b = Inr (v, r)"
  shows "b = WriteUfloat16 bo v @ r"
proof -
  obtain h where h: "ReadUint16 bo b = Inr (h, r)" "v = decodeUfloat16 h"
    using assms by (auto simp: Ufloat16_dispatch readUfloat16_def rbind_eq_Inr)
  have "b = WriteUint16 bo h @ r"
    using bo.reads_inverse(1) [OF bo.r16 _ h(1)] by (simp add: bo.w16)
  then show ?thesis
    by (simp add: Ufloat16_dispatch writeUfloat16_def h(2) encode_decode)
qed

theorem Ufloat16_code_unique_witness:
  "ReadUfloat16 LittleEndian [0x34, 0x92, 1] = Inr (342360064, [1]) \<and>
   [0x34, 0x92, 1] = WriteUfloat16 LittleEndian 342360064 @ [1]"
proof -
  have "ReadUfloat16 LittleEndian [0x34, 0x92, 1] = Inr (342360064, [1])" by code_simp
  then show ?thesis using Ufloat16_code_unique by blast
qed

text \<open>The rewrite and progress rules for parsers with a 16-bit float field.\<close>

lemma ReadUfloat16_written [simp]:
  "ReadUfloat16 bo (WriteUfloat16 bo d @ r) = Inr (decodeUfloat16 (encodeUfloat16 d), r)"
  by (simp add: Ufloat16_dispatch readUfloat16_def writeUfloat16_def)

lemma leaves_ReadUfloat16 [leaves_intros]: "length b \<le> n \<Longrightarrow> leaves n (ReadUfloat16 bo b)"
  unfolding Ufloat16_dispatch readUfloat16_def by (intro leaves_intros)

end
