(* ===== verification/Qerr.thy ===== *)
theory Qerr
  imports Prelude
begin

text \<open>
  Package \<open>qerr\<close>: the error codes that the modelled components return, the
  conversion of any error to a \<open>QuicError\<close>, and the time-out test.  A
  \<open>*QuicError\<close> is the constructor \<open>QuicError\<close> of \<open>go_error\<close>, or
  \<open>QuicErrorOf\<close> when its message is the text of another error.
\<close>

abbreviation (input) InternalError :: u32 where "InternalError \<equiv> 1"
abbreviation (input) StreamDataAfterTermination :: u32 where "StreamDataAfterTermination \<equiv> 2"
abbreviation (input) InvalidPacketHeader :: u32 where "InvalidPacketHeader \<equiv> 3"
abbreviation (input) InvalidFrameData :: u32 where "InvalidFrameData \<equiv> 4"
abbreviation (input) MissingPayload :: u32 where "MissingPayload \<equiv> 48"
abbreviation (input) InvalidStreamData :: u32 where "InvalidStreamData \<equiv> 46"
abbreviation (input) UnencryptedStreamData :: u32 where "UnencryptedStreamData \<equiv> 61"
abbreviation (input) InvalidRstStreamData :: u32 where "InvalidRstStreamData \<equiv> 6"
abbreviation (input) InvalidConnectionCloseData :: u32 where "InvalidConnectionCloseData \<equiv> 7"
abbreviation (input) InvalidGoawayData :: u32 where "InvalidGoawayData \<equiv> 8"
abbreviation (input) InvalidWindowUpdateData :: u32 where "InvalidWindowUpdateData \<equiv> 57"
abbreviation (input) InvalidBlockedData :: u32 where "InvalidBlockedData \<equiv> 58"
abbreviation (input) InvalidStopWaitingData :: u32 where "InvalidStopWaitingData \<equiv> 60"
abbreviation (input) InvalidAckData :: u32 where "InvalidAckData \<equiv> 9"
abbreviation (input) InvalidVersionNegotiationPacket :: u32 where "InvalidVersionNegotiationPacket \<equiv> 10"
abbreviation (input) DecryptionFailure :: u32 where "DecryptionFailure \<equiv> 12"
abbreviation (input) InvalidStreamID :: u32 where "InvalidStreamID \<equiv> 17"
abbreviation (input) TooManyOpenStreams :: u32 where "TooManyOpenStreams \<equiv> 18"
abbreviation (input) InvalidVersion :: u32 where "InvalidVersion \<equiv> 20"
abbreviation (input) NetworkIdleTimeout :: u32 where "NetworkIdleTimeout \<equiv> 25"
abbreviation (input) HandshakeTimeout :: u32 where "HandshakeTimeout \<equiv> 67"
abbreviation (input) EmptyStreamFrameNoFin :: u32 where "EmptyStreamFrameNoFin \<equiv> 50"
abbreviation (input) FlowControlReceivedTooMuchData :: u32 where "FlowControlReceivedTooMuchData \<equiv> 59"
abbreviation (input) TooManyOutstandingReceivedPackets :: u32 where "TooManyOutstandingReceivedPackets \<equiv> 69"
abbreviation (input) TooManyOutstandingSentPackets :: u32 where "TooManyOutstandingSentPackets \<equiv> 68"
abbreviation (input) TimeoutsWithOpenStreams :: u32 where "TimeoutsWithOpenStreams \<equiv> 74"
abbreviation (input) CryptoTooManyEntries :: u32 where "CryptoTooManyEntries \<equiv> 30"
abbreviation (input) CryptoInvalidValueLength :: u32 where "CryptoInvalidValueLength \<equiv> 31"
abbreviation (input) InvalidCryptoMessageType :: u32 where "InvalidCryptoMessageType \<equiv> 33"
abbreviation (input) InvalidCryptoMessageParameter :: u32 where "InvalidCryptoMessageParameter \<equiv> 34"
abbreviation (input) CryptoMessageParameterNotFound :: u32 where "CryptoMessageParameterNotFound \<equiv> 35"

fun ToQuicError :: "go_error \<Rightarrow> go_error" where
  "ToQuicError (QuicError c m) = QuicError c m"
| "ToQuicError (QuicErrorOf c e) = QuicErrorOf c e"
| "ToQuicError (ErrorCode c) = QuicError c []"
| "ToQuicError (GoPanic m) = GoPanic m"
| "ToQuicError err = QuicErrorOf InternalError err"

definition Timeout :: "u32 \<Rightarrow> bool" where
  "Timeout code \<longleftrightarrow>
     code = NetworkIdleTimeout \<or> code = HandshakeTimeout \<or> code = TimeoutsWithOpenStreams"

lemma ToQuicError_idem [simp]: "ToQuicError (ToQuicError e) = ToQuicError e"
  by (cases e) auto

end
