(* ===== verification/Frames.thy ===== *)
theory Frames
  imports Float16 Qerr
begin

text \<open>
  The control frames of \<open>internal/wire\<close> with a fixed layout: RST_STREAM,
  BLOCKED, WINDOW_UPDATE, PING, GOAWAY, CONNECTION_CLOSE and STOP_WAITING.

  For a frame type \<open>F\<close>, \<open>F_Write f version\<close> are the bytes the method
  \<open>Write\<close> appends to the buffer, or the error it returns; \<open>F_MinLength\<close> is
  \<open>MinLength\<close>; \<open>ParseF r version\<close> parses a frame from the unread bytes \<open>r\<close>.
  Go strings are byte lists.  The locale \<open>frame_codec\<close> is the interface
  \<open>Frame\<close> together with what its users rely on: a written frame parses back to
  what the receiver is meant to see, its length is the announced one, and parsing
  consumes input.
\<close>

section \<open>The contract of a frame type\<close>

locale frame_codec =
  fixes wr :: "'f \<Rightarrow> VersionNumber \<Rightarrow> byte list result"
    and len :: "'f \<Rightarrow> VersionNumber \<Rightarrow> ByteCount result"
    and ps :: "byte list \<Rightarrow> VersionNumber \<Rightarrow> 'f parsed"
    and ok :: "'f \<Rightarrow> VersionNumber \<Rightarrow> bool"
    and seen :: "'f \<Rightarrow> 'f"
    and tag :: "byte \<Rightarrow> bool"
  assumes written: "ok f v \<Longrightarrow> \<exists>t bs. wr f v = Inr (t # bs) \<and> tag t \<and>
      len f v = Inr (of_nat (length (t # bs)))"
    and parse_written: "ok f v \<Longrightarrow> wr f v = Inr bs \<Longrightarrow> ps (bs @ r) v = Inr (seen f, r)"
    and progress: "ps b v = Inr (f, r) \<Longrightarrow> length r < length b"
begin

lemma write_total: "ok f v \<Longrightarrow> \<exists>bs. wr f v = Inr bs \<and> ps bs v = Inr (seen f, [])"
  using written [of f v] parse_written [of f v _ "[]"] by auto

text \<open>Encodings are prefix-free, so a frame is determined by where it starts.\<close>

lemma prefix_free:
  assumes "ok f v" "ok g v" "wr f v = Inr bs" "wr g v = Inr cs" "bs @ r = cs @ r'"
  shows "seen f = seen g" and "r = r'" and "bs = cs"
proof -
  have "ps (bs @ r) v = Inr (seen f, r)" "ps (bs @ r) v = Inr (seen g, r')"
    using parse_written [OF assms(1,3), of r] parse_written [OF assms(2,4), of r'] assms(5)
    by simp_all
  then show "seen f = seen g" and "r = r'" by simp_all
  then show "bs = cs" using assms(5) by simp
qed

end

section \<open>RST_STREAM\<close>

record RstStreamFrame =
  rst_StreamID :: StreamID
  rst_ErrorCode :: u32
  rst_ByteOffset :: ByteCount

definition RstStreamFrame_Write :: "RstStreamFrame \<Rightarrow> VersionNumber \<Rightarrow> byte list result" where
  "RstStreamFrame_Write f version =
     Inr ([0x01]
       @ WriteUint32 (GetByteOrder version) (rst_StreamID f)
       @ WriteUint64 (GetByteOrder version) (rst_ByteOffset f)
       @ WriteUint32 (GetByteOrder version) (rst_ErrorCode f))"

definition RstStreamFrame_MinLength :: "RstStreamFrame \<Rightarrow> VersionNumber \<Rightarrow> ByteCount result" where
  "RstStreamFrame_MinLength f version = Inr (1 + 4 + 8 + 4)"

definition ParseRstStreamFrame :: "byte list \<Rightarrow> VersionNumber \<Rightarrow> RstStreamFrame parsed" where
  "ParseRstStreamFrame r version =
     rbind (ReadByte r) (\<lambda>_ r.
     rbind (ReadUint32 (GetByteOrder version) r) (\<lambda>sid r.
     rbind (ReadUint64 (GetByteOrder version) r) (\<lambda>byteOffset r.
     rbind (ReadUint32 (GetByteOrder version) r) (\<lambda>errorCode r.
       Inr (\<lparr>rst_StreamID = sid, rst_ErrorCode = errorCode, rst_ByteOffset = byteOffset\<rparr>, r)))))"

lemma RstStreamFrame_eta [simp]: "\<lparr>rst_StreamID = rst_StreamID f, rst_ErrorCode = rst_ErrorCode f,
    rst_ByteOffset = rst_ByteOffset f\<rparr> = f"
  by (cases f) simp

lemmas RstStreamFrame_defs =
  RstStreamFrame_Write_def RstStreamFrame_MinLength_def ParseRstStreamFrame_def

interpretation rst: frame_codec RstStreamFrame_Write RstStreamFrame_MinLength
  ParseRstStreamFrame "\<lambda>f v. True" "\<lambda>f. f" "\<lambda>t. t = 0x01"
  by unfold_locales
    ((auto simp: RstStreamFrame_defs)[2], auto simp: RstStreamFrame_defs read_Inr)

section \<open>BLOCKED\<close>

record BlockedFrame =
  blocked_StreamID :: StreamID

definition BlockedFrame_Write :: "BlockedFrame \<Rightarrow> VersionNumber \<Rightarrow> byte list result" where
  "BlockedFrame_Write f version =
     Inr ([0x05] @ WriteUint32 (GetByteOrder version) (blocked_StreamID f))"

definition BlockedFrame_MinLength :: "BlockedFrame \<Rightarrow> VersionNumber \<Rightarrow> ByteCount result" where
  "BlockedFrame_MinLength f version = Inr (1 + 4)"

definition ParseBlockedFrame :: "byte list \<Rightarrow> VersionNumber \<Rightarrow> BlockedFrame parsed" where
  "ParseBlockedFrame r version =
     rbind (ReadByte r) (\<lambda>_ r.
     rbind (ReadUint32 (GetByteOrder version) r) (\<lambda>sid r.
       Inr (\<lparr>blocked_StreamID = sid\<rparr>, r)))"

lemma BlockedFrame_eta [simp]: "\<lparr>blocked_StreamID = blocked_StreamID f\<rparr> = f"
  by (cases f) simp

lemmas BlockedFrame_defs =
  BlockedFrame_Write_def BlockedFrame_MinLength_def ParseBlockedFrame_def

interpretation blocked: frame_codec BlockedFrame_Write BlockedFrame_MinLength
  ParseBlockedFrame "\<lambda>f v. True" "\<lambda>f. f" "\<lambda>t. t = 0x05"
  by unfold_locales
    ((auto simp: BlockedFrame_defs)[2], auto simp: BlockedFrame_defs read_Inr)

section \<open>WINDOW_UPDATE\<close>

record WindowUpdateFrame =
  wu_StreamID :: StreamID
  wu_ByteOffset :: ByteCount

definition WindowUpdateFrame_Write :: "WindowUpdateFrame \<Rightarrow> VersionNumber \<Rightarrow> byte list result" where
  "WindowUpdateFrame_Write f version =
     Inr ([0x04]
       @ WriteUint32 (GetByteOrder version) (wu_StreamID f)
       @ WriteUint64 (GetByteOrder version) (wu_ByteOffset f))"

definition WindowUpdateFrame_MinLength :: "WindowUpdateFrame \<Rightarrow> VersionNumber \<Rightarrow> ByteCount result" where
  "WindowUpdateFrame_MinLength f version = Inr (1 + 4 + 8)"

definition ParseWindowUpdateFrame :: "byte list \<Rightarrow> VersionNumber \<Rightarrow> WindowUpdateFrame parsed" where
  "ParseWindowUpdateFrame r version =
     rbind (ReadByte r) (\<lambda>_ r.
     rbind (ReadUint32 (GetByteOrder version) r) (\<lambda>sid r.
     rbind (ReadUint64 (GetByteOrder version) r) (\<lambda>byteOffset r.
       Inr (\<lparr>wu_StreamID = sid, wu_ByteOffset = byteOffset\<rparr>, r))))"

lemma WindowUpdateFrame_eta [simp]: "\<lparr>wu_StreamID = wu_StreamID f, wu_ByteOffset = wu_ByteOffset f\<rparr> = f"
  by (cases f) simp

lemmas WindowUpdateFrame_defs =
  WindowUpdateFrame_Write_def WindowUpdateFrame_MinLength_def ParseWindowUpdateFrame_def

interpretation wu: frame_codec WindowUpdateFrame_Write WindowUpdateFrame_MinLength
  ParseWindowUpdateFrame "\<lambda>f v. True" "\<lambda>f. f" "\<lambda>t. t = 0x04"
  by unfold_locales
    ((auto simp: WindowUpdateFrame_defs)[2], auto simp: WindowUpdateFrame_defs read_Inr)

section \<open>PING\<close>

datatype PingFrame = PingFrame

definition PingFrame_Write :: "PingFrame \<Rightarrow> VersionNumber \<Rightarrow> byte list result" where
  "PingFrame_Write f version = Inr [0x07]"

definition PingFrame_MinLength :: "PingFrame \<Rightarrow> VersionNumber \<Rightarrow> ByteCount result" where
  "PingFrame_MinLength f version = Inr 1"

definition ParsePingFrame :: "byte list \<Rightarrow> VersionNumber \<Rightarrow> PingFrame parsed" where
  "ParsePingFrame r version = rbind (ReadByte r) (\<lambda>_ r. Inr (PingFrame, r))"

lemmas PingFrame_defs = PingFrame_Write_def PingFrame_MinLength_def ParsePingFrame_def

lemma PingFrame_eq [simp]: "PingFrame = f \<longleftrightarrow> True" by (cases f) simp

interpretation ping: frame_codec PingFrame_Write PingFrame_MinLength
  ParsePingFrame "\<lambda>f v. True" "\<lambda>f. f" "\<lambda>t. t = 0x07"
  by unfold_locales
    ((auto simp: PingFrame_defs)[2], auto simp: PingFrame_defs read_Inr)

section \<open>GOAWAY\<close>

record GoawayFrame =
  goaway_ErrorCode :: u32
  goaway_LastGoodStream :: StreamID
  goaway_ReasonPhrase :: "byte list"

definition ParseGoawayFrame :: "byte list \<Rightarrow> VersionNumber \<Rightarrow> GoawayFrame parsed" where
  "ParseGoawayFrame r version =
     rbind (ReadByte r) (\<lambda>_ r.
     rbind (ReadUint32 (GetByteOrder version) r) (\<lambda>errorCode r.
     rbind (ReadUint32 (GetByteOrder version) r) (\<lambda>lastGoodStream r.
     rbind (ReadUint16 (GetByteOrder version) r) (\<lambda>reasonPhraseLen r.
       if reasonPhraseLen > ucast MaxPacketSize
       then Inl (QuicError InvalidGoawayData ''reason phrase too long'')
       else rbind (ReadFull (unat reasonPhraseLen) r) (\<lambda>reasonPhrase r.
         Inr (\<lparr>goaway_ErrorCode = errorCode, goaway_LastGoodStream = lastGoodStream,
               goaway_ReasonPhrase = reasonPhrase\<rparr>, r))))))"

definition GoawayFrame_Write :: "GoawayFrame \<Rightarrow> VersionNumber \<Rightarrow> byte list result" where
  "GoawayFrame_Write f version =
     Inr ([0x03]
       @ WriteUint32 (GetByteOrder version) (goaway_ErrorCode f)
       @ WriteUint32 (GetByteOrder version) (goaway_LastGoodStream f)
       @ WriteUint16 (GetByteOrder version) (of_nat (length (goaway_ReasonPhrase f)))
       @ goaway_ReasonPhrase f)"

definition GoawayFrame_MinLength :: "GoawayFrame \<Rightarrow> VersionNumber \<Rightarrow> ByteCount result" where
  "GoawayFrame_MinLength f version =
     Inr (of_nat (1 + 4 + 4 + 2 + length (goaway_ReasonPhrase f)))"

lemma GoawayFrame_eta [simp]: "\<lparr>goaway_ErrorCode = goaway_ErrorCode f, goaway_LastGoodStream = goaway_LastGoodStream f,
    goaway_ReasonPhrase = goaway_ReasonPhrase f\<rparr> = f"
  by (cases f) simp

lemmas GoawayFrame_defs =
  GoawayFrame_Write_def GoawayFrame_MinLength_def ParseGoawayFrame_def

text \<open>A phrase is accepted by the receiver when it is no longer than a packet.\<close>

definition phrase_ok :: "byte list \<Rightarrow> bool" where
  "phrase_ok p \<longleftrightarrow> length p \<le> unat MaxPacketSize"

lemma unat_MaxPacketSize: "unat MaxPacketSize = 1350"
  by (simp add: MaxPacketSize_def)

lemma phrase_ok_length:
  assumes "phrase_ok p"
  shows "unat (of_nat (length p) :: u16) = length p"
    and "\<not> ucast MaxPacketSize < (of_nat (length p) :: u16)"
  using assms by (simp_all add: phrase_ok_def MaxPacketSize_def unat_of_nat word_less_nat_alt)

lemma phrase_ok_u16: "phrase_ok p \<Longrightarrow> \<not> 2 ^ 16 - 1 < length p"
  by (simp add: phrase_ok_def unat_MaxPacketSize)

interpretation goaway: frame_codec GoawayFrame_Write GoawayFrame_MinLength
  ParseGoawayFrame "\<lambda>f v. phrase_ok (goaway_ReasonPhrase f)" "\<lambda>f. f" "\<lambda>t. t = 0x03"
  by unfold_locales
    ((auto simp: GoawayFrame_defs phrase_ok_length)[2], auto simp: GoawayFrame_defs read_Inr split: if_splits)

section \<open>CONNECTION_CLOSE\<close>

record ConnectionCloseFrame =
  cc_ErrorCode :: u32
  cc_ReasonPhrase :: "byte list"

definition ParseConnectionCloseFrame :: "byte list \<Rightarrow> VersionNumber \<Rightarrow> ConnectionCloseFrame parsed" where
  "ParseConnectionCloseFrame r version =
     rbind (ReadByte r) (\<lambda>_ r.
     rbind (ReadUint32 (GetByteOrder version) r) (\<lambda>errorCode r.
     rbind (ReadUint16 (GetByteOrder version) r) (\<lambda>reasonPhraseLen r.
       if reasonPhraseLen > ucast MaxPacketSize
       then Inl (QuicError InvalidConnectionCloseData ''reason phrase too long'')
       else rbind (ReadFull (unat reasonPhraseLen) r) (\<lambda>reasonPhrase r.
         Inr (\<lparr>cc_ErrorCode = errorCode, cc_ReasonPhrase = reasonPhrase\<rparr>, r)))))"

definition ConnectionCloseFrame_MinLength ::
  "ConnectionCloseFrame \<Rightarrow> VersionNumber \<Rightarrow> ByteCount result" where
  "ConnectionCloseFrame_MinLength f version = Inr (1 + 4 + 2 + of_nat (length (cc_ReasonPhrase f)))"

definition ConnectionCloseFrame_Write ::
  "ConnectionCloseFrame \<Rightarrow> VersionNumber \<Rightarrow> byte list result" where
  "ConnectionCloseFrame_Write f version =
     (if length (cc_ReasonPhrase f) > 2 ^ 16 - 1
      then Inl (GoError ''ConnectionFrame: ReasonPhrase too long'')
      else Inr ([0x02]
       @ WriteUint32 (GetByteOrder version) (cc_ErrorCode f)
       @ WriteUint16 (GetByteOrder version) (of_nat (length (cc_ReasonPhrase f)))
       @ cc_ReasonPhrase f))"

lemma ConnectionCloseFrame_eta [simp]: "\<lparr>cc_ErrorCode = cc_ErrorCode f, cc_ReasonPhrase = cc_ReasonPhrase f\<rparr> = f"
  by (cases f) simp

lemmas ConnectionCloseFrame_defs =
  ConnectionCloseFrame_Write_def ConnectionCloseFrame_MinLength_def ParseConnectionCloseFrame_def

interpretation cc: frame_codec ConnectionCloseFrame_Write ConnectionCloseFrame_MinLength
  ParseConnectionCloseFrame "\<lambda>f v. phrase_ok (cc_ReasonPhrase f)" "\<lambda>f. f" "\<lambda>t. t = 0x02"
  by unfold_locales
    ((auto simp: ConnectionCloseFrame_defs phrase_ok_length dest: phrase_ok_u16
        split: if_splits)[2],
      auto simp: ConnectionCloseFrame_defs read_Inr split: if_splits)

section \<open>STOP_WAITING\<close>

record StopWaitingFrame =
  sw_LeastUnacked :: PacketNumber
  sw_PacketNumberLen :: PacketNumberLen
  sw_PacketNumber :: PacketNumber

abbreviation (input) errLeastUnackedHigherThanPacketNumber :: go_error where
  "errLeastUnackedHigherThanPacketNumber \<equiv>
     GoError ''StopWaitingFrame: LeastUnacked can't be greater than the packet number''"
abbreviation (input) errPacketNumberNotSet :: go_error where
  "errPacketNumberNotSet \<equiv> GoError ''StopWaitingFrame: PacketNumber not set''"
abbreviation (input) errPacketNumberLenNotSet :: go_error where
  "errPacketNumberLenNotSet \<equiv> GoError ''StopWaitingFrame: PacketNumberLen not set''"

definition StopWaitingFrame_Write :: "StopWaitingFrame \<Rightarrow> VersionNumber \<Rightarrow> byte list result" where
  "StopWaitingFrame_Write f version =
     (if sw_PacketNumber f = 0 then Inl errPacketNumberNotSet
      else if sw_LeastUnacked f > sw_PacketNumber f
      then Inl errLeastUnackedHigherThanPacketNumber
      else
        let leastUnackedDelta = sw_PacketNumber f - sw_LeastUnacked f;
            len = sw_PacketNumberLen f
        in if len = PacketNumberLen1 then Inr ([0x06] @ [ucast leastUnackedDelta])
           else if len = PacketNumberLen2
           then Inr ([0x06] @ WriteUint16 (GetByteOrder version) (ucast leastUnackedDelta))
           else if len = PacketNumberLen4
           then Inr ([0x06] @ WriteUint32 (GetByteOrder version) (ucast leastUnackedDelta))
           else if len = PacketNumberLen6
           then wbind (WriteUint48 (GetByteOrder version) (leastUnackedDelta AND mask 48))
                  (\<lambda>bs. Inr ([0x06] @ bs))
           else Inl errPacketNumberLenNotSet)"

definition StopWaitingFrame_MinLength :: "StopWaitingFrame \<Rightarrow> VersionNumber \<Rightarrow> ByteCount result" where
  "StopWaitingFrame_MinLength f version =
     (let minLength = 1 in
      if sw_PacketNumberLen f = PacketNumberLenInvalid then Inl errPacketNumberLenNotSet
      else Inr (minLength + ucast (sw_PacketNumberLen f)))"

definition ParseStopWaitingFrame ::
  "byte list \<Rightarrow> PacketNumber \<Rightarrow> PacketNumberLen \<Rightarrow> VersionNumber \<Rightarrow> StopWaitingFrame parsed" where
  "ParseStopWaitingFrame r packetNumber packetNumberLen version =
     rbind (ReadByte r) (\<lambda>_ r.
     rbind (ReadUintN (GetByteOrder version) r packetNumberLen) (\<lambda>leastUnackedDelta r.
       if leastUnackedDelta \<ge> packetNumber
       then Inl (QuicError InvalidStopWaitingData ''invalid LeastUnackedDelta'')
       else Inr (\<lparr>sw_LeastUnacked = packetNumber - leastUnackedDelta, sw_PacketNumberLen = 0,
                  sw_PacketNumber = 0\<rparr>, r)))"

lemmas StopWaitingFrame_defs =
  StopWaitingFrame_Write_def StopWaitingFrame_MinLength_def ParseStopWaitingFrame_def

definition valid_PacketNumberLen :: "PacketNumberLen \<Rightarrow> bool" where
  "valid_PacketNumberLen n \<longleftrightarrow>
     n = PacketNumberLen1 \<or> n = PacketNumberLen2 \<or> n = PacketNumberLen4 \<or> n = PacketNumberLen6"

text \<open>
  A STOP_WAITING frame is sent inside packet \<open>pn\<close> with packet number length \<open>n\<close>; the
  receiver knows both from the public header and recovers \<open>LeastUnacked\<close> from the
  difference, if that fits the length.
\<close>

definition StopWaitingFrame_ok ::
  "PacketNumber \<Rightarrow> PacketNumberLen \<Rightarrow> StopWaitingFrame \<Rightarrow> VersionNumber \<Rightarrow> bool" where
  "StopWaitingFrame_ok pn n f version \<longleftrightarrow>
     sw_PacketNumber f = pn \<and> sw_PacketNumberLen f = n \<and> valid_PacketNumberLen n \<and>
     0 < sw_LeastUnacked f \<and> sw_LeastUnacked f \<le> pn \<and>
     unat (pn - sw_LeastUnacked f) < 256 ^ unat n"

definition StopWaitingFrame_seen :: "StopWaitingFrame \<Rightarrow> StopWaitingFrame" where
  "StopWaitingFrame_seen f = f\<lparr>sw_PacketNumberLen := 0, sw_PacketNumber := 0\<rparr>"

lemma StopWaitingFrame_Write_ok:
  assumes "StopWaitingFrame_ok pn n f v"
  shows "StopWaitingFrame_Write f v =
    Inr (0x06 # bo_enc (GetByteOrder v) (unat n) (unat (pn - sw_LeastUnacked f)))"
proof -
  have nz: "sw_PacketNumber f \<noteq> 0" "\<not> sw_LeastUnacked f > sw_PacketNumber f"
    using assms by (auto simp: StopWaitingFrame_ok_def)
  have n: "n \<in> {1, 2, 4, 6}" and f: "sw_PacketNumber f = pn" "sw_PacketNumberLen f = n"
    using assms by (auto simp: StopWaitingFrame_ok_def valid_PacketNumberLen_def
        packet_number_len_defs)
  show ?thesis
    using n nz write_field_1 [of "pn - sw_LeastUnacked f" "GetByteOrder v"]
    by (auto simp: StopWaitingFrame_Write_def Let_def packet_number_len_defs write_fields f)
qed

lemma StopWaitingFrame_delta:
  assumes "StopWaitingFrame_ok pn n f v"
  shows "\<not> pn \<le> pn - sw_LeastUnacked f"
  using assms by (auto simp: StopWaitingFrame_ok_def word_le_nat_alt unat_sub_if_size word_less_nat_alt)

interpretation sw: frame_codec StopWaitingFrame_Write StopWaitingFrame_MinLength
  "\<lambda>r v. ParseStopWaitingFrame r pn n v" "StopWaitingFrame_ok pn n" StopWaitingFrame_seen
  "\<lambda>t. t = 0x06" for pn n
proof
  fix f v assume ok: "StopWaitingFrame_ok pn n f v"
  have n: "n \<in> {1, 2, 4, 6}" "sw_PacketNumberLen f = n"
    using ok by (auto simp: StopWaitingFrame_ok_def valid_PacketNumberLen_def
        packet_number_len_defs)
  show "\<exists>t bs. StopWaitingFrame_Write f v = Inr (t # bs) \<and> t = 0x06 \<and>
      StopWaitingFrame_MinLength f v = Inr (of_nat (length (t # bs)))"
    using n by (auto simp: StopWaitingFrame_Write_ok [OF ok] StopWaitingFrame_MinLength_def
        packet_number_len_defs)
  fix bs r assume w: "StopWaitingFrame_Write f v = Inr bs"
  have "unat n \<le> 8" using n by auto
  then show "ParseStopWaitingFrame (bs @ r) pn n v = Inr (StopWaitingFrame_seen f, r)"
    using ok w StopWaitingFrame_Write_ok [OF ok] StopWaitingFrame_delta [OF ok]
    by (auto simp: ParseStopWaitingFrame_def bo.rN_enc StopWaitingFrame_ok_def
        StopWaitingFrame_seen_def)
next
  fix b v f r assume "ParseStopWaitingFrame b pn n v = Inr (f, r)"
  then show "length r < length b"
    by (auto simp: ParseStopWaitingFrame_def rbind_eq_Inr ReadByte_Inr split: if_splits
        dest!: ReadUintN_progress)
qed

end
