(* ===== verification/AckRanges.thy ===== *)
theory AckRanges
  imports Frames
begin

text \<open>
  The ACK-range lists that ACK frames and CLOSE_PATH frames have in common:
  \<open>ack_frame.go\<close> and \<open>close_path_frame.go\<close> contain the same range code twice, and
  \<open>ack_range.go\<close> the type.  The ranges of a frame are in descending order.  On the
  wire a range is one block, a gap byte and a length, or several blocks when the gap
  to the range above is longer than 255 packets: all blocks but the last have gap
  \<open>0xFF\<close> and length \<open>0\<close>.

  The first section translates the code, on the fields \<open>LargestAcked\<close>,
  \<open>LowestAcked\<close> and \<open>AckRanges\<close>; the others show that the block list of a range is
  decoded to that range, which ranges are written when not all fit, and that a list
  accepted from the wire is a strictly descending list of disjoint intervals.
\<close>

section \<open>Range lists\<close>

record AckRange =
  First :: PacketNumber
  Last :: PacketNumber

definition hasMissingRanges :: "AckRange list \<Rightarrow> bool" where
  "hasMissingRanges ackRanges \<longleftrightarrow> length ackRanges > 0"

fun consistentRanges :: "AckRange list \<Rightarrow> bool" where
  "consistentRanges (lastAckRange # ackRange # rs) \<longleftrightarrow>
     \<not> First lastAckRange \<le> First ackRange \<and> \<not> First lastAckRange \<le> Last ackRange + 1 \<and>
     consistentRanges (ackRange # rs)"
| "consistentRanges rs \<longleftrightarrow> True"

definition validateRanges :: "PacketNumber \<Rightarrow> AckRange list \<Rightarrow> bool" where
  "validateRanges largestAcked ackRanges \<longleftrightarrow>
     (if length ackRanges = 0 then True
      else if length ackRanges = 1 then False
      else if Last (hd ackRanges) \<noteq> largestAcked then False
      else if list_ex (\<lambda>r. First r > Last r) ackRanges then False
      else consistentRanges ackRanges)"

definition rangeGap :: "AckRange \<Rightarrow> AckRange \<Rightarrow> PacketNumber" where
  "rangeGap lastAckRange ackRange = First lastAckRange - Last ackRange - 1"

definition rangeLength :: "AckRange \<Rightarrow> PacketNumber" where
  "rangeLength ackRange = Last ackRange - First ackRange + 1"

text \<open>The number of blocks a gap takes, as computed in \<open>Write\<close> and in
  \<open>numWritableNackRanges\<close>.\<close>

definition gapBlocks :: "u64 \<Rightarrow> u64" where
  "gapBlocks gap = (let num = gap div 0xFF + 1 in if gap mod 0xFF = 0 then num - 1 else num)"

fun numWritable_from :: "AckRange \<Rightarrow> AckRange list \<Rightarrow> u64 \<Rightarrow> u64" where
  "numWritable_from lastAckRange [] numRanges = numRanges"
| "numWritable_from lastAckRange (ackRange # rs) numRanges =
     (let n = gapBlocks (rangeGap lastAckRange ackRange)
      in if numRanges + n < 0xFF then numWritable_from ackRange rs (numRanges + n)
         else numRanges)"

fun numWritableRanges :: "AckRange list \<Rightarrow> u64" where
  "numWritableRanges [] = 0"
| "numWritableRanges (r # rs) = numWritable_from r rs 0 + 1"

definition maxRangeLength ::
  "PacketNumber \<Rightarrow> PacketNumber \<Rightarrow> AckRange list \<Rightarrow> PacketNumber" where
  "maxRangeLength largestAcked lowestAcked ackRanges =
     (if hasMissingRanges ackRanges
      then fold (\<lambda>ackRange m. if rangeLength ackRange > m then rangeLength ackRange else m) ackRanges 0
      else largestAcked - lowestAcked + 1)"

definition missingDeltaLen ::
  "PacketNumber \<Rightarrow> PacketNumber \<Rightarrow> AckRange list \<Rightarrow> PacketNumberLen" where
  "missingDeltaLen largestAcked lowestAcked ackRanges =
     (let m = maxRangeLength largestAcked lowestAcked ackRanges
      in if m \<le> 0xFF then PacketNumberLen1
         else if m \<le> 0xFFFF then PacketNumberLen2
         else if m \<le> 0xFFFFFFFF then PacketNumberLen4
         else PacketNumberLen6)"

definition acksPacket ::
  "PacketNumber \<Rightarrow> PacketNumber \<Rightarrow> AckRange list \<Rightarrow> PacketNumber \<Rightarrow> bool" where
  "acksPacket largestAcked lowestAcked ackRanges p =
     (if p < lowestAcked \<or> p > largestAcked then False
      else if hasMissingRanges ackRanges
      then list_ex (\<lambda>ackRange. p \<ge> First ackRange \<and> p \<le> Last ackRange) ackRanges
      else p \<ge> lowestAcked \<and> p \<le> largestAcked)"

section \<open>Writing\<close>

text \<open>
  A field of one of the four lengths; \<open>w48\<close> is the way the caller writes six bytes,
  with or without masking the number first.
\<close>

definition writeField ::
  "ByteOrder \<Rightarrow> (u64 \<Rightarrow> byte list result) \<Rightarrow> PacketNumberLen \<Rightarrow> u64 \<Rightarrow> byte list result" where
  "writeField bo w48 len x =
     (if len = PacketNumberLen1 then Inr [ucast x]
      else if len = PacketNumberLen2 then Inr (WriteUint16 bo (ucast x))
      else if len = PacketNumberLen4 then Inr (WriteUint32 bo (ucast x))
      else if len = PacketNumberLen6 then w48 x
      else Inr [])"

fun writeLongGap :: "(u64 \<Rightarrow> byte list result) \<Rightarrow> nat \<Rightarrow> u64 \<Rightarrow> u64 \<Rightarrow> byte list result" where
  "writeLongGap w 0 gap len = Inr []"
| "writeLongGap w (Suc m) gap len =
     (let (lengthWritten, gapWritten) =
        (if m = 0 then (len, ucast (1 + (gap - 1) mod 255)) else (0, 0xFF))
      in wbind (w lengthWritten) (\<lambda>l.
         wbind (writeLongGap w m gap len) (\<lambda>bs. Inr (gapWritten # l @ bs))))"

definition writeRange :: "(u64 \<Rightarrow> byte list result) \<Rightarrow> AckRange \<Rightarrow> AckRange \<Rightarrow> byte list result" where
  "writeRange w lastAckRange ackRange =
     (let len = rangeLength ackRange;
          gap = rangeGap lastAckRange ackRange;
          num = gapBlocks gap
      in if num = 1 then wbind (w len) (\<lambda>l. Inr (ucast gap # l))
         else writeLongGap w (unat num) gap len)"

fun writeRanges ::
  "(u64 \<Rightarrow> byte list result) \<Rightarrow> u64 \<Rightarrow> AckRange \<Rightarrow> AckRange list \<Rightarrow> u64 \<Rightarrow> (byte list \<times> u64) result" where
  "writeRanges w numRanges lastAckRange [] written = Inr ([], written)"
| "writeRanges w numRanges lastAckRange (ackRange # rs) written =
     wbind (writeRange w lastAckRange ackRange) (\<lambda>bs.
       let written = written + gapBlocks (rangeGap lastAckRange ackRange)
       in if written \<ge> numRanges then Inr (bs, written)
          else wbind (writeRanges w numRanges ackRange rs written) (\<lambda>(bs', written).
            Inr (bs @ bs', written)))"

section \<open>Parsing\<close>

record blocks_state =
  bs_ranges :: "AckRange list"   \<comment> \<open>the last range first\<close>
  bs_inLongBlock :: bool
  bs_lastRangeComplete :: bool

definition ackBlock :: "byte \<Rightarrow> u64 \<Rightarrow> blocks_state \<Rightarrow> blocks_state" where
  "ackBlock gap len s =
     (let last = hd (bs_ranges s);
          s = (if bs_inLongBlock s
               then s\<lparr>bs_ranges := last\<lparr>First := First last - (ucast gap + len),
                                       Last := Last last - ucast gap\<rparr> # tl (bs_ranges s)\<rparr>
               else let l = First last - ucast gap - 1
                    in s\<lparr>bs_lastRangeComplete := False,
                         bs_ranges := \<lparr>First = l - len + 1, Last = l\<rparr> # bs_ranges s\<rparr>);
          s = (if len > 0 then s\<lparr>bs_lastRangeComplete := True\<rparr> else s)
      in s\<lparr>bs_inLongBlock := (len = 0)\<rparr>)"

fun parseBlocks ::
  "ByteOrder \<Rightarrow> PacketNumberLen \<Rightarrow> nat \<Rightarrow> blocks_state \<Rightarrow> byte list \<Rightarrow> blocks_state parsed" where
  "parseBlocks bo deltaLen 0 s r = Inr (s, r)"
| "parseBlocks bo deltaLen (Suc n) s r =
     rbind (ReadByte r) (\<lambda>gap r.
     rbind (ReadUintN bo r deltaLen) (\<lambda>ackBlockLength r.
       parseBlocks bo deltaLen n (ackBlock gap ackBlockLength s) r))"

text \<open>The ranges and \<open>LowestAcked\<close> of a frame with missing ranges, from the first
  block length.\<close>

definition parseRanges ::
  "ByteOrder \<Rightarrow> PacketNumberLen \<Rightarrow> byte \<Rightarrow> PacketNumber \<Rightarrow> u64 \<Rightarrow> byte list
   \<Rightarrow> (AckRange list \<times> PacketNumber) parsed" where
  "parseRanges bo deltaLen numAckBlocks largestAcked ackBlockLength r =
     rbind (parseBlocks bo deltaLen (unat numAckBlocks)
         \<lparr>bs_ranges = [\<lparr>First = (largestAcked - ackBlockLength) + 1, Last = largestAcked\<rparr>],
          bs_inLongBlock = False, bs_lastRangeComplete = False\<rparr> r) (\<lambda>s r.
       let ranges = (if \<not> bs_lastRangeComplete s then tl (bs_ranges s) else bs_ranges s)
       in Inr ((rev ranges, First (hd ranges)), r))"

abbreviation (input) ErrInvalidAckRanges :: go_error where
  "ErrInvalidAckRanges \<equiv> GoError ''AckFrame: ACK frame contains invalid ACK ranges''"
abbreviation (input) ErrInvalidFirstAckRange :: go_error where
  "ErrInvalidFirstAckRange \<equiv> GoError ''AckFrame: ACK frame has invalid first ACK range''"
abbreviation (input) errInconsistentAckLargestAcked :: go_error where
  "errInconsistentAckLargestAcked \<equiv>
     GoError ''internal inconsistency: LargestAcked does not match ACK ranges''"
abbreviation (input) errInconsistentAckLowestAcked :: go_error where
  "errInconsistentAckLowestAcked \<equiv>
     GoError ''internal inconsistency: LowestAcked does not match ACK ranges''"

text \<open>
  The common part of the two parsers, from the first block length to the validation,
  and of the two writers, from the first block length to the check of the number of
  blocks; \<open>bug\<close> is the message of that check.
\<close>

definition parseAckBlocks ::
  "ByteOrder \<Rightarrow> bool \<Rightarrow> PacketNumberLen \<Rightarrow> byte \<Rightarrow> PacketNumber \<Rightarrow> byte list
   \<Rightarrow> (AckRange list \<times> PacketNumber) parsed" where
  "parseAckBlocks bo hasMissing deltaLen numAckBlocks largestAcked r =
     rbind (ReadUintN bo r deltaLen) (\<lambda>ackBlockLength r.
       if largestAcked > 0 \<and> ackBlockLength < 1 then Inl ErrInvalidFirstAckRange
       else if ackBlockLength > largestAcked then Inl ErrInvalidAckRanges
       else rbind
         (if hasMissing then parseRanges bo deltaLen numAckBlocks largestAcked ackBlockLength r
          else Inr (([], if largestAcked = 0 then 0 else largestAcked + 1 - ackBlockLength), r))
         (\<lambda>(ackRanges, lowestAcked) r.
           if \<not> validateRanges largestAcked ackRanges then Inl ErrInvalidAckRanges
           else Inr ((ackRanges, lowestAcked), r)))"

definition writeAckBlocks ::
  "string \<Rightarrow> (u64 \<Rightarrow> byte list result) \<Rightarrow> u64 \<Rightarrow> PacketNumber \<Rightarrow> PacketNumber \<Rightarrow> AckRange list
   \<Rightarrow> byte list result" where
  "writeAckBlocks bug w numRanges largestAcked lowestAcked ackRanges =
     (case ackRanges of
        [] \<Rightarrow> wbind (w (largestAcked - lowestAcked + 1)) (\<lambda>first.
          if numRanges \<noteq> 0 then Inl (GoError bug) else Inr first)
      | a # rs \<Rightarrow>
          if largestAcked \<noteq> Last a then Inl errInconsistentAckLargestAcked
          else if lowestAcked \<noteq> First (last ackRanges) then Inl errInconsistentAckLowestAcked
          else wbind (w (largestAcked - First a + 1)) (\<lambda>first.
               wbind (writeRanges w numRanges a rs 1) (\<lambda>(bs, numRangesWritten).
                 if numRanges \<noteq> numRangesWritten then Inl (GoError bug) else Inr (first @ bs))))"

section \<open>Descending disjoint ranges\<close>

definition wf_ranges :: "AckRange list \<Rightarrow> bool" where
  "wf_ranges rs \<longleftrightarrow> (\<forall>r\<in>set rs. First r \<le> Last r) \<and>
     sorted_wrt (\<lambda>a b. unat (Last b) + 1 < unat (First a)) rs"

lemma wf_ranges_Cons:
  "wf_ranges (a # rs) \<longleftrightarrow> First a \<le> Last a \<and> wf_ranges rs \<and>
     (\<forall>b\<in>set rs. unat (Last b) + 1 < unat (First a))"
  by (auto simp: wf_ranges_def)

lemma wf_ranges_take: "wf_ranges rs \<Longrightarrow> wf_ranges (take k rs)"
  unfolding wf_ranges_def by (auto dest: in_set_takeD sorted_wrt_take)

lemma wf_ranges_last: "wf_ranges rs \<Longrightarrow> rs \<noteq> [] \<Longrightarrow> First (last rs) \<le> Last (hd rs)"
proof (cases rs)
  case (Cons a rs')
  assume wf: "wf_ranges rs" and "rs \<noteq> []"
  show ?thesis
  proof (cases "rs' = []")
    case False
    then have "last rs \<in> set rs'" using Cons by simp
    then have "First (last rs) \<le> Last (last rs)" "unat (Last (last rs)) + 1 < unat (First a)"
      "First a \<le> Last a"
      using wf Cons by (auto simp: wf_ranges_def)
    then show ?thesis using Cons by (simp add: word_le_nat_alt)
  qed (use wf Cons in \<open>simp add: wf_ranges_Cons\<close>)
qed simp

lemma word_not_le_Suc_iff:
  "\<not> a \<le> b + 1 \<longleftrightarrow> unat b + 1 < unat a" if "unat b + 1 < 2 ^ 64" for a b :: u64
  using that by (simp add: word_le_nat_alt unat_word_ariths not_le)

text \<open>The checks of \<open>validateAckRanges\<close> on lists whose upper ends are not \<open>2^64 - 1\<close>.\<close>

lemma consistent_wf:
  assumes "\<forall>r\<in>set rs. First r \<le> Last r" "\<forall>r\<in>set (tl rs). unat (Last r) + 1 < 2 ^ 64"
  shows "consistentRanges rs \<longleftrightarrow> wf_ranges rs"
  using assms
proof (induction rs rule: consistentRanges.induct)
  case (1 a b rs)
  have ih: "consistentRanges (b # rs) \<longleftrightarrow> wf_ranges (b # rs)"
    using 1 by (simp add: list.set_sel(2))
  have b: "unat (First b) \<le> unat (Last b)" "unat (Last b) + 1 < 2 ^ 64"
    using 1 by (auto simp: word_le_nat_alt)
  have "consistentRanges (a # b # rs) \<longleftrightarrow> unat (Last b) + 1 < unat (First a) \<and> wf_ranges (b # rs)"
    unfolding consistentRanges.simps word_not_le_Suc_iff [OF b(2)] ih
    using b(1) by (auto simp: word_le_nat_alt)
  also have "\<dots> \<longleftrightarrow> wf_ranges (a # b # rs)"
    using b 1 by (fastforce simp: wf_ranges_Cons word_le_nat_alt)
  finally show ?case .
qed (auto simp: wf_ranges_def)

lemma validateRanges_wf:
  assumes "\<forall>r\<in>set (tl rs). unat (Last r) + 1 < 2 ^ 64"
  shows "validateRanges largest rs \<longleftrightarrow>
    rs = [] \<or> (1 < length rs \<and> Last (hd rs) = largest \<and> wf_ranges rs)"
proof (cases "\<forall>r\<in>set rs. First r \<le> Last r")
  case True
  then have "\<not> list_ex (\<lambda>r. First r > Last r) rs" by (auto simp: list_ex_iff not_less)
  moreover have "length rs \<noteq> 0 \<and> length rs \<noteq> 1 \<longleftrightarrow> 1 < length rs" by arith
  ultimately show ?thesis
    using consistent_wf [OF True assms] by (cases rs) (auto simp: validateRanges_def)
next
  case False
  then have "list_ex (\<lambda>r. First r > Last r) rs" "\<not> wf_ranges rs"
    by (auto simp: list_ex_iff wf_ranges_def not_le)
  then show ?thesis using False by (auto simp: validateRanges_def)
qed

section \<open>Gaps and blocks\<close>

lemma unat_gapBlocks: "unat (gapBlocks gap) = (unat gap + 254) div 255"
proof -
  have b: "unat gap div 255 + 1 < 2 ^ 64" using unat_bound_u64 [of gap] by simp
  have u: "unat (gap div 0xFF) = unat gap div 255" by (simp add: unat_div)
  then have u1: "unat (gap div 0xFF + 1) = unat gap div 255 + 1"
    using b by (simp add: unat_word_ariths)
  have m: "gap mod 0xFF = 0 \<longleftrightarrow> unat gap mod 255 = 0"
    by (simp only: unat_eq_zero [symmetric]) (simp add: unat_mod)
  have "(x + 254) div 255 = (if x mod 255 = 0 then x div 255 else x div 255 + 1)" for x :: nat
    by (cases x) (auto simp: div_Suc div_add_self2 add.commute)
  then show ?thesis
    using u u1 m by (simp add: gapBlocks_def Let_def)
qed

lemma gapBlocks_pos: "0 < unat gap \<Longrightarrow> 0 < unat (gapBlocks gap)"
  unfolding unat_gapBlocks by (simp add: Suc_leI less_eq_div_iff_mult_less_eq div_greater_zero_iff)

lemma unat_rangeGap:
  assumes "unat (Last b) + 1 < unat (First a)"
  shows "unat (rangeGap a b) = unat (First a) - unat (Last b) - 1" "0 < unat (rangeGap a b)"
proof -
  have 1: "unat (First a - Last b) = unat (First a) - unat (Last b)"
    using assms by (simp add: unat_sub_if_size)
  show "unat (rangeGap a b) = unat (First a) - unat (Last b) - 1"
    unfolding rangeGap_def using assms 1 by (simp add: unat_sub_if_size)
  then show "0 < unat (rangeGap a b)" using assms by simp
qed

lemma unat_rangeLength:
  assumes "First r \<le> Last r" "unat (Last r) - unat (First r) + 1 < 2 ^ 64"
  shows "unat (rangeLength r) = unat (Last r) - unat (First r) + 1"
proof -
  have "unat (Last r - First r) = unat (Last r) - unat (First r)"
    using assms by (simp add: unat_sub_if_size word_le_nat_alt)
  then show ?thesis using assms(2) by (simp add: rangeLength_def unat_word_ariths)
qed

definition lastGap :: "u64 \<Rightarrow> byte" where
  "lastGap gap = ucast (1 + (gap - 1) mod 255)"

definition rangeBlocks :: "AckRange \<Rightarrow> AckRange \<Rightarrow> (byte \<times> u64) list" where
  "rangeBlocks a b =
     replicate (unat (gapBlocks (rangeGap a b)) - 1) (0xFF, 0)
     @ [(lastGap (rangeGap a b), rangeLength b)]"

lemma lastGap_split:
  assumes "0 < unat gap"
  shows "gap = 255 * of_nat (unat (gapBlocks gap) - 1) + ucast (lastGap gap)"
proof -
  have g1: "unat (gap - 1) = unat gap - 1" using assms by (simp add: unat_sub_if_size)
  have "unat (1 + (gap - 1) mod 255) = 1 + (unat gap - 1) mod 255"
    by (simp add: unat_word_ariths unat_mod g1)
  then have lg: "unat (lastGap gap) = 1 + (unat gap - 1) mod 255"
    by (simp add: lastGap_def unsigned_ucast_eq take_bit_eq_mod)
  have "unat gap = 255 * ((unat gap + 254) div 255 - 1) + (1 + (unat gap - 1) mod 255)"
  proof (cases "unat gap")
    case (Suc x)
    then have "(unat gap + 254) div 255 = x div 255 + 1"
      using div_add_self2 [of 255 x] by simp
    then show ?thesis using Suc mult_div_mod_eq [of 255 x] by simp
  qed (use assms in simp)
  then have "unat gap = 255 * (unat (gapBlocks gap) - 1) + unat (lastGap gap)"
    by (simp only: unat_gapBlocks lg)
  then have "of_nat (unat gap) = (of_nat (255 * (unat (gapBlocks gap) - 1) + unat (lastGap gap)) :: u64)"
    by (simp only:)
  then show ?thesis by simp
qed

section \<open>Writing and parsing blocks\<close>

lemma ucast_down_up:
  "LENGTH('a) \<le> LENGTH('b) \<Longrightarrow> ucast (ucast x :: 'b::len word) = x" for x :: "'a::len word"
  by (rule bit_word_eqI) (auto simp: bit_simps)


definition encBlocks :: "ByteOrder \<Rightarrow> PacketNumberLen \<Rightarrow> (byte \<times> u64) list \<Rightarrow> byte list" where
  "encBlocks bo n bl = concat (map (\<lambda>(g, l). g # bo_enc bo (unat n) (unat l)) bl)"

lemma encBlocks_simps [simp]:
  "encBlocks bo n [] = []"
  "encBlocks bo n ((g, l) # bl) = g # bo_enc bo (unat n) (unat l) @ encBlocks bo n bl"
  "encBlocks bo n (bl @ bl') = encBlocks bo n bl @ encBlocks bo n bl'"
  by (simp_all add: encBlocks_def)

text \<open>The blocks of a list of ranges below the range \<open>a\<close>.\<close>

fun rangesBlocks :: "AckRange \<Rightarrow> AckRange list \<Rightarrow> (byte \<times> u64) list" where
  "rangesBlocks a [] = []"
| "rangesBlocks a (b # rs) = rangeBlocks a b @ rangesBlocks b rs"

text \<open>The number of ranges that fit into the 255 blocks of a frame.\<close>

fun fitCount :: "AckRange \<Rightarrow> AckRange list \<Rightarrow> nat \<Rightarrow> nat" where
  "fitCount a [] acc = 0"
| "fitCount a (b # rs) acc =
     (let n = unat (gapBlocks (rangeGap a b))
      in if acc + n < 255 then Suc (fitCount b rs (acc + n)) else 0)"

lemma unat_numWritable_from:
  "unat acc < 255 \<Longrightarrow> unat (numWritable_from a rs acc) < 255 \<and> unat acc \<le> unat (numWritable_from a rs acc)
     \<and> (wf_ranges (a # rs) \<longrightarrow> 0 < fitCount a rs (unat acc) \<longrightarrow> unat acc < unat (numWritable_from a rs acc))
     \<and> (fitCount a rs (unat acc) = 0 \<longrightarrow> numWritable_from a rs acc = acc)"
proof (induction rs arbitrary: a acc)
  case (Cons b rs)
  let ?n = "gapBlocks (rangeGap a b)"
  have "unat ?n \<le> (2 ^ 64 + 254) div 255"
    unfolding unat_gapBlocks using unat_bound_u64 [of "rangeGap a b"] by (intro div_le_mono) simp
  then have u: "unat (acc + ?n) = unat acc + unat ?n"
    using Cons.prems by (simp add: unat_word_ariths)
  have pos: "wf_ranges (a # b # rs) \<Longrightarrow> 0 < unat ?n"
    by (intro gapBlocks_pos unat_rangeGap(2)) (simp add: wf_ranges_Cons)
  show ?case
    using Cons.IH [of "acc + ?n" b] Cons.prems pos u
    by (auto simp: Let_def word_less_nat_alt wf_ranges_Cons)
qed simp

definition blocks :: "AckRange list \<Rightarrow> bool \<Rightarrow> bool \<Rightarrow> blocks_state" where
  "blocks rs l c = \<lparr>bs_ranges = rs, bs_inLongBlock = l, bs_lastRangeComplete = c\<rparr>"

lemma ackBlock_new:
  "ackBlock g l (blocks (a # rs) False c) =
     blocks (\<lparr>First = First a - ucast g - l, Last = First a - ucast g - 1\<rparr> # a # rs) (l = 0) (0 < l)"
  by (auto simp: ackBlock_def blocks_def Let_def)

lemma ackBlock_long:
  "ackBlock g l (blocks (a # rs) True c) =
     blocks (\<lparr>First = First a - (ucast g + l), Last = Last a - ucast g\<rparr> # rs) (l = 0) (0 < l \<or> c)"
  by (cases a) (auto simp: ackBlock_def blocks_def Let_def)

lemma fold_long_gap:
  assumes "0 < m"
  shows "fold (\<lambda>(g, l). ackBlock g l) (replicate m (0xFF, 0)) (blocks (a # rs) False c) =
    blocks (\<lparr>First = First a - 255 * of_nat m, Last = First a - 255 * of_nat m - 1\<rparr> # a # rs) True False"
  using assms
proof (induction m)
  case (Suc m)
  have app: "replicate (Suc m) x = replicate m x @ [x]" for x :: "byte \<times> u64"
    by (simp add: replicate_append_same)
  show ?case
  proof (cases m)
    case 0
    then show ?thesis by (simp add: ackBlock_new)
  next
    case (Suc m')
    then show ?thesis
      unfolding app fold_append comp_def using Suc.IH
      by (simp add: ackBlock_long) (simp add: algebra_simps)
  qed
qed simp

lemma fold_rangeBlocks:
  assumes "0 < unat (rangeGap a b)" "rangeLength b \<noteq> 0"
  shows "fold (\<lambda>(g, l). ackBlock g l) (rangeBlocks a b) (blocks (a # rs) False c) =
    blocks (b # a # rs) False True"
proof -
  define m where "m = unat (gapBlocks (rangeGap a b)) - 1"
  let ?g = "ucast (lastGap (rangeGap a b)) :: u64"
  have gap: "rangeGap a b = 255 * of_nat m + ?g"
    unfolding m_def by (rule lastGap_split [OF assms(1)])
  have rb: "rangeBlocks a b = replicate m (0xFF, 0) @ [(lastGap (rangeGap a b), rangeLength b)]"
    by (simp add: rangeBlocks_def m_def)
  have L: "First a - 255 * of_nat m - 1 - ?g = Last b"
    using gap by (simp add: rangeGap_def algebra_simps)
  have F: "First a - 255 * of_nat m - (?g + rangeLength b) = First b"
    using L by (simp add: rangeLength_def algebra_simps)
  have b: "\<lparr>First = First b, Last = Last b\<rparr> = b" by (cases b) simp
  have pos: "0 < rangeLength b" using assms(2) by (simp add: word_neq_0_conv)
  show ?thesis
  proof (cases "m = 0")
    case True
    have F0: "First a - ?g - rangeLength b = First b"
      using F unfolding True by (simp add: algebra_simps)
    have L0: "First a - ?g - 1 = Last b"
      using L unfolding True by (simp add: algebra_simps)
    show ?thesis
      unfolding rb True by (simp add: ackBlock_new F0 L0 b pos assms(2))
  next
    case False
    then show ?thesis
      unfolding rb fold_append comp_def
      by (simp only: fold_long_gap) (simp add: ackBlock_long F L b pos assms(2))
  qed
qed

lemma fold_rangesBlocks:
  assumes "wf_ranges (a # rs)"
  shows "fold (\<lambda>(g, l). ackBlock g l) (rangesBlocks a rs) (blocks (a # pre) False c) =
    blocks (rev rs @ a # pre) False (c \<or> rs \<noteq> [])"
  using assms
proof (induction rs arbitrary: a pre c)
  case (Cons b rs)
  have lt: "unat (Last b) + 1 < unat (First a)" using Cons.prems by (simp add: wf_ranges_Cons)
  have "unat (Last b) - unat (First b) + 1 < 2 ^ 64"
    using lt unat_bound_u64 [of "First a"] by simp
  then have "unat (rangeLength b) \<noteq> 0"
    using unat_rangeLength [of b] Cons.prems by (simp add: wf_ranges_Cons)
  then have "rangeLength b \<noteq> 0" by auto
  then show ?case
    using Cons.IH [of b "a # pre"] Cons.prems unat_rangeGap(2) [OF lt]
    by (simp add: fold_rangeBlocks wf_ranges_Cons)
qed simp

lemma length_rangeBlocks:
  "0 < unat (rangeGap a b) \<Longrightarrow> length (rangeBlocks a b) = unat (gapBlocks (rangeGap a b))"
  using gapBlocks_pos [of "rangeGap a b"] by (simp add: rangeBlocks_def)

lemma numWritable_blocks:
  assumes "wf_ranges (a # rs)" "unat acc < 255"
  shows "unat (numWritable_from a rs acc) =
    unat acc + length (rangesBlocks a (take (fitCount a rs (unat acc)) rs))"
  using assms
proof (induction rs arbitrary: a acc)
  case (Cons b rs)
  have gap: "0 < unat (rangeGap a b)" using Cons.prems(1) by (simp add: wf_ranges_Cons unat_rangeGap)
  let ?n = "gapBlocks (rangeGap a b)"
  have "unat ?n \<le> (2 ^ 64 + 254) div 255"
    unfolding unat_gapBlocks using unat_bound_u64 [of "rangeGap a b"] by (intro div_le_mono) simp
  then have u: "unat (acc + ?n) = unat acc + unat ?n"
    using Cons.prems by (simp add: unat_word_ariths)
  then show ?case
    using Cons.IH [of b "acc + ?n"] Cons.prems
    by (auto simp: Let_def word_less_nat_alt wf_ranges_Cons length_rangeBlocks [OF gap])
qed simp

lemma rangesBlocks_lengths:
  assumes "\<forall>b\<in>set rs. unat (rangeLength b) < m" "0 < m"
  shows "\<forall>(g, l)\<in>set (rangesBlocks a rs). unat l < m"
  using assms by (induction rs arbitrary: a) (auto simp: rangeBlocks_def)

lemma last_Cons_First: "First (hd (rev rs @ a # pre)) = First (if rs = [] then a else last rs)"
  by (simp add: hd_append hd_rev)

locale block_writer =
  fixes bo :: ByteOrder and n :: PacketNumberLen and w :: "u64 \<Rightarrow> byte list result"
  assumes valid_n: "valid_PacketNumberLen n"
    and w: "unat x < 256 ^ unat n \<Longrightarrow> w x = Inr (bo_enc bo (unat n) (unat x))"
begin

lemma n_le_8: "unat n \<le> 8"
  using valid_n by (auto simp: valid_PacketNumberLen_def packet_number_len_defs)

lemma writeLongGap_blocks:
  assumes "unat len < 256 ^ unat n"
  shows "writeLongGap w (Suc m) gap len =
    Inr (encBlocks bo n (replicate m (0xFF, 0) @ [(lastGap gap, len)]))"
proof (induction m)
  case (Suc m)
  have "w 0 = Inr (bo_enc bo (unat n) 0)" using w [of 0] by simp
  then show ?case unfolding writeLongGap.simps(2) [of w "Suc m"] Suc by simp
qed (simp add: w [OF assms] lastGap_def)

lemma writeRange_blocks:
  assumes "0 < unat (rangeGap a b)" "unat (rangeLength b) < 256 ^ unat n"
  shows "writeRange w a b = Inr (encBlocks bo n (rangeBlocks a b))"
proof (cases "gapBlocks (rangeGap a b) = 1")
  case True
  then have one: "unat (gapBlocks (rangeGap a b)) = 1" by simp
  then have "rangeGap a b = ucast (lastGap (rangeGap a b))"
    using lastGap_split [OF assms(1)] by simp
  then have "ucast (rangeGap a b) = lastGap (rangeGap a b)"
    using ucast_down_up [of "lastGap (rangeGap a b)", where 'b = 64] by simp
  then show ?thesis
    using True one by (simp add: writeRange_def w [OF assms(2)] rangeBlocks_def)
next
  case False
  obtain m where m: "unat (gapBlocks (rangeGap a b)) = Suc m"
    using gapBlocks_pos [OF assms(1)] gr0_conv_Suc by auto
  then show ?thesis
    using False writeLongGap_blocks [OF assms(2), of m]
    by (simp add: writeRange_def Let_def rangeBlocks_def del: writeLongGap.simps)
qed

lemma writeRanges_fit:
  assumes "wf_ranges (a # rs)" "\<forall>b\<in>set rs. unat (rangeLength b) < 256 ^ unat n"
    and "unat acc < 255" "0 < fitCount a rs (unat acc)"
  shows "writeRanges w (numWritable_from a rs acc + 1) a rs (acc + 1) =
    Inr (encBlocks bo n (rangesBlocks a (take (fitCount a rs (unat acc)) rs)),
         numWritable_from a rs acc + 1)"
  using assms
proof (induction rs arbitrary: a acc)
  case (Cons b rs)
  let ?m = "gapBlocks (rangeGap a b)"
  have gap: "0 < unat (rangeGap a b)" using Cons.prems(1) by (simp add: wf_ranges_Cons unat_rangeGap)
  have fits: "unat acc + unat ?m < 255" using Cons.prems(4) by (simp add: Let_def split: if_splits)
  then have u: "unat (acc + ?m) = unat acc + unat ?m" by (simp add: unat_word_ariths)
  have wr: "writeRange w a b = Inr (encBlocks bo n (rangeBlocks a b))"
    using writeRange_blocks [OF gap] Cons.prems(2) by simp
  have num: "numWritable_from a (b # rs) acc = numWritable_from b rs (acc + ?m)"
    using fits u by (simp add: Let_def word_less_nat_alt)
  let ?N = "numWritable_from b rs (acc + ?m)"
  have wf: "wf_ranges (b # rs)" using Cons.prems(1) by (simp add: wf_ranges_Cons)
  note N = unat_numWritable_from [of "acc + ?m" b rs, unfolded u, OF fits]
  have ge: "acc + 1 + ?m \<ge> ?N + 1 \<longleftrightarrow> fitCount b rs (unat acc + unat ?m) = 0"
  proof -
    have "unat (acc + 1 + ?m) = unat acc + unat ?m + 1" "unat (?N + 1) = unat ?N + 1"
      using fits N by (simp_all add: unat_word_ariths)
    then show ?thesis using N wf u by (auto simp: word_le_nat_alt)
  qed
  show ?case
  proof (cases "fitCount b rs (unat acc + unat ?m) = 0")
    case True
    then show ?thesis
      using ge N fits by (simp add: wr num Let_def add_ac del: numWritable_from.simps)
  next
    case False
    then have "writeRanges w (?N + 1) b rs (acc + ?m + 1) =
        Inr (encBlocks bo n (rangesBlocks b (take (fitCount b rs (unat acc + unat ?m)) rs)), ?N + 1)"
      using Cons.IH [OF wf, of "acc + ?m"] Cons.prems(2) fits by (simp add: u)
    then show ?thesis
      using ge False fits by (simp add: wr num Let_def add_ac del: numWritable_from.simps)
  qed
qed simp

lemma writeRanges_too_long:
  assumes "wf_ranges (a # b # rs)" "unat (rangeLength b) < 256 ^ unat n"
    and "fitCount a (b # rs) 0 = 0"
  shows "\<exists>bs k. writeRanges w 1 a (b # rs) 1 = Inr (bs, k) \<and> k \<noteq> 1"
proof -
  let ?m = "gapBlocks (rangeGap a b)"
  have gap: "0 < unat (rangeGap a b)" using assms(1) by (simp add: wf_ranges_Cons unat_rangeGap)
  have "unat ?m \<ge> 255" using assms(3) by (simp add: Let_def split: if_splits)
  moreover have "unat ?m \<le> (2 ^ 64 + 254) div 255"
    unfolding unat_gapBlocks using unat_bound_u64 [of "rangeGap a b"] by (intro div_le_mono) simp
  ultimately have "unat (1 + ?m) = unat ?m + 1" by (simp add: unat_word_ariths)
  then have "1 + ?m \<ge> 1" "1 + ?m \<noteq> 1"
    using \<open>255 \<le> unat ?m\<close> by (auto simp: word_le_nat_alt)
  then show ?thesis
    by (simp add: writeRange_blocks [OF gap assms(2)] Let_def)
qed

lemma parseBlocks_enc:
  assumes "\<forall>(g, l)\<in>set bl. unat l < 256 ^ unat n"
  shows "parseBlocks bo n (length bl) s (encBlocks bo n bl @ r) =
    Inr (fold (\<lambda>(g, l). ackBlock g l) bl s, r)"
  using assms
proof (induction bl arbitrary: s)
  case (Cons x bl)
  obtain g l where x: "x = (g, l)" by (cases x)
  have "unat l < 256 ^ unat n" using Cons.prems x by simp
  then show ?case using Cons x by (simp add: bo.rN_enc [OF n_le_8])
qed simp

lemma parseRanges_written:
  assumes "wf_ranges (a # rs)" "rs \<noteq> []" "\<forall>b\<in>set rs. unat (rangeLength b) < 256 ^ unat n"
    and "length (rangesBlocks a rs) = unat k"
  shows "parseRanges bo n k (Last a) (rangeLength a) (encBlocks bo n (rangesBlocks a rs) @ r) =
    Inr ((a # rs, First (last rs)), r)"
proof -
  have a: "First a \<le> Last a" using assms(1) by (simp add: wf_ranges_Cons)
  have first: "\<lparr>First = Last a - rangeLength a + 1, Last = Last a\<rparr> = a"
    by (cases a) (simp add: rangeLength_def)
  have "parseBlocks bo n (unat k) (blocks [a] False False) (encBlocks bo n (rangesBlocks a rs) @ r)
      = Inr (blocks (rev rs @ [a]) False True, r)"
    unfolding assms(4) [symmetric]
    using parseBlocks_enc [OF rangesBlocks_lengths [OF assms(3)], of a "blocks [a] False False" r]
      fold_rangesBlocks [OF assms(1), of "[]" False] assms(2) by simp
  then show ?thesis
    using assms(2) last_Cons_First [of rs a "[]"]
    by (simp add: parseRanges_def first blocks_def)
qed

lemma writeAckBlocks_fit:
  assumes "wf_ranges (a # rs)" "\<forall>b\<in>set (a # rs). unat (rangeLength b) < 256 ^ unat n"
    and "0 < fitCount a rs 0"
  shows "writeAckBlocks bug w (numWritableRanges (a # rs)) (Last a) (First (last (a # rs))) (a # rs) =
    Inr (bo_enc bo (unat n) (unat (rangeLength a))
      @ encBlocks bo n (rangesBlocks a (take (fitCount a rs 0) rs)))"
proof -
  have "w (Last a - First a + 1) = Inr (bo_enc bo (unat n) (unat (rangeLength a)))"
    unfolding rangeLength_def [symmetric] using assms(2) by (intro w) simp
  moreover have "writeRanges w (numWritable_from a rs 0 + 1) a rs 1 =
      Inr (encBlocks bo n (rangesBlocks a (take (fitCount a rs 0) rs)), numWritable_from a rs 0 + 1)"
    using writeRanges_fit [OF assms(1), of 0] assms(2,3) by simp
  ultimately show ?thesis by (simp add: writeAckBlocks_def)
qed

lemma writeAckBlocks_too_long:
  assumes "wf_ranges (a # b # rs)" "\<forall>b\<in>set (a # b # rs). unat (rangeLength b) < 256 ^ unat n"
    and "fitCount a (b # rs) 0 = 0"
  shows "writeAckBlocks bug w (numWritableRanges (a # b # rs)) (Last a) (First (last (a # b # rs)))
      (a # b # rs) = Inl (GoError bug)"
proof -
  have "w (Last a - First a + 1) = Inr (bo_enc bo (unat n) (unat (rangeLength a)))"
    unfolding rangeLength_def [symmetric] using assms(2) by (intro w) simp
  moreover have "numWritable_from a (b # rs) 0 = 0"
    using unat_numWritable_from [of 0 a "b # rs"] assms(3) by simp
  moreover obtain bs k where "writeRanges w 1 a (b # rs) 1 = Inr (bs, k)" "k \<noteq> 1"
    using writeRanges_too_long [OF assms(1) _ assms(3)] assms(2) by auto
  ultimately show ?thesis
    by (simp add: writeAckBlocks_def del: writeRanges.simps numWritable_from.simps)
qed

lemma parseAckBlocks_written:
  assumes "wf_ranges (a # rs)" "rs \<noteq> []" "\<forall>b\<in>set (a # rs). unat (rangeLength b) < 256 ^ unat n"
    and "length (rangesBlocks a rs) = unat k"
  shows "parseAckBlocks bo True n k (Last a)
      (bo_enc bo (unat n) (unat (rangeLength a)) @ encBlocks bo n (rangesBlocks a rs) @ r) =
    Inr ((a # rs, First (last rs)), r)"
proof -
  obtain b rs' where rs: "rs = b # rs'" using assms(2) by (cases rs) auto
  have a: "First a \<le> Last a" "unat (Last b) + 1 < unat (First a)"
    using assms(1) by (auto simp: rs wf_ranges_Cons)
  have len: "unat (rangeLength a) = unat (Last a) - unat (First a) + 1"
    using a unat_bound_u64 [of "Last a"] by (intro unat_rangeLength) auto
  have c: "\<not> rangeLength a < 1" "\<not> Last a < rangeLength a"
    using a len by (auto simp: word_less_nat_alt word_le_nat_alt)
  have "\<forall>r\<in>set (tl (a # rs)). unat (Last r) + 1 < 2 ^ 64"
    using assms(1) unat_bound_u64 [of "First a"] by (auto simp: wf_ranges_Cons)
  then have valid: "validateRanges (Last a) (a # rs)"
    using validateRanges_wf [of "a # rs" "Last a"] assms(1,2) by simp
  have "ReadUintN bo (bo_enc bo (unat n) (unat (rangeLength a)) @ x) n = Inr (rangeLength a, x)" for x
    using assms(3) by (intro bo.rN_enc n_le_8) simp
  then show ?thesis
    using c valid parseRanges_written [OF assms(1,2) _ assms(4)] assms(3)
    by (simp add: parseAckBlocks_def)
qed

lemma parseAckBlocks_single:
  assumes "0 < lo" "lo \<le> lg" "unat (lg - lo + 1) < 256 ^ unat n"
  shows "w (lg - lo + 1) = Inr (bo_enc bo (unat n) (unat (lg - lo + 1)))"
    and "parseAckBlocks bo False n k lg (bo_enc bo (unat n) (unat (lg - lo + 1)) @ r) = Inr (([], lo), r)"
proof -
  show "w (lg - lo + 1) = Inr (bo_enc bo (unat n) (unat (lg - lo + 1)))" by (rule w [OF assms(3)])
  have u: "unat (lg - lo + 1) = unat lg - unat lo + 1"
    using assms(1,2) unat_bound_u64 [of lg]
    by (simp add: unat_word_ariths unat_sub_if_size word_le_nat_alt word_less_nat_alt)
  have c: "\<not> lg - lo + 1 < 1" "\<not> lg < lg - lo + 1" "lg \<noteq> 0"
    using u assms(1,2) by (auto simp: word_less_nat_alt word_le_nat_alt)
  have "ReadUintN bo (bo_enc bo (unat n) (unat (lg - lo + 1)) @ r) n = Inr (lg - lo + 1, r)"
    by (rule bo.rN_enc [OF n_le_8 assms(3)])
  then show "parseAckBlocks bo False n k lg (bo_enc bo (unat n) (unat (lg - lo + 1)) @ r) = Inr (([], lo), r)"
    using c by (simp add: parseAckBlocks_def validateRanges_def)
qed

end

section \<open>The length field of the blocks\<close>

lemma missingDeltaLen_valid: "valid_PacketNumberLen (missingDeltaLen lg lo rs)"
  by (auto simp: missingDeltaLen_def valid_PacketNumberLen_def Let_def)

lemma fold_max_ge:
  fixes m :: u64
  defines "g \<equiv> \<lambda>ackRange m. if rangeLength ackRange > m then rangeLength ackRange else m"
  shows "m \<le> fold g rs m" and "r \<in> set rs \<Longrightarrow> rangeLength r \<le> fold g rs m"
proof -
  show ge: "m \<le> fold g rs m" for m
    by (induction rs arbitrary: m) (auto simp: g_def intro: order_trans less_imp_le)
  show "r \<in> set rs \<Longrightarrow> rangeLength r \<le> fold g rs m"
  proof (induction rs arbitrary: m)
    case (Cons x rs)
    have "m' \<le> fold g rs m'" for m'
      by (induction rs arbitrary: m') (auto simp: g_def intro: order_trans less_imp_le)
    moreover have "rangeLength x \<le> g x m" by (auto simp: g_def)
    ultimately show ?case using Cons by (auto intro: order_trans)
  qed simp
qed

lemma missingDeltaLen_fits:
  assumes "unat (maxRangeLength lg lo rs) < 2 ^ 48"
  shows "unat (maxRangeLength lg lo rs) < 256 ^ unat (missingDeltaLen lg lo rs)"
  using assms by (simp add: missingDeltaLen_def Let_def packet_number_len_defs word_le_nat_alt)

lemma maxRangeLength_ge:
  "r \<in> set rs \<Longrightarrow> rangeLength r \<le> maxRangeLength lg lo rs"
  using fold_max_ge(2) [of r rs 0] by (auto simp: maxRangeLength_def hasMissingRanges_def)

lemma writeField_enc:
  assumes "valid_PacketNumberLen n" "n = PacketNumberLen6 \<Longrightarrow> w48 x = Inr (bo_enc bo 6 (unat x))"
  shows "writeField bo w48 n x = Inr (bo_enc bo (unat n) (unat x))"
  using assms write_field_1 [of x bo]
  by (auto simp: writeField_def valid_PacketNumberLen_def packet_number_len_defs write_fields)

section \<open>The ranges of a frame\<close>

text \<open>
  What a sender guarantees of \<open>LargestAcked\<close>, \<open>LowestAcked\<close> and \<open>AckRanges\<close>, and what
  arrives: all ranges when their blocks fit into the frame, and otherwise the highest
  ones.  Nothing can be sent if already the first gap takes too many blocks.
\<close>

definition frame_ranges_ok :: "PacketNumber \<Rightarrow> PacketNumber \<Rightarrow> AckRange list \<Rightarrow> bool" where
  "frame_ranges_ok lg lo rs \<longleftrightarrow> unat lg < 2 ^ 48 \<and>
     (if rs = [] then 0 < lo \<and> lo \<le> lg
      else 1 < length rs \<and> wf_ranges rs \<and> Last (hd rs) = lg \<and> First (last rs) = lo)"

fun first_gap_fits :: "AckRange list \<Rightarrow> bool" where
  "first_gap_fits (a # rs) \<longleftrightarrow> 0 < fitCount a rs 0"
| "first_gap_fits [] \<longleftrightarrow> True"

fun sentRanges :: "AckRange list \<Rightarrow> AckRange list" where
  "sentRanges [] = []"
| "sentRanges (a # rs) = a # take (fitCount a rs 0) rs"

definition sentLowest :: "PacketNumber \<Rightarrow> AckRange list \<Rightarrow> PacketNumber" where
  "sentLowest lo rs = (if rs = [] then lo else First (last (sentRanges rs)))"

fun ackBlocksBytes ::
  "ByteOrder \<Rightarrow> PacketNumberLen \<Rightarrow> PacketNumber \<Rightarrow> PacketNumber \<Rightarrow> AckRange list \<Rightarrow> byte list" where
  "ackBlocksBytes bo n lg lo [] = bo_enc bo (unat n) (unat (lg - lo + 1))"
| "ackBlocksBytes bo n lg lo (a # rs) =
     bo_enc bo (unat n) (unat (rangeLength a)) @ encBlocks bo n (rangesBlocks a (take (fitCount a rs 0) rs))"

definition numFrameRanges :: "AckRange list \<Rightarrow> u64" where
  "numFrameRanges rs = (if hasMissingRanges rs then numWritableRanges rs else 0)"

lemma frame_range_lengths:
  assumes "frame_ranges_ok lg lo rs" "r \<in> set rs"
  shows "unat (rangeLength r) \<le> unat lg"
proof -
  obtain a b rs' where rs: "rs = a # b # rs'" and wf: "wf_ranges rs" and a: "Last a = lg"
    using assms by (cases rs; cases "tl rs") (auto simp: frame_ranges_ok_def)
  have lt: "unat (First a) \<le> unat lg" "unat (Last b) + 1 < unat (First a)"
    using wf a by (auto simp: rs wf_ranges_Cons word_le_nat_alt)
  have r1: "First r \<le> Last r" using assms(2) wf by (simp add: wf_ranges_def)
  have r: "unat (Last r) - unat (First r) + 1 \<le> unat lg"
    using assms(2) wf lt a by (auto simp: rs wf_ranges_Cons word_le_nat_alt)
  then have "unat (rangeLength r) = unat (Last r) - unat (First r) + 1"
    using unat_bound_u64 [of lg] r1 by (intro unat_rangeLength) auto
  with r show ?thesis by simp
qed

lemma frame_deltaLen_fits:
  assumes "frame_ranges_ok lg lo rs"
  shows "unat (maxRangeLength lg lo rs) < 256 ^ unat (missingDeltaLen lg lo rs)"
proof (rule missingDeltaLen_fits)
  have lg: "unat lg < 2 ^ 48" using assms by (simp add: frame_ranges_ok_def)
  show "unat (maxRangeLength lg lo rs) < 2 ^ 48"
  proof (cases "rs = []")
    case True
    then have "unat (lg - lo + 1) = unat lg - unat lo + 1" "unat lo > 0"
      using assms lg by (auto simp: frame_ranges_ok_def unat_word_ariths unat_sub_if_size
          word_le_nat_alt word_less_nat_alt)
    then show ?thesis using True lg by (simp add: maxRangeLength_def hasMissingRanges_def)
  next
    case False
    have "\<forall>r\<in>set rs. unat (rangeLength r) < 2 ^ 48"
      using frame_range_lengths [OF assms] lg by (auto intro: le_less_trans)
    then have "unat m < 2 ^ 48 \<Longrightarrow> unat (fold (\<lambda>ackRange m.
        if rangeLength ackRange > m then rangeLength ackRange else m) rs m) < 2 ^ 48" for m
      by (induction rs arbitrary: m) auto
    from this [of 0] show ?thesis using False by (simp add: maxRangeLength_def hasMissingRanges_def)
  qed
qed

lemma frame_block_lengths:
  assumes "frame_ranges_ok lg lo rs"
  shows "\<forall>r\<in>set rs. unat (rangeLength r) < 256 ^ unat (missingDeltaLen lg lo rs)"
  using frame_deltaLen_fits [OF assms] maxRangeLength_ge [of _ rs lg lo]
  by (auto simp: word_le_nat_alt intro: le_less_trans)

lemma frame_numRanges:
  assumes "frame_ranges_ok lg lo rs" "first_gap_fits rs"
  shows "\<not> numFrameRanges rs > 0xFF"
    and "rs = a # rs' \<Longrightarrow> length (rangesBlocks a (take (fitCount a rs' 0) rs')) =
      unat (ucast (numFrameRanges rs - 1) :: byte)"
    and "rs \<noteq> [] \<Longrightarrow> (ucast (numFrameRanges rs - 1) :: byte) \<noteq> 0"
proof -
  have *: "\<not> numFrameRanges rs > 0xFF \<and> length (rangesBlocks a (take (fitCount a rs' 0) rs')) =
      unat (ucast (numFrameRanges rs - 1) :: byte) \<and> (ucast (numFrameRanges rs - 1) :: byte) \<noteq> 0"
    if rs: "rs = a # rs'" for a rs'
  proof -
    have wf: "wf_ranges (a # rs')" using assms(1) rs by (simp add: frame_ranges_ok_def)
    let ?N = "numWritable_from a rs' 0"
    have N: "unat ?N < 255" "0 < unat ?N"
      using unat_numWritable_from [of 0 a rs'] assms(2) wf rs by auto
    have u: "unat (ucast ?N :: byte) = unat ?N"
      using N by (simp add: unsigned_ucast_eq take_bit_eq_mod)
    have "(ucast ?N :: byte) \<noteq> 0" using N u by (metis less_numeral_extra(3) unat_0)
    moreover have "\<not> ?N + 1 > 0xFF" using N by (simp add: word_less_nat_alt unat_word_ariths)
    ultimately show ?thesis
      using numWritable_blocks [OF wf, of 0] u rs by (simp add: numFrameRanges_def hasMissingRanges_def)
  qed
  show "\<not> numFrameRanges rs > 0xFF"
    using * by (cases rs) (auto simp: numFrameRanges_def hasMissingRanges_def)
  show "rs = a # rs' \<Longrightarrow> length (rangesBlocks a (take (fitCount a rs' 0) rs')) =
      unat (ucast (numFrameRanges rs - 1) :: byte)" using * by blast
  show "rs \<noteq> [] \<Longrightarrow> (ucast (numFrameRanges rs - 1) :: byte) \<noteq> 0" using * by (cases rs) auto
qed

locale range_writer = block_writer bo "missingDeltaLen lg lo rs" w for bo lg lo rs w
begin

lemma writeAckBlocks_frame:
  assumes "frame_ranges_ok lg lo rs" "first_gap_fits rs"
  shows "writeAckBlocks bug w (numFrameRanges rs) lg lo rs =
    Inr (ackBlocksBytes bo (missingDeltaLen lg lo rs) lg lo rs)"
proof (cases rs)
  case Nil
  have "unat (lg - lo + 1) < 256 ^ unat (missingDeltaLen lg lo rs)"
    using frame_deltaLen_fits [OF assms(1)] Nil by (simp add: maxRangeLength_def hasMissingRanges_def)
  then show ?thesis
    using assms(1) parseAckBlocks_single(1) [of lo lg] Nil
    by (simp add: writeAckBlocks_def numFrameRanges_def hasMissingRanges_def frame_ranges_ok_def)
next
  case (Cons a rs')
  then show ?thesis
    using writeAckBlocks_fit [of a rs'] frame_block_lengths [OF assms(1)] assms
    by (auto simp: frame_ranges_ok_def numFrameRanges_def hasMissingRanges_def)
qed

lemma parseAckBlocks_frame:
  assumes "frame_ranges_ok lg lo rs" "first_gap_fits rs"
  shows "parseAckBlocks bo (hasMissingRanges rs) (missingDeltaLen lg lo rs)
      (if hasMissingRanges rs then ucast (numFrameRanges rs - 1) else 0) lg
      (ackBlocksBytes bo (missingDeltaLen lg lo rs) lg lo rs @ r) =
    Inr ((sentRanges rs, sentLowest lo rs), r)"
proof (cases rs)
  case Nil
  have "unat (lg - lo + 1) < 256 ^ unat (missingDeltaLen lg lo rs)"
    using frame_deltaLen_fits [OF assms(1)] Nil by (simp add: maxRangeLength_def hasMissingRanges_def)
  then show ?thesis
    using assms(1) parseAckBlocks_single(2) [of lo lg] Nil
    by (simp add: hasMissingRanges_def frame_ranges_ok_def sentLowest_def)
next
  case (Cons a rs')
  let ?t = "take (fitCount a rs' 0) rs'"
  have "wf_ranges (a # rs')" "rs' \<noteq> []" "Last a = lg" "0 < fitCount a rs' 0"
    using assms Cons by (auto simp: frame_ranges_ok_def)
  then have "wf_ranges (a # ?t)" "?t \<noteq> []" "\<forall>b\<in>set (a # ?t). unat (rangeLength b) < 256 ^ unat (missingDeltaLen lg lo rs)"
    using wf_ranges_take [of "a # rs'" "Suc (fitCount a rs' 0)"] frame_block_lengths [OF assms(1)] Cons
    by (auto dest: in_set_takeD)
  then show ?thesis
    using parseAckBlocks_written [of a ?t "ucast (numFrameRanges rs - 1)" r]
      frame_numRanges(2) [OF assms Cons] Cons \<open>Last a = lg\<close>
    by (simp add: hasMissingRanges_def sentLowest_def)
qed

lemma writeAckBlocks_gap:
  assumes "frame_ranges_ok lg lo rs" "\<not> first_gap_fits rs"
  shows "writeAckBlocks bug w (numFrameRanges rs) lg lo rs = Inl (GoError bug)"
proof -
  obtain a b rs' where rs: "rs = a # b # rs'" using assms
    by (cases rs; cases "tl rs") (auto simp: frame_ranges_ok_def)
  then show ?thesis
    using writeAckBlocks_too_long [of a b rs'] frame_block_lengths [OF assms(1)] assms
    by (simp add: frame_ranges_ok_def numFrameRanges_def hasMissingRanges_def)
qed

end

text \<open>ACK frames mask a six-byte length, CLOSE_PATH frames do not.\<close>

interpretation masked: range_writer bo lg lo rs
  "writeField bo (\<lambda>x. WriteUint48 bo (x AND mask 48)) (missingDeltaLen lg lo rs)" for bo lg lo rs
  by unfold_locales (simp_all add: missingDeltaLen_valid writeField_enc write_field_6)

interpretation unmasked: range_writer bo lg lo rs
  "writeField bo (WriteUint48 bo) (missingDeltaLen lg lo rs)" for bo lg lo rs
proof
  fix x :: u64
  assume "unat x < 256 ^ unat (missingDeltaLen lg lo rs)"
  then have "missingDeltaLen lg lo rs = PacketNumberLen6 \<Longrightarrow> WriteUint48 bo x = Inr (bo_enc bo 6 (unat x))"
    by (intro bo.fits_ok [OF bo.w48]) (simp add: packet_number_len_defs)
  then show "writeField bo (WriteUint48 bo) (missingDeltaLen lg lo rs) x =
      Inr (bo_enc bo (unat (missingDeltaLen lg lo rs)) (unat x))"
    by (rule writeField_enc [OF missingDeltaLen_valid])
qed (rule missingDeltaLen_valid)

section \<open>Ranges read from the wire\<close>

text \<open>
  While blocks are read, every range has the length that its block gave (none yet, while
  its long gap goes on), and the first range stays as it is.
\<close>

definition blocks_inv :: "AckRange \<Rightarrow> nat \<Rightarrow> blocks_state \<Rightarrow> bool" where
  "blocks_inv a0 m s \<longleftrightarrow> bs_ranges s \<noteq> [] \<and> last (bs_ranges s) = a0 \<and>
     (\<forall>r\<in>set (bs_ranges s). unat (rangeLength r) < m) \<and>
     (rangeLength a0 \<noteq> 0 \<longrightarrow> (\<forall>r\<in>set (tl (bs_ranges s)). rangeLength r \<noteq> 0) \<and>
        (\<not> bs_inLongBlock s \<longrightarrow> rangeLength (hd (bs_ranges s)) \<noteq> 0)) \<and>
     (bs_inLongBlock s \<longrightarrow>
        rangeLength (hd (bs_ranges s)) = 0 \<and> 1 < length (bs_ranges s) \<and> \<not> bs_lastRangeComplete s)"

lemma blocks_inv_ackBlock:
  assumes "blocks_inv a0 m s" "unat l < m"
  shows "blocks_inv a0 m (ackBlock g l s)" and "1 < length (bs_ranges (ackBlock g l s))"
proof -
  obtain a rs long c where s: "s = blocks (a # rs) long c"
    using assms(1) by (cases s) (auto simp: blocks_inv_def blocks_def neq_Nil_conv)
  have "blocks_inv a0 m (ackBlock g l s) \<and> 1 < length (bs_ranges (ackBlock g l s))"
  proof (cases long)
    case False
    have "rangeLength \<lparr>First = First a - ucast g - l, Last = First a - ucast g - 1\<rparr> = l"
      by (simp add: rangeLength_def)
    then show ?thesis
      using assms False unfolding s by (auto simp: ackBlock_new) (auto simp: blocks_inv_def blocks_def)
  next
    case True
    have "rangeLength a = 0" using assms(1) True by (simp add: s blocks_inv_def blocks_def)
    then have "rangeLength \<lparr>First = First a - (ucast g + l), Last = Last a - ucast g\<rparr> = l"
      by (simp add: rangeLength_def algebra_simps)
    then show ?thesis
      using assms True unfolding s by (auto simp: ackBlock_long) (auto simp: blocks_inv_def blocks_def)
  qed
  then show "blocks_inv a0 m (ackBlock g l s)" "1 < length (bs_ranges (ackBlock g l s))" by auto
qed

lemma blocks_inv_parseBlocks:
  assumes "parseBlocks bo n k s b = Inr (s', r)" "blocks_inv a0 (256 ^ unat n) s" "unat n \<le> 8"
  shows "blocks_inv a0 (256 ^ unat n) s'" and "0 < k \<or> 1 < length (bs_ranges s) \<Longrightarrow> 1 < length (bs_ranges s')"
proof -
  have "blocks_inv a0 (256 ^ unat n) s' \<and>
      (0 < k \<or> 1 < length (bs_ranges s) \<longrightarrow> 1 < length (bs_ranges s'))"
    using assms
  proof (induction k arbitrary: s b)
    case (Suc k)
    then obtain g b1 l b2 where "ReadUintN bo b1 n = Inr (l, b2)"
      and rest: "parseBlocks bo n k (ackBlock g l s) b2 = Inr (s', r)"
      by (auto simp: rbind_eq_Inr)
    then have "unat l < 256 ^ unat n" using ReadUintN_Inr [OF Suc.prems(3)] by blast
    then show ?case
      using Suc.IH [OF rest] Suc.prems blocks_inv_ackBlock [of a0 "256 ^ unat n" s l g] by auto
  qed simp
  then show "blocks_inv a0 (256 ^ unat n) s'"
    "0 < k \<or> 1 < length (bs_ranges s) \<Longrightarrow> 1 < length (bs_ranges s')" by auto
qed

lemma parseRanges_shape:
  assumes "parseRanges bo n k lg abl b = Inr ((rs, lo), r)" "unat n \<le> 8" "0 < unat k"
    and "unat abl < 256 ^ unat n"
  shows "rs \<noteq> []" "hd rs = \<lparr>First = lg - abl + 1, Last = lg\<rparr>" "lo = First (last rs)"
    and "\<forall>r\<in>set rs. unat (rangeLength r) < 256 ^ unat n \<and> (abl \<noteq> 0 \<longrightarrow> rangeLength r \<noteq> 0)"
proof -
  let ?a = "\<lparr>First = lg - abl + 1, Last = lg\<rparr>"
  obtain s where s: "parseBlocks bo n (unat k) (blocks [?a] False False) b = Inr (s, r)"
    and rs: "rs = rev (if \<not> bs_lastRangeComplete s then tl (bs_ranges s) else bs_ranges s)"
    and lo: "lo = First (hd (if \<not> bs_lastRangeComplete s then tl (bs_ranges s) else bs_ranges s))"
    using assms(1) by (auto simp: parseRanges_def rbind_eq_Inr Let_def blocks_def)
  have al: "rangeLength ?a = abl" by (simp add: rangeLength_def)
  then have "blocks_inv ?a (256 ^ unat n) (blocks [?a] False False)"
    using assms(4) by (simp add: blocks_inv_def blocks_def)
  note inv = blocks_inv_parseBlocks [OF s this assms(2)]
  have "1 < length (bs_ranges s)" using inv(2) assms(3) by simp
  then obtain x y zs where xy: "bs_ranges s = x # y # zs"
    by (cases "bs_ranges s"; cases "tl (bs_ranges s)") auto
  show "rs \<noteq> []" "hd rs = ?a" "lo = First (last rs)"
    "\<forall>r\<in>set rs. unat (rangeLength r) < 256 ^ unat n \<and> (abl \<noteq> 0 \<longrightarrow> rangeLength r \<noteq> 0)"
    using inv(1) al by (auto simp: rs lo xy blocks_inv_def hd_rev last_rev hd_append split: if_splits)
qed

text \<open>
  The checks of \<open>validateAckRanges\<close> are then complete, although \<open>Last + 1\<close> may wrap: the
  first elements of the ranges decrease from a number below \<open>2^48\<close>.
\<close>

lemma consistent_First_le:
  "consistentRanges (a # rs) \<Longrightarrow> r \<in> set (a # rs) \<Longrightarrow> First r \<le> First a"
proof (induction rs arbitrary: a)
  case (Cons b rs)
  then have "First b < First a" by (simp add: not_le)
  then show ?case using Cons by fastforce
qed simp

lemma parsed_ranges_wf:
  assumes "validateRanges lg rs" "rs \<noteq> []"
    and "\<forall>r\<in>set rs. unat (rangeLength r) < 2 ^ 48 \<and> rangeLength r \<noteq> 0"
    and "unat (First (hd rs)) \<le> 2 ^ 48"
  shows "1 < length rs \<and> Last (hd rs) = lg \<and> wf_ranges rs"
proof -
  have "unat (Last r) + 1 < 2 ^ 64" if r: "r \<in> set rs" for r
  proof -
    have "consistentRanges rs"
      using assms(1,2) by (auto simp: validateRanges_def split: if_splits)
    then have "unat (First r) \<le> 2 ^ 48"
      using consistent_First_le [of "hd rs" "tl rs" r] r assms(2,4) by (simp add: word_le_nat_alt)
    moreover have "unat (rangeLength r) < 2 ^ 48" "0 < unat (rangeLength r)"
      using assms(3) r by (auto simp: unat_eq_zero intro!: gr0I)
    moreover have "Last r + 1 = First r + rangeLength r" by (simp add: rangeLength_def)
    ultimately have u: "unat (Last r + 1) = unat (First r) + unat (rangeLength r)"
      "unat (Last r + 1) \<le> 2 ^ 49" "0 < unat (Last r + 1)"
      by (simp_all add: unat_word_ariths)
    have "unat (x - 1) = unat x - 1" if "0 < unat x" for x :: u64
      using that by (simp add: unat_sub_if_size)
    from this [OF u(3)] show ?thesis using u by simp
  qed
  then have "\<forall>r\<in>set (tl rs). unat (Last r) + 1 < 2 ^ 64" using assms(2) by (simp add: list.set_sel(2))
  then show ?thesis using validateRanges_wf [of rs lg] assms by blast
qed

lemma parseAckBlocks_wf:
  assumes "parseAckBlocks bo hasMissing n k lg b = Inr ((rs, lo), r)" "unat lg < 2 ^ 48"
    and "unat n \<le> 6" "hasMissing \<Longrightarrow> 0 < unat k"
  shows "lo \<le> lg" "rs \<noteq> [] \<Longrightarrow> 1 < length rs \<and> Last (hd rs) = lg \<and> First (last rs) = lo \<and> wf_ranges rs"
proof -
  have n8: "unat n \<le> 8" using assms(3) by simp
  obtain abl b1 where rd: "ReadUintN bo b n = Inr (abl, b1)" and c1: "\<not> (lg > 0 \<and> abl < 1)"
    and c2: "\<not> abl > lg" and valid: "validateRanges lg rs"
    and rest: "(if hasMissing then parseRanges bo n k lg abl b1
       else Inr (([], if lg = 0 then 0 else lg + 1 - abl), b1)) = Inr ((rs, lo), r)"
    using assms(1) by (auto simp: parseAckBlocks_def rbind_eq_Inr split: if_splits)
  have abl: "unat abl < 256 ^ unat n" using rd ReadUintN_Inr [OF n8] by blast
  have small: "(256 :: nat) ^ unat n \<le> 2 ^ 48"
    using power_increasing [of "unat n" 6 "256 :: nat"] assms(3) by simp
  have first: "unat (lg - abl + 1) = unat lg - unat abl + 1"
    using c2 assms(2) by (simp add: unat_word_ariths unat_sub_if_size word_less_nat_alt)
  have "lo \<le> lg \<and> (rs \<noteq> [] \<longrightarrow>
      1 < length rs \<and> Last (hd rs) = lg \<and> First (last rs) = lo \<and> wf_ranges rs)"
  proof (cases hasMissing)
    case False
    have e: "lg + 1 - abl = lg - abl + 1" by simp
    have "lg - abl + 1 \<le> lg" if "lg \<noteq> 0"
      using that c1 first by (auto simp: word_le_nat_alt word_less_nat_alt word_neq_0_conv)
    then show ?thesis
      using rest False unfolding e by (auto split: if_splits)
  next
    case True
    then have pr: "parseRanges bo n k lg abl b1 = Inr ((rs, lo), r)" and k: "0 < unat k"
      using rest assms(4) by auto
    note shape = parseRanges_shape [OF pr n8 k abl]
    show ?thesis
    proof (cases "abl = 0")
      case True
      then have "Last (hd rs) < First (hd rs)"
        using shape(2) first assms(2) by (simp add: word_less_nat_alt)
      then show ?thesis
        using valid shape(1) by (auto simp: validateRanges_def list_ex_iff split: if_splits)
    next
      case False
      have wf: "1 < length rs \<and> Last (hd rs) = lg \<and> wf_ranges rs"
        by (rule parsed_ranges_wf [OF valid shape(1)])
          (use shape(2,4) small first assms(2) False in \<open>auto dest: order_less_le_trans\<close>)
      have "First (last rs) \<le> Last (hd rs)"
        using wf_ranges_last [OF _ shape(1)] wf by blast
      then show ?thesis using wf shape by simp
    qed
  qed
  then show "lo \<le> lg" "rs \<noteq> [] \<Longrightarrow>
      1 < length rs \<and> Last (hd rs) = lg \<and> First (last rs) = lo \<and> wf_ranges rs" by auto
qed

end
