(* ===== verification/AckFrames.thy ===== *)
theory AckFrames
  imports AckRanges
begin

text \<open>
  ACK frames (\<open>internal/wire/ack_frame.go\<close>), on top of the range lists of
  \<open>AckRanges\<close>.  \<open>AckFrame_Write\<close> gets the current time as an argument: the method sets
  \<open>DelayTime\<close> to the time since the largest packet arrived, so the definition gives the
  frame after the call next to the bytes written.
\<close>

section \<open>ACK\<close>

record AckFrame =
  af_PathID :: PathID
  af_LargestAcked :: PacketNumber
  af_LowestAcked :: PacketNumber
  af_AckRanges :: "AckRange list"
  af_PacketReceivedTime :: time
  af_DelayTime :: duration

definition AckFrame_HasMissingRanges :: "AckFrame \<Rightarrow> bool" where
  "AckFrame_HasMissingRanges f = hasMissingRanges (af_AckRanges f)"

definition AckFrame_validateAckRanges :: "AckFrame \<Rightarrow> bool" where
  "AckFrame_validateAckRanges f = validateRanges (af_LargestAcked f) (af_AckRanges f)"

definition AckFrame_numWritableNackRanges :: "AckFrame \<Rightarrow> u64" where
  "AckFrame_numWritableNackRanges f = numWritableRanges (af_AckRanges f)"

definition AckFrame_getMissingSequenceNumberDeltaLen :: "AckFrame \<Rightarrow> PacketNumberLen" where
  "AckFrame_getMissingSequenceNumberDeltaLen f =
     missingDeltaLen (af_LargestAcked f) (af_LowestAcked f) (af_AckRanges f)"

definition AckFrame_AcksPacket :: "AckFrame \<Rightarrow> PacketNumber \<Rightarrow> bool" where
  "AckFrame_AcksPacket f p =
     acksPacket (af_LargestAcked f) (af_LowestAcked f) (af_AckRanges f) p"

fun skipTimestampDeltas :: "ByteOrder \<Rightarrow> nat \<Rightarrow> byte list \<Rightarrow> unit parsed" where
  "skipTimestampDeltas bo 0 r = Inr ((), r)"
| "skipTimestampDeltas bo (Suc n) r =
     rbind (ReadByte r) (\<lambda>_ r. rbind (ReadUint16 bo r) (\<lambda>_ r. skipTimestampDeltas bo n r))"

definition skipTimestamps :: "ByteOrder \<Rightarrow> byte list \<Rightarrow> unit parsed" where
  "skipTimestamps bo r =
     rbind (ReadByte r) (\<lambda>numTimestamp r.
       if numTimestamp > 0
       then rbind (ReadByte r) (\<lambda>_ r. rbind (ReadUint32 bo r) (\<lambda>_ r.
         skipTimestampDeltas bo (unat numTimestamp - 1) r))
       else Inr ((), r))"

definition parseAckFields ::
  "ByteOrder \<Rightarrow> bool \<Rightarrow> bool \<Rightarrow> byte \<Rightarrow> byte \<Rightarrow> byte list \<Rightarrow> AckFrame parsed" where
  "parseAckFields bo hasMissing hasPathID largestAckedLen deltaLen r =
     rbind (if hasPathID then ReadByte r else Inr (0, r)) (\<lambda>pathID r.
     rbind (ReadUintN bo r largestAckedLen) (\<lambda>largestAcked r.
     rbind (ReadUfloat16 bo r) (\<lambda>delay r.
     rbind (if hasMissing then ReadByte r else Inr (0, r)) (\<lambda>numAckBlocks r.
       if hasMissing \<and> numAckBlocks = 0 then Inl ErrInvalidAckRanges
       else rbind (parseAckBlocks bo hasMissing deltaLen numAckBlocks largestAcked r)
         (\<lambda>(ackRanges, lowestAcked) r.
         rbind (skipTimestamps bo r) (\<lambda>_ r.
           Inr (\<lparr>af_PathID = pathID, af_LargestAcked = largestAcked, af_LowestAcked = lowestAcked,
                 af_AckRanges = ackRanges, af_PacketReceivedTime = 0,
                 af_DelayTime = uint delay * Microsecond\<rparr>, r)))))))"

text \<open>The width a two-bit field stands for.\<close>

definition fieldLen :: "byte \<Rightarrow> byte" where
  "fieldLen bits = (let len = 2 * bits in if len = 0 then 1 else len)"

definition ParseAckFrame :: "byte list \<Rightarrow> VersionNumber \<Rightarrow> AckFrame parsed" where
  "ParseAckFrame r version =
     rbind (ReadByte r) (\<lambda>typeByte r.
       parseAckFields (GetByteOrder version) (typeByte AND 0x20 = 0x20) (typeByte AND 0x10 = 0x10)
         (fieldLen (drop_bit 2 (typeByte AND 0x0C))) (fieldLen (typeByte AND 0x03)) r)"

definition AckFrame_typeByte :: "PacketNumberLen \<Rightarrow> PacketNumberLen \<Rightarrow> bool \<Rightarrow> bool \<Rightarrow> byte" where
  "AckFrame_typeByte largestAckedLen deltaLen hasMissing hasPathID =
     (let typeByte = 0x40;
          typeByte = (if largestAckedLen \<noteq> PacketNumberLen1
                      then typeByte XOR push_bit 2 (largestAckedLen div 2) else typeByte);
          typeByte = (if deltaLen \<noteq> PacketNumberLen1 then typeByte XOR (deltaLen div 2) else typeByte);
          typeByte = (if hasMissing then typeByte OR 0x20 else typeByte)
      in if hasPathID then typeByte OR 0x10 else typeByte)"

definition AckFrame_Write ::
  "AckFrame \<Rightarrow> VersionNumber \<Rightarrow> time \<Rightarrow> AckFrame \<times> byte list result" where
  "AckFrame_Write f version now =
     (let bo = GetByteOrder version;
          w48 = (\<lambda>x. WriteUint48 bo (x AND mask 48));
          largestAckedLen = GetPacketNumberLength (af_LargestAcked f);
          deltaLen = AckFrame_getMissingSequenceNumberDeltaLen f;
          typeByte = AckFrame_typeByte largestAckedLen deltaLen (AckFrame_HasMissingRanges f)
            (af_PathID f \<noteq> InitialPathID);
          f = f\<lparr>af_DelayTime := timeSub now (af_PacketReceivedTime f)\<rparr>;
          numRanges = (if AckFrame_HasMissingRanges f then AckFrame_numWritableNackRanges f else 0)
      in (f,
          wbind (writeField bo w48 largestAckedLen (af_LargestAcked f)) (\<lambda>largestAcked.
          if numRanges > 0xFF then Inl (GoPanic ''AckFrame: Too many ACK ranges'')
          else wbind (writeAckBlocks ''BUG: Inconsistent number of ACK ranges written''
              (writeField bo w48 deltaLen) numRanges
              (af_LargestAcked f) (af_LowestAcked f) (af_AckRanges f)) (\<lambda>blocks.
            Inr ([typeByte]
              @ (if af_PathID f \<noteq> InitialPathID then [af_PathID f] else [])
              @ largestAcked
              @ WriteUfloat16 bo (word_of_int (go_quot (af_DelayTime f) Microsecond))
              @ (if AckFrame_HasMissingRanges f then [ucast (numRanges - 1)] else [])
              @ blocks
              @ [0])))))"

definition AckFrame_MinLength :: "AckFrame \<Rightarrow> VersionNumber \<Rightarrow> ByteCount result" where
  "AckFrame_MinLength f version =
     (let length = 1 + 2 + 1;
          length = length + ucast (GetPacketNumberLength (af_LargestAcked f));
          deltaLen = ucast (AckFrame_getMissingSequenceNumberDeltaLen f);
          length = (if AckFrame_HasMissingRanges f
                    then length + (1 + deltaLen) * AckFrame_numWritableNackRanges f
                    else length + deltaLen);
          length = length + (1 + 2) * 0;
          length = (if af_PathID f \<noteq> InitialPathID then length + 1 else length)
      in Inr length)"

section \<open>Round trips\<close>

lemma pnLen_cases: "GetPacketNumberLength pn \<in> {1, 2, 4, 6}" "missingDeltaLen lg lo rs \<in> {1, 2, 4, 6}"
  using missingDeltaLen_valid [of lg lo rs]
  by (auto simp: GetPacketNumberLength_cases valid_PacketNumberLen_def packet_number_len_defs
      simp del: insert_iff intro: GetPacketNumberLength_cases)

lemma AckFrame_typeByte_fields:
  fixes hm hp :: bool
  assumes "a \<in> {1, 2, 4, 6 :: byte}" "d \<in> {1, 2, 4, 6 :: byte}"
  defines "t \<equiv> AckFrame_typeByte a d hm hp"
  shows "t AND 0x20 = 0x20 \<longleftrightarrow> hm" "t AND 0x10 = 0x10 \<longleftrightarrow> hp"
    "fieldLen (drop_bit 2 (t AND 0x0C)) = a" "fieldLen (t AND 0x03) = d" "t AND 0xc0 = 0x40"
  using assms(1,2) unfolding t_def
  by (cases hm; cases hp; auto simp: AckFrame_typeByte_def fieldLen_def packet_number_len_defs Let_def)+

lemma largestAcked_field:
  assumes "unat lg < 2 ^ 48"
  shows "writeField bo (\<lambda>x. WriteUint48 bo (x AND mask 48)) (GetPacketNumberLength lg) lg =
      Inr (bo_enc bo (unat (GetPacketNumberLength lg)) (unat lg))" (is ?A)
    and "writeField bo (WriteUint48 bo) (GetPacketNumberLength lg) lg =
      Inr (bo_enc bo (unat (GetPacketNumberLength lg)) (unat lg))" (is ?B)
    and "ReadUintN bo (bo_enc bo (unat (GetPacketNumberLength lg)) (unat lg) @ r)
      (GetPacketNumberLength lg) = Inr (lg, r)" (is ?C)
proof -
  have v: "valid_PacketNumberLen (GetPacketNumberLength lg)"
    using pnLen_cases(1) [of lg] by (auto simp: valid_PacketNumberLen_def packet_number_len_defs)
  show ?A by (rule writeField_enc [OF v]) (simp add: write_field_6)
  show ?B by (rule writeField_enc [OF v]) (use assms in \<open>simp add: bo.fits_ok [OF bo.w48]\<close>)
  have "unat lg < 256 ^ unat (GetPacketNumberLength lg)"
    using assms by (simp add: GetPacketNumberLength_def packet_number_len_defs word_less_nat_alt)
  then show ?C using pnLen_cases(1) [of lg] by (intro bo.rN_enc) auto
qed

definition ackDelay :: "time \<Rightarrow> AckFrame \<Rightarrow> u64" where
  "ackDelay now f = word_of_int (go_quot (timeSub now (af_PacketReceivedTime f)) Microsecond)"

text \<open>What the receiver of an ACK frame sees.\<close>

definition AckFrame_seen :: "time \<Rightarrow> AckFrame \<Rightarrow> AckFrame" where
  "AckFrame_seen now f =
     f\<lparr>af_LowestAcked := sentLowest (af_LowestAcked f) (af_AckRanges f),
       af_AckRanges := sentRanges (af_AckRanges f), af_PacketReceivedTime := 0,
       af_DelayTime := uint (decodeUfloat16 (encodeUfloat16 (ackDelay now f))) * Microsecond\<rparr>"

definition AckFrame_ok :: "AckFrame \<Rightarrow> VersionNumber \<Rightarrow> bool" where
  "AckFrame_ok f v \<longleftrightarrow>
     frame_ranges_ok (af_LargestAcked f) (af_LowestAcked f) (af_AckRanges f) \<and>
     first_gap_fits (af_AckRanges f)"

lemma AckFrame_Write_ok:
  assumes "AckFrame_ok f v"
  shows "snd (AckFrame_Write f v now) = Inr (AckFrame_typeByte (GetPacketNumberLength (af_LargestAcked f))
      (missingDeltaLen (af_LargestAcked f) (af_LowestAcked f) (af_AckRanges f))
      (hasMissingRanges (af_AckRanges f)) (af_PathID f \<noteq> InitialPathID)
    # (if af_PathID f \<noteq> InitialPathID then [af_PathID f] else [])
    @ bo_enc (GetByteOrder v) (unat (GetPacketNumberLength (af_LargestAcked f))) (unat (af_LargestAcked f))
    @ WriteUfloat16 (GetByteOrder v) (ackDelay now f)
    @ (if hasMissingRanges (af_AckRanges f) then [ucast (numFrameRanges (af_AckRanges f) - 1)] else [])
    @ ackBlocksBytes (GetByteOrder v)
        (missingDeltaLen (af_LargestAcked f) (af_LowestAcked f) (af_AckRanges f))
        (af_LargestAcked f) (af_LowestAcked f) (af_AckRanges f) @ [0])"
proof -
  have ok: "frame_ranges_ok (af_LargestAcked f) (af_LowestAcked f) (af_AckRanges f)"
    and fit: "first_gap_fits (af_AckRanges f)" using assms by (auto simp: AckFrame_ok_def)
  have lg: "unat (af_LargestAcked f) < 2 ^ 48" using ok by (simp add: frame_ranges_ok_def)
  note w = masked.writeAckBlocks_frame [OF ok fit] largestAcked_field(1) [OF lg]
  have n: "\<not> 255 < numFrameRanges (af_AckRanges f)" using frame_numRanges(1) [OF ok fit] by simp
  have num: "(if hasMissingRanges (af_AckRanges f) then numWritableRanges (af_AckRanges f) else 0)
      = numFrameRanges (af_AckRanges f)" by (simp add: numFrameRanges_def)
  have sel: "af_AckRanges (f\<lparr>af_DelayTime := x\<rparr>) = af_AckRanges f"
    "af_LargestAcked (f\<lparr>af_DelayTime := x\<rparr>) = af_LargestAcked f"
    "af_LowestAcked (f\<lparr>af_DelayTime := x\<rparr>) = af_LowestAcked f"
    "af_PathID (f\<lparr>af_DelayTime := x\<rparr>) = af_PathID f"
    "af_DelayTime (f\<lparr>af_DelayTime := x\<rparr>) = x" for x by simp_all
  show ?thesis
    unfolding AckFrame_Write_def Let_def AckFrame_getMissingSequenceNumberDeltaLen_def
      AckFrame_HasMissingRanges_def AckFrame_numWritableNackRanges_def
    by (simp only: sel num w wbind_Inr n if_False snd_conv)
      (simp add: ackDelay_def)
qed

lemma skipTimestamps_none [simp]: "skipTimestamps bo (0 # r) = Inr ((), r)"
  by (simp add: skipTimestamps_def)

lemma leaves_parseBlocks [leaves_intros]: "length b \<le> n \<Longrightarrow> leaves n (parseBlocks bo d k s b)"
  by (induction k arbitrary: s b) (simp, intro leaves_intros; simp)+

lemma leaves_parseAckBlocks [leaves_intros]:
  "length b \<le> n \<Longrightarrow> leaves n (parseAckBlocks bo hm d k lg b)"
  unfolding parseAckBlocks_def parseRanges_def Let_def split_def by (intro leaves_intros; simp)

lemma leaves_skipTimestamps [leaves_intros]: "length b \<le> n \<Longrightarrow> leaves n (skipTimestamps bo b)"
proof -
  have "length b \<le> n \<Longrightarrow> leaves n (skipTimestampDeltas bo k b)" for k b
    by (induction k arbitrary: b) (simp, intro leaves_intros; simp)+
  then show "length b \<le> n \<Longrightarrow> leaves n (skipTimestamps bo b)"
    unfolding skipTimestamps_def by (intro leaves_intros; simp)
qed

lemma AckFrame_seen_eq:
  "AckFrame_seen now f = \<lparr>af_PathID = af_PathID f, af_LargestAcked = af_LargestAcked f,
     af_LowestAcked = sentLowest (af_LowestAcked f) (af_AckRanges f),
     af_AckRanges = sentRanges (af_AckRanges f), af_PacketReceivedTime = 0,
     af_DelayTime = uint (decodeUfloat16 (encodeUfloat16 (ackDelay now f))) * Microsecond\<rparr>"
  by (cases f) (simp add: AckFrame_seen_def)

lemma AckFrame_parse_ok:
  assumes "AckFrame_ok f v" "snd (AckFrame_Write f v now) = Inr bs"
  shows "ParseAckFrame (bs @ r) v = Inr (AckFrame_seen now f, r)"
proof -
  have ok: "frame_ranges_ok (af_LargestAcked f) (af_LowestAcked f) (af_AckRanges f)"
    and fit: "first_gap_fits (af_AckRanges f)" using assms by (auto simp: AckFrame_ok_def)
  have lg: "unat (af_LargestAcked f) < 2 ^ 48" using ok by (simp add: frame_ranges_ok_def)
  note t = AckFrame_typeByte_fields [OF pnLen_cases(1) [of "af_LargestAcked f"] pnLen_cases(2),
      of "af_LargestAcked f" "af_LowestAcked f" "af_AckRanges f" "hasMissingRanges (af_AckRanges f)"
      "af_PathID f \<noteq> InitialPathID"]
  note pb = masked.parseAckBlocks_frame [OF ok fit, where bo = "GetByteOrder v"]
  have nz: "hasMissingRanges (af_AckRanges f) \<Longrightarrow> (ucast (numFrameRanges (af_AckRanges f) - 1) :: byte) \<noteq> 0"
    using frame_numRanges(3) [OF ok fit] by (auto simp: hasMissingRanges_def)
  have pf: "parseAckFields (GetByteOrder v) (hasMissingRanges (af_AckRanges f))
      (af_PathID f \<noteq> InitialPathID) (GetPacketNumberLength (af_LargestAcked f))
      (missingDeltaLen (af_LargestAcked f) (af_LowestAcked f) (af_AckRanges f)) (tl bs @ r)
    = Inr (AckFrame_seen now f, r)"
    using assms(2) pb nz unfolding AckFrame_Write_ok [OF assms(1)]
    by (cases "hasMissingRanges (af_AckRanges f)"; cases "af_PathID f = InitialPathID")
      (auto simp: parseAckFields_def largestAcked_field(3) [OF lg] AckFrame_seen_eq
        InitialPathID_def)
  then show ?thesis
    using assms(2) unfolding AckFrame_Write_ok [OF assms(1)]
    by (auto simp only: ParseAckFrame_def append_Cons ReadByte.simps rbind_Inr t list.sel sum.inject)
qed

lemma ParseAckFrame_progress:
  "ParseAckFrame b v = Inr (f, r) \<Longrightarrow> length r < length b"
  unfolding ParseAckFrame_def
  by (erule type_byte_progress)
    (unfold parseAckFields_def split_def, intro leaves_intros; simp)

lemma length_encBlocks: "length (encBlocks bo n bl) = length bl * (1 + unat n)"
  by (induction bl) auto

lemma length_ackBlocksBytes:
  assumes "frame_ranges_ok lg lo rs" "first_gap_fits rs"
  shows "length (ackBlocksBytes bo n lg lo rs) + (if hasMissingRanges rs then 1 else 0) =
    (if hasMissingRanges rs then (1 + unat n) * unat (numFrameRanges rs) else unat n)"
proof (cases rs)
  case Nil
  then show ?thesis by (simp add: hasMissingRanges_def)
next
  case (Cons a rs')
  have wf: "wf_ranges (a # rs')" using assms(1) Cons by (simp add: frame_ranges_ok_def)
  have "unat (numWritable_from a rs' 0) < 255" using unat_numWritable_from [of 0 a rs'] by simp
  then have "unat (numFrameRanges rs) = unat (numWritable_from a rs' 0) + 1"
    by (simp add: Cons numFrameRanges_def hasMissingRanges_def unat_word_ariths)
  then show ?thesis
    using numWritable_blocks [OF wf, of 0] by (simp add: Cons hasMissingRanges_def length_encBlocks)
qed

lemma length_WriteUfloat16 [simp]: "length (WriteUfloat16 bo d) = 2"
  by (simp add: Ufloat16_dispatch writeUfloat16_def)

lemma AckFrame_MinLength_ok:
  assumes "AckFrame_ok f v" "snd (AckFrame_Write f v now) = Inr bs"
  shows "AckFrame_MinLength f v = Inr (of_nat (length bs))"
proof -
  let ?rs = "af_AckRanges f"
  let ?n = "missingDeltaLen (af_LargestAcked f) (af_LowestAcked f) ?rs"
  have ok: "frame_ranges_ok (af_LargestAcked f) (af_LowestAcked f) ?rs" "first_gap_fits ?rs"
    using assms by (auto simp: AckFrame_ok_def)
  note len = length_ackBlocksBytes [OF ok, of "GetByteOrder v" ?n]
  show ?thesis
  proof (cases "hasMissingRanges ?rs")
    case True
    have e: "length bs = 4 + (if af_PathID f \<noteq> InitialPathID then 1 else 0)
        + unat (GetPacketNumberLength (af_LargestAcked f)) + (1 + unat ?n) * unat (numFrameRanges ?rs)"
      using assms(2) len True unfolding AckFrame_Write_ok [OF assms(1)] by auto
    show ?thesis
      using True unfolding e
      by (simp add: AckFrame_MinLength_def AckFrame_HasMissingRanges_def numFrameRanges_def
          AckFrame_getMissingSequenceNumberDeltaLen_def AckFrame_numWritableNackRanges_def distrib_right)
  next
    case False
    have e: "length bs = 4 + (if af_PathID f \<noteq> InitialPathID then 1 else 0)
        + unat (GetPacketNumberLength (af_LargestAcked f)) + unat ?n"
      using assms(2) len False unfolding AckFrame_Write_ok [OF assms(1)] by auto
    show ?thesis
      using False unfolding e
      by (simp add: AckFrame_MinLength_def AckFrame_HasMissingRanges_def numFrameRanges_def
          AckFrame_getMissingSequenceNumberDeltaLen_def AckFrame_numWritableNackRanges_def)
  qed
qed

interpretation ack: frame_codec "\<lambda>f v. snd (AckFrame_Write f v now)" AckFrame_MinLength ParseAckFrame
  AckFrame_ok "AckFrame_seen now" "\<lambda>t. t AND 0xc0 = 0x40" for now
proof
  fix f v assume ok: "AckFrame_ok f v"
  then show "\<exists>t bs. snd (AckFrame_Write f v now) = Inr (t # bs) \<and> t AND 0xc0 = 0x40 \<and>
      AckFrame_MinLength f v = Inr (of_nat (length (t # bs)))"
    using AckFrame_Write_ok [OF ok, of now] AckFrame_MinLength_ok [OF ok, of now]
      AckFrame_typeByte_fields(5) [OF pnLen_cases] by blast
qed (rule AckFrame_parse_ok ParseAckFrame_progress, assumption+)+

lemma fitCount_max:
  assumes "wf_ranges (a # rs)" "acc < 255"
  shows "acc + length (rangesBlocks a (take (fitCount a rs acc) rs)) < 255 \<and>
    (fitCount a rs acc < length rs \<longrightarrow> 255 \<le> acc + length (rangesBlocks a (take (Suc (fitCount a rs acc)) rs)))"
  using assms
proof (induction rs arbitrary: a acc)
  case (Cons b rs)
  have gap: "0 < unat (rangeGap a b)" using Cons.prems(1) by (simp add: wf_ranges_Cons unat_rangeGap)
  have wf: "wf_ranges (b # rs)" using Cons.prems(1) by (simp add: wf_ranges_Cons)
  show ?case
    using Cons.IH [OF wf, of "acc + unat (gapBlocks (rangeGap a b))"] Cons.prems(2) gap
    by (auto simp: length_rangeBlocks Let_def add.assoc not_less)
qed simp

lemma acksPacket_ranges:
  "rs \<noteq> [] \<Longrightarrow> acksPacket lg lo rs p \<longleftrightarrow>
     lo \<le> p \<and> p \<le> lg \<and> (\<exists>r\<in>set rs. First r \<le> p \<and> p \<le> Last r)"
  by (auto simp: acksPacket_def hasMissingRanges_def list_ex_iff not_less)

lemma wf_ranges_bounds:
  assumes "wf_ranges rs" "r \<in> set rs"
  shows "First (last rs) \<le> First r \<and> Last r \<le> Last (hd rs)"
proof -
  obtain xs ys where s: "rs = xs @ r # ys" using assms(2) split_list by metis
  have le: "First x \<le> Last x" if "x \<in> set rs" for x using assms(1) that by (simp add: wf_ranges_def)
  have "First (last rs) \<le> First r"
  proof (cases "ys = []")
    case False
    then have "last rs \<in> set ys" using s by auto
    then have "unat (Last (last rs)) + 1 < unat (First r)"
      using assms(1) s by (auto simp: wf_ranges_def sorted_wrt_append)
    moreover have "First (last rs) \<le> Last (last rs)" using le [of "last rs"] s by simp
    ultimately show ?thesis unfolding word_le_nat_alt by linarith
  qed (simp add: s)
  moreover have "Last r \<le> Last (hd rs)"
  proof (cases xs)
    case (Cons x xs')
    then have "unat (Last r) + 1 < unat (First x)" "hd rs = x"
      using assms(1) s by (auto simp: wf_ranges_def)
    then show ?thesis using le [of x] s Cons by (simp add: word_le_nat_alt)
  qed (simp add: s)
  ultimately show ?thesis by simp
qed

lemma sentRanges_acks:
  assumes "frame_ranges_ok lg lo rs"
  shows "acksPacket lg (sentLowest lo rs) (sentRanges rs) p \<longleftrightarrow> acksPacket lg lo rs p \<and> sentLowest lo rs \<le> p"
proof (cases rs)
  case Nil
  then show ?thesis by (auto simp: sentLowest_def acksPacket_def hasMissingRanges_def)
next
  case (Cons a rs')
  let ?k = "Suc (fitCount a rs' 0)"
  have st: "sentRanges rs = take ?k rs" "sentRanges rs \<noteq> []" "rs \<noteq> []" using Cons by simp_all
  have wf: "wf_ranges rs" "First (last rs) = lo" using assms Cons by (auto simp: frame_ranges_ok_def)
  have low: "sentLowest lo rs = First (last (take ?k rs))" using st(1,3) by (simp add: sentLowest_def)
  have below: "Last r < sentLowest lo rs" if "r \<in> set (drop ?k rs)" for r
  proof -
    have "sorted_wrt (\<lambda>x y. unat (Last y) + 1 < unat (First x)) (take ?k rs @ drop ?k rs)"
      using wf(1) by (simp only: append_take_drop_id wf_ranges_def)
    moreover have "last (take ?k rs) \<in> set (take ?k rs)" using st by (metis last_in_set)
    ultimately have "unat (Last r) + 1 < unat (First (last (take ?k rs)))" using that unfolding sorted_wrt_append by blast
    then show ?thesis by (simp add: low word_less_nat_alt)
  qed
  have sub: "set rs = set (take ?k rs) \<union> set (drop ?k rs)" by (metis append_take_drop_id set_append)
  have bnd: "lo \<le> First r" if "r \<in> set rs" for r using wf_ranges_bounds [OF wf(1) that] wf(2) by simp
  show ?thesis
  proof
    assume "acksPacket lg (sentLowest lo rs) (sentRanges rs) p"
    then obtain r where r: "sentLowest lo rs \<le> p" "p \<le> lg" "r \<in> set (take ?k rs)" "First r \<le> p" "p \<le> Last r"
      using acksPacket_ranges [OF st(2)] unfolding st(1) by auto
    then have "r \<in> set rs" using sub by blast
    then show "acksPacket lg lo rs p \<and> sentLowest lo rs \<le> p"
      using r bnd [of r] acksPacket_ranges [OF st(3)] by (auto intro: order_trans)
  next
    assume "acksPacket lg lo rs p \<and> sentLowest lo rs \<le> p"
    then obtain r where r: "sentLowest lo rs \<le> p" "p \<le> lg" "r \<in> set rs" "First r \<le> p" "p \<le> Last r"
      using acksPacket_ranges [OF st(3)] by auto
    then have "r \<in> set (take ?k rs)" using below [of r] sub by (metis Un_iff leD order_trans)
    then show "acksPacket lg (sentLowest lo rs) (sentRanges rs) p"
      using r acksPacket_ranges [OF st(2)] unfolding st(1) by blast
  qed
qed

section \<open>Properties\<close>

text \<open>The ranges that the receiver sees are the longest prefix that needs less than 255 blocks.\<close>

lemma AckFrame_seen_ranges:
  assumes "frame_ranges_ok (af_LargestAcked f) (af_LowestAcked f) (af_AckRanges f)" "first_gap_fits (af_AckRanges f)"
    "af_AckRanges f = a # rs"
  defines "k \<equiv> Suc (fitCount a rs 0)"
  shows "1 < k" "k \<le> length (af_AckRanges f)" "af_AckRanges (AckFrame_seen now f) = take k (af_AckRanges f)"
    "af_LowestAcked (AckFrame_seen now f) = First (last (take k (af_AckRanges f)))"
    "length (rangesBlocks a (take (k - 1) rs)) < 255"
    "k < length (af_AckRanges f) \<Longrightarrow> 255 \<le> length (rangesBlocks a (take k rs))"
proof -
  have wf: "wf_ranges (a # rs)" using assms(1,3) by (simp add: frame_ranges_ok_def)
  have "fitCount a rs acc \<le> length rs" for acc
    by (induction rs arbitrary: a acc) (simp_all add: Let_def)
  then show "k \<le> length (af_AckRanges f)" by (simp add: k_def assms(3))
  show "1 < k" using assms(2,3) by (simp add: k_def)
  show "af_AckRanges (AckFrame_seen now f) = take k (af_AckRanges f)"
    "af_LowestAcked (AckFrame_seen now f) = First (last (take k (af_AckRanges f)))"
    using assms(3) by (simp_all add: AckFrame_seen_eq sentLowest_def k_def)
  show "length (rangesBlocks a (take (k - 1) rs)) < 255"
    "k < length (af_AckRanges f) \<Longrightarrow> 255 \<le> length (rangesBlocks a (take k rs))"
    using fitCount_max [OF wf, of 0] assms(3) by (simp_all add: k_def)
qed

text \<open>
  C11: ACK frames survive the wire.  For a frame with a largest acknowledged packet below
  2^48 and proper ranges, of which the first gap fits into the frame, the bytes written have
  the announced length and parse back to a frame \<open>g\<close> for the same path with the same largest
  packet.  Its delay is the time since the reception of that packet in whole microseconds,
  rounded to the 16-bit float.  Its ranges are the highest \<open>k\<close> ranges of the original, where
  \<open>k\<close> is at least 2 and as large as possible: the ranges below the first one need less than
  255 blocks, and with one more range they would need 255 or more.  The receiver takes
  exactly those packets as acknowledged that the original frame acknowledges, down to the
  first packet of the lowest range sent.
\<close>

theorem AckFrame_roundtrip:
  assumes "frame_ranges_ok (af_LargestAcked f) (af_LowestAcked f) (af_AckRanges f)"
    and "first_gap_fits (af_AckRanges f)"
  shows "\<exists>bs g k. snd (AckFrame_Write f v now) = Inr bs \<and>
    AckFrame_MinLength f v = Inr (of_nat (length bs)) \<and>
    ParseAckFrame (bs @ r) v = Inr (g, r) \<and>
    af_PathID g = af_PathID f \<and> af_LargestAcked g = af_LargestAcked f \<and>
    af_DelayTime g = uint (decodeUfloat16 (encodeUfloat16
      (word_of_int (go_quot (timeSub now (af_PacketReceivedTime f)) Microsecond)))) * Microsecond \<and>
    af_AckRanges g = take k (af_AckRanges f) \<and>
    (if af_AckRanges f = [] then af_LowestAcked g = af_LowestAcked f
     else 1 < k \<and> k \<le> length (af_AckRanges f) \<and> af_LowestAcked g = First (last (af_AckRanges g)) \<and>
       length (rangesBlocks (hd (af_AckRanges f)) (take (k - 1) (tl (af_AckRanges f)))) < 255 \<and>
       (k < length (af_AckRanges f) \<longrightarrow>
          255 \<le> length (rangesBlocks (hd (af_AckRanges f)) (take k (tl (af_AckRanges f)))))) \<and>
    (\<forall>p. AckFrame_AcksPacket g p \<longleftrightarrow> AckFrame_AcksPacket f p \<and> af_LowestAcked g \<le> p)"
proof -
  have ok: "AckFrame_ok f v" using assms by (simp add: AckFrame_ok_def)
  obtain bs where w: "snd (AckFrame_Write f v now) = Inr bs" using ack.write_total [OF ok] by blast
  let ?g = "AckFrame_seen now f"
  define k where "k = (case af_AckRanges f of [] \<Rightarrow> 0 | a # rs \<Rightarrow> Suc (fitCount a rs 0))"
  have ranges: "af_AckRanges ?g = take k (af_AckRanges f) \<and>
    (if af_AckRanges f = [] then af_LowestAcked ?g = af_LowestAcked f
     else 1 < k \<and> k \<le> length (af_AckRanges f) \<and> af_LowestAcked ?g = First (last (af_AckRanges ?g)) \<and>
       length (rangesBlocks (hd (af_AckRanges f)) (take (k - 1) (tl (af_AckRanges f)))) < 255 \<and>
       (k < length (af_AckRanges f) \<longrightarrow>
          255 \<le> length (rangesBlocks (hd (af_AckRanges f)) (take k (tl (af_AckRanges f))))))"
  proof (cases "af_AckRanges f")
    case Nil
    then show ?thesis by (simp add: AckFrame_seen_eq sentLowest_def)
  next
    case (Cons a rs)
    then have k: "k = Suc (fitCount a rs 0)" by (simp add: k_def)
    note s = AckFrame_seen_ranges [OF assms Cons, folded k]
    show ?thesis using s(1,2,5,6) s(3,4) [of now] by (simp add: Cons)
  qed
  have acks: "AckFrame_AcksPacket ?g p \<longleftrightarrow> AckFrame_AcksPacket f p \<and> af_LowestAcked ?g \<le> p" for p
    using sentRanges_acks [OF assms(1), of p] by (simp add: AckFrame_AcksPacket_def AckFrame_seen_eq)
  have fields: "af_PathID ?g = af_PathID f" "af_LargestAcked ?g = af_LargestAcked f"
    "af_DelayTime ?g = uint (decodeUfloat16 (encodeUfloat16
      (word_of_int (go_quot (timeSub now (af_PacketReceivedTime f)) Microsecond)))) * Microsecond"
    by (simp_all add: AckFrame_seen_eq ackDelay_def)
  show ?thesis
    using w AckFrame_MinLength_ok [OF ok w] AckFrame_parse_ok [OF ok w] ranges acks fields by blast
qed

theorem AckFrame_roundtrip_witness:
  "\<exists>bs g. snd (AckFrame_Write \<lparr>af_PathID = 3, af_LargestAcked = 10, af_LowestAcked = 2,
      af_AckRanges = [\<lparr>First = 8, Last = 10\<rparr>, \<lparr>First = 2, Last = 5\<rparr>],
      af_PacketReceivedTime = 5, af_DelayTime = 0\<rparr> VersionMP 2005) = Inr bs \<and>
    ParseAckFrame (bs @ [7]) VersionMP = Inr (g, [7]) \<and> af_PathID g = 3 \<and> af_LargestAcked g = 10 \<and>
    af_LowestAcked g = 2 \<and> af_DelayTime g = 2000 \<and>
    af_AckRanges g = [\<lparr>First = 8, Last = 10\<rparr>, \<lparr>First = 2, Last = 5\<rparr>]"
proof -
  let ?f = "\<lparr>af_PathID = 3, af_LargestAcked = 10, af_LowestAcked = 2,
      af_AckRanges = [\<lparr>First = 8, Last = 10\<rparr>, \<lparr>First = 2, Last = 5\<rparr>],
      af_PacketReceivedTime = 5, af_DelayTime = 0\<rparr> :: AckFrame"
  have d: "uint (decodeUfloat16 (encodeUfloat16 (word_of_int (go_quot (timeSub 2005 5) Microsecond)))) * Microsecond = 2000"
    by code_simp
  have "frame_ranges_ok (af_LargestAcked ?f) (af_LowestAcked ?f) (af_AckRanges ?f)"
    "first_gap_fits (af_AckRanges ?f)"
    by (simp_all add: frame_ranges_ok_def wf_ranges_def rangeGap_def gapBlocks_def)
  from AckFrame_roundtrip [OF this, of VersionMP 2005 "[7]"] show ?thesis
    by (auto simp: d)
qed

text \<open>
  C33: A long first gap cannot be acknowledged.  If more than 64770 packets are missing
  between the two highest ranges, \<open>Write\<close> returns the error about an inconsistent number of
  ranges, although the frame is proper.
\<close>

theorem AckFrame_Write_long_gap:
  assumes "frame_ranges_ok (af_LargestAcked f) (af_LowestAcked f) (af_AckRanges f)"
    and "af_AckRanges f = a # b # rs" "64770 < unat (First a) - unat (Last b) - 1"
  shows "snd (AckFrame_Write f v now) =
    Inl (GoError ''BUG: Inconsistent number of ACK ranges written'')"
proof -
  have wf: "unat (Last b) + 1 < unat (First a)"
    using assms(1,2) by (simp add: frame_ranges_ok_def wf_ranges_Cons)
  have "255 \<le> (unat (rangeGap a b) + 254) div 255"
    using assms(3) by (simp add: unat_rangeGap [OF wf] less_eq_div_iff_mult_less_eq)
  then have nofit: "\<not> first_gap_fits (af_AckRanges f)"
    by (simp add: assms(2) unat_gapBlocks Let_def)
  have lg: "unat (af_LargestAcked f) < 2 ^ 48" using assms(1) by (simp add: frame_ranges_ok_def)
  have "fitCount a (b # rs) 0 = 0" using nofit assms(2) by simp
  then have "numWritable_from a (b # rs) 0 = 0" using unat_numWritable_from [of 0 a "b # rs"] by simp
  then have num: "numWritableRanges (af_AckRanges f) = 1" "hasMissingRanges (af_AckRanges f)"
    by (simp_all add: assms(2) hasMissingRanges_def del: numWritable_from.simps)
  then have "numFrameRanges (af_AckRanges f) = 1" by (simp add: numFrameRanges_def)
  then show ?thesis
    using masked.writeAckBlocks_gap [OF assms(1) nofit] largestAcked_field(1) [OF lg] num
    by (simp add: AckFrame_Write_def Let_def AckFrame_getMissingSequenceNumberDeltaLen_def
      AckFrame_HasMissingRanges_def AckFrame_numWritableNackRanges_def)
qed

theorem AckFrame_Write_long_gap_witness:
  "snd (AckFrame_Write \<lparr>af_PathID = 0, af_LargestAcked = 70000, af_LowestAcked = 1,
      af_AckRanges = [\<lparr>First = 70000, Last = 70000\<rparr>, \<lparr>First = 1, Last = 2\<rparr>],
      af_PacketReceivedTime = 0, af_DelayTime = 0\<rparr> VersionMP 0) =
    Inl (GoError ''BUG: Inconsistent number of ACK ranges written'')"
  by (rule AckFrame_Write_long_gap [where a = "\<lparr>First = 70000, Last = 70000\<rparr>"
        and b = "\<lparr>First = 1, Last = 2\<rparr>" and rs = "[]"])
    (simp_all add: frame_ranges_ok_def wf_ranges_def)

lemma two_bits: "x AND 3 \<in> {0, 1, 2, 3 :: byte}"
proof -
  have "x AND 3 = take_bit 2 x" by (simp add: take_bit_eq_mask mask_eq_exp_minus_1)
  moreover have "unat (take_bit 2 x) < 4" by (simp only: unsigned_take_bit_eq) (simp add: take_bit_eq_mod)
  ultimately have "unat (x AND 3) = 0 \<or> unat (x AND 3) = 1 \<or> unat (x AND 3) = 2 \<or> unat (x AND 3) = 3"
    by simp arith
  then show ?thesis by (auto simp: word_unat_eq_iff)
qed

lemma fieldLen_cases:
  "fieldLen (t AND 0x03) \<in> {1, 2, 4, 6}" "fieldLen (drop_bit 2 (t AND 0x0C)) \<in> {1, 2, 4, 6}"
proof -
  show *: "fieldLen (t AND 0x03) \<in> {1, 2, 4, 6}" for t
    using two_bits [of t] by (auto simp: fieldLen_def)
  have "drop_bit 2 (t AND 0x0C) = drop_bit 2 t AND 3"
    by simp
  then show "fieldLen (drop_bit 2 (t AND 0x0C)) \<in> {1, 2, 4, 6}" using * [of "drop_bit 2 t"] by simp
qed

lemma parseAckFields_inv:
  assumes "parseAckFields bo hm hp la n b = Inr (f, r)"
  shows "\<exists>b1 b2 k b4 b5. ReadUintN bo b1 la = Inr (af_LargestAcked f, b2) \<and>
    parseAckBlocks bo hm n k (af_LargestAcked f) b4 = Inr ((af_AckRanges f, af_LowestAcked f), b5) \<and>
    (hm \<longrightarrow> k \<noteq> 0)"
  using assms unfolding parseAckFields_def
  by (fastforce simp: rbind_eq_Inr split: if_splits)

text \<open>
  C20: Whatever arrives, an accepted ACK frame is consistent.  If \<open>ParseAckFrame\<close> accepts
  any byte string, the largest acknowledged packet is below 2^48 and not below the lowest
  one; if there are ranges, there are at least two, they are descending, disjoint and not
  adjacent, they start at the largest and end at the lowest packet, and the frame
  acknowledges exactly the packets in the ranges.
\<close>

theorem ParseAckFrame_consistent:
  assumes "ParseAckFrame b v = Inr (f, r)"
  shows "unat (af_LargestAcked f) < 2 ^ 48 \<and> af_LowestAcked f \<le> af_LargestAcked f \<and>
    (af_AckRanges f \<noteq> [] \<longrightarrow> 1 < length (af_AckRanges f) \<and> wf_ranges (af_AckRanges f) \<and>
       Last (hd (af_AckRanges f)) = af_LargestAcked f \<and>
       First (last (af_AckRanges f)) = af_LowestAcked f) \<and>
    (\<forall>p. AckFrame_AcksPacket f p \<longleftrightarrow>
       (if af_AckRanges f = [] then af_LowestAcked f \<le> p \<and> p \<le> af_LargestAcked f
        else \<exists>r\<in>set (af_AckRanges f). First r \<le> p \<and> p \<le> Last r))"
proof -
  obtain hm hp la n b0 where pf: "parseAckFields (GetByteOrder v) hm hp la n b0 = Inr (f, r)"
    and len: "la \<in> {1, 2, 4, 6}" "n \<in> {1, 2, 4, 6}"
    using assms fieldLen_cases unfolding ParseAckFrame_def rbind_eq_Inr ReadByte_Inr by blast
  obtain b1 b2 k b4 b5 where rd: "ReadUintN (GetByteOrder v) b1 la = Inr (af_LargestAcked f, b2)"
    and bl: "parseAckBlocks (GetByteOrder v) hm n k (af_LargestAcked f) b4 =
      Inr ((af_AckRanges f, af_LowestAcked f), b5)" and k: "hm \<longrightarrow> k \<noteq> 0"
    using parseAckFields_inv [OF pf] by blast
  have "unat la \<le> 8" "(256 :: nat) ^ unat la \<le> 2 ^ 48" using len(1) by auto
  then have lg: "unat (af_LargestAcked f) < 2 ^ 48"
    using rd ReadUintN_Inr [of la "GetByteOrder v" b1] by (auto dest: order_less_le_trans)
  have n6: "unat n \<le> 6" using len(2) by auto
  have k0: "hm \<Longrightarrow> 0 < unat k" using k by (auto simp: unat_eq_zero intro!: gr0I)
  note wf = parseAckBlocks_wf [OF bl lg n6 k0]
  have acks: "AckFrame_AcksPacket f p \<longleftrightarrow>
       (if af_AckRanges f = [] then af_LowestAcked f \<le> p \<and> p \<le> af_LargestAcked f
        else \<exists>r\<in>set (af_AckRanges f). First r \<le> p \<and> p \<le> Last r)" for p
  proof (cases "af_AckRanges f = []")
    case True
    then show ?thesis by (auto simp: AckFrame_AcksPacket_def acksPacket_def hasMissingRanges_def)
  next
    case False
    have "af_LowestAcked f \<le> p \<and> p \<le> af_LargestAcked f"
      if "r \<in> set (af_AckRanges f)" "First r \<le> p" "p \<le> Last r" for r
      using wf_ranges_bounds [of "af_AckRanges f" r] wf(2) False that by auto
    then show ?thesis using False by (auto simp: AckFrame_AcksPacket_def acksPacket_ranges)
  qed
  show ?thesis using lg wf acks by simp
qed

theorem ParseAckFrame_consistent_witness:
  "\<exists>f. ParseAckFrame [0x60, 10, 0, 0, 1, 3, 2, 4, 0] Version37 = Inr (f, []) \<and>
     af_LowestAcked f \<le> af_LargestAcked f \<and> wf_ranges (af_AckRanges f)"
proof -
  let ?f = "\<lparr>af_PathID = 0, af_LargestAcked = 10, af_LowestAcked = 2,
      af_AckRanges = [\<lparr>First = 8, Last = 10\<rparr>, \<lparr>First = 2, Last = 5\<rparr>],
      af_PacketReceivedTime = 0, af_DelayTime = 0\<rparr> :: AckFrame"
  have "ParseAckFrame [0x60, 10, 0, 0, 1, 3, 2, 4, 0] Version37 = Inr (?f, [])" by code_simp
  with ParseAckFrame_consistent [OF this] show ?thesis by auto
qed

end
