(* ===== verification/ReceivedHistory.thy ===== *)
theory ReceivedHistory
  imports Utils AckFrames
begin

text \<open>
  The history of received packet numbers
  (\<open>ackhandler/received_packet_history.go\<close>).  The linked list of intervals is a
  list, front first, with ascending intervals; the loops that walk it from the back
  recurse on the reversed list.

  The locale \<open>packet_history\<close> is what the received packet handler relies on: the
  history stands for a set of packet numbers, receiving inserts into the set,
  \<open>DeleteUpTo\<close> removes an initial segment, and the ranges for an ACK frame cover
  exactly the set.  Its interpretation \<open>history\<close> shows that the interval list
  refines the set.
\<close>

section \<open>Definitions\<close>

record receivedPacketHistory =
  h_ranges :: "PacketInterval list"
  h_lowestInReceivedPacketNumbers :: PacketNumber

abbreviation (input) errTooManyOutstandingReceivedAckRanges :: go_error where
  "errTooManyOutstandingReceivedAckRanges \<equiv>
     QuicError TooManyOutstandingReceivedPackets ''Too many outstanding received ACK ranges''"

definition newReceivedPacketHistory :: receivedPacketHistory where
  "newReceivedPacketHistory = \<lparr>h_ranges = [], h_lowestInReceivedPacketNumbers = 0\<rparr>"

text \<open>
  The end of an iteration that has extended the interval \<open>el\<close>; \<open>before\<close> holds the
  intervals before it, the closest one first.
\<close>

fun mergeWithPrev :: "PacketInterval \<Rightarrow> PacketInterval list \<Rightarrow> PacketInterval list" where
  "mergeWithPrev el [] = [el]"
| "mergeWithPrev el (prev # before) =
     (if pi_End prev + 1 = pi_Start el then prev\<lparr>pi_End := pi_End el\<rparr> # before else el # prev # before)"

text \<open>The loop of \<open>ReceivedPacket\<close>, from the back of the list to its front.\<close>

fun receiveBack :: "PacketNumber \<Rightarrow> PacketInterval list \<Rightarrow> PacketInterval list" where
  "receiveBack p [] = [\<lparr>pi_Start = p, pi_End = p\<rparr>]"
| "receiveBack p (el # before) =
     (if p \<ge> pi_Start el \<and> p \<le> pi_End el then el # before
      else if pi_End el = p - 1 then mergeWithPrev (el\<lparr>pi_End := p\<rparr>) before
      else if pi_Start el = p + 1 then mergeWithPrev (el\<lparr>pi_Start := p\<rparr>) before
      else if p > pi_End el then \<lparr>pi_Start = p, pi_End = p\<rparr> # el # before
      else el # receiveBack p before)"

definition history_ReceivedPacket ::
    "PacketNumber \<Rightarrow> receivedPacketHistory \<Rightarrow> receivedPacketHistory \<times> go_error option" where
  "history_ReceivedPacket p h =
     (if length (h_ranges h) \<ge> MaxTrackedReceivedAckRanges
      then (h, Some errTooManyOutstandingReceivedAckRanges)
      else if length (h_ranges h) = 0
      then (h\<lparr>h_ranges := [\<lparr>pi_Start = p, pi_End = p\<rparr>]\<rparr>, None)
      else (h\<lparr>h_ranges := rev (receiveBack p (rev (h_ranges h)))\<rparr>, None))"

fun deleteRanges :: "PacketNumber \<Rightarrow> PacketInterval list \<Rightarrow> PacketInterval list" where
  "deleteRanges p [] = []"
| "deleteRanges p (el # after) =
     (if p \<ge> pi_Start el \<and> p < pi_End el then el\<lparr>pi_Start := p + 1\<rparr> # deleteRanges p after
      else if pi_End el \<le> p then deleteRanges p after
      else el # after)"

definition DeleteUpTo :: "PacketNumber \<Rightarrow> receivedPacketHistory \<Rightarrow> receivedPacketHistory" where
  "DeleteUpTo p h =
     h\<lparr>h_lowestInReceivedPacketNumbers := MaxPacketNumber (h_lowestInReceivedPacketNumbers h) (p + 1),
       h_ranges := deleteRanges p (h_ranges h)\<rparr>"

definition GetAckRanges :: "receivedPacketHistory \<Rightarrow> AckRange list" where
  "GetAckRanges h = map (\<lambda>el. \<lparr>First = pi_Start el, Last = pi_End el\<rparr>) (rev (h_ranges h))"

definition GetHighestAckRange :: "receivedPacketHistory \<Rightarrow> AckRange" where
  "GetHighestAckRange h =
     (if length (h_ranges h) > 0
      then let r = last (h_ranges h) in \<lparr>First = pi_Start r, Last = pi_End r\<rparr>
      else \<lparr>First = 0, Last = 0\<rparr>)"

section \<open>Intervals as sets\<close>

definition ivl :: "PacketInterval \<Rightarrow> PacketNumber set" where
  "ivl r = {pi_Start r..pi_End r}"

definition covered :: "PacketInterval list \<Rightarrow> PacketNumber set" where
  "covered rs = (\<Union>r\<in>set rs. ivl r)"

text \<open>Well-formed interval lists, back first: positive, descending and not adjacent.\<close>

definition desc_ok :: "PacketInterval list \<Rightarrow> bool" where
  "desc_ok rs \<longleftrightarrow> (\<forall>r\<in>set rs. 0 < pi_Start r \<and> pi_Start r \<le> pi_End r) \<and>
     sorted_wrt (\<lambda>a b. unat (pi_End b) + 1 < unat (pi_Start a)) rs"

lemma covered_Nil [simp]: "covered [] = {}"
  and covered_Cons [simp]: "covered (r # rs) = ivl r \<union> covered rs"
  and covered_append [simp]: "covered (rs @ ss) = covered rs \<union> covered ss"
  and covered_rev [simp]: "covered (rev rs) = covered rs"
  by (auto simp: covered_def)

lemma desc_ok_Nil [simp]: "desc_ok []"
  by (simp add: desc_ok_def)

lemma desc_ok_Cons [simp]:
  "desc_ok (a # rs) \<longleftrightarrow> 0 < pi_Start a \<and> pi_Start a \<le> pi_End a \<and> desc_ok rs \<and>
     (\<forall>b\<in>set rs. unat (pi_End b) + 1 < unat (pi_Start a))"
  by (auto simp: desc_ok_def)

lemma next_iff: "p \<noteq> 0 \<Longrightarrow> e = p - 1 \<longleftrightarrow> unat e + 1 = unat p" for e p :: u64
proof -
  assume "p \<noteq> 0"
  then have "unat (p - 1) + 1 = unat p"
    by (metis Suc_eq_plus1 Suc_pred' unat_minus_one unat_gt_0)
  then show ?thesis by (auto simp: word_unat_eq_iff)
qed

lemma succ_iff: "0 < s \<Longrightarrow> s = p + 1 \<longleftrightarrow> unat s = unat p + 1" for s p :: u64
proof -
  assume "0 < s"
  then show ?thesis using next_iff [of s p] by auto
qed

lemma ivl_extend:
  fixes s e p :: PacketNumber
  assumes "s \<le> e"
  shows "unat e + 1 = unat p \<Longrightarrow> {s..p} = insert p {s..e}"
    and "unat s = unat p + 1 \<Longrightarrow> {p..e} = insert p {s..e}"
  using assms by (auto simp: word_le_nat_alt word_unat_eq_iff)

lemma ivl_join:
  fixes s e s' e' :: PacketNumber
  assumes "s \<le> e" "s' \<le> e'" "unat e + 1 = unat s'"
  shows "{s..e'} = {s..e} \<union> {s'..e'}"
  using assms by (auto simp: word_le_nat_alt)

lemma mergeWithPrev_ok:
  assumes "0 < pi_Start el" "pi_Start el \<le> pi_End el" "desc_ok rs"
    and "\<forall>b\<in>set rs. unat (pi_End b) < unat (pi_Start el)"
  shows "desc_ok (mergeWithPrev el rs)" "covered (mergeWithPrev el rs) = ivl el \<union> covered rs"
    and "b \<in> set (mergeWithPrev el rs) \<Longrightarrow> pi_End b = pi_End el \<or> b \<in> set rs"
proof -
  have *: "desc_ok (mergeWithPrev el rs) \<and> covered (mergeWithPrev el rs) = ivl el \<union> covered rs \<and>
    (\<forall>b \<in> set (mergeWithPrev el rs). pi_End b = pi_End el \<or> b \<in> set rs)"
  proof (cases rs)
    case Nil
    then show ?thesis using assms by simp
  next
    case (Cons prev rs')
    have "pi_End prev + 1 = pi_Start el \<longleftrightarrow> unat (pi_End prev) + 1 = unat (pi_Start el)"
      using succ_iff [OF assms(1), of "pi_End prev"] by auto
    moreover have "ivl (prev\<lparr>pi_End := pi_End el\<rparr>) = ivl prev \<union> ivl el"
      if "unat (pi_End prev) + 1 = unat (pi_Start el)"
      using ivl_join [OF _ assms(2) that] assms(3) Cons by (simp add: ivl_def)
    ultimately show ?thesis
      using assms Cons by (auto simp: word_le_nat_alt)
  qed
  then show "desc_ok (mergeWithPrev el rs)" "covered (mergeWithPrev el rs) = ivl el \<union> covered rs"
    "b \<in> set (mergeWithPrev el rs) \<Longrightarrow> pi_End b = pi_End el \<or> b \<in> set rs"
    by auto
qed

lemma receiveBack_ok:
  assumes "desc_ok rs" "p \<noteq> 0"
  shows "desc_ok (receiveBack p rs) \<and> covered (receiveBack p rs) = insert p (covered rs) \<and>
    (\<forall>b\<in>set (receiveBack p rs). pi_End b = p \<or> pi_End b \<in> pi_End ` set rs)"
  using assms(1)
proof (induction rs)
  case Nil
  then show ?case using assms(2) by (auto simp: ivl_def word_gt_0)
next
  case (Cons el rs)
  let ?s = "pi_Start el" and ?e = "pi_End el"
  have el: "0 < ?s" "?s \<le> ?e" "desc_ok rs" and below: "\<forall>b\<in>set rs. unat (pi_End b) + 1 < unat ?s"
    using Cons.prems by auto
  consider "?s \<le> p" "p \<le> ?e" | "unat ?e + 1 = unat p" | "unat ?s = unat p + 1"
    | "unat ?e + 1 < unat p" | "unat p + 1 < unat ?s"
    unfolding word_le_nat_alt by linarith
  then show ?case
  proof cases
    case 1
    then show ?thesis using Cons.prems by (auto simp: ivl_def)
  next
    case 2
    have r: "receiveBack p (el # rs) = mergeWithPrev (el\<lparr>pi_End := p\<rparr>) rs"
      using 2 el(2) next_iff [OF assms(2), of ?e] by (auto simp: word_le_nat_alt)
    have p: "?s \<le> p" using 2 el(2) by (simp add: word_le_nat_alt)
    have below': "\<forall>b\<in>set rs. unat (pi_End b) < unat ?s" using below by fastforce
    have m: "desc_ok (mergeWithPrev (el\<lparr>pi_End := p\<rparr>) rs)"
      "covered (mergeWithPrev (el\<lparr>pi_End := p\<rparr>) rs) = ivl (el\<lparr>pi_End := p\<rparr>) \<union> covered rs"
      "\<And>b. b \<in> set (mergeWithPrev (el\<lparr>pi_End := p\<rparr>) rs) \<Longrightarrow> pi_End b = p \<or> b \<in> set rs"
      using mergeWithPrev_ok [of "el\<lparr>pi_End := p\<rparr>" rs] el p below' by auto
    show ?thesis unfolding r using m ivl_extend(1) [OF el(2) 2] by (auto simp: ivl_def)
  next
    case 3
    have p0: "0 < p" using assms(2) by (simp add: word_gt_0)
    have r: "receiveBack p (el # rs) = mergeWithPrev (el\<lparr>pi_Start := p\<rparr>) rs"
      using 3 el(1,2) next_iff [OF assms(2), of ?e] succ_iff [OF el(1), of p]
      by (auto simp: word_le_nat_alt)
    have p: "p \<le> ?e" using 3 el(2) by (simp add: word_le_nat_alt)
    have below': "\<forall>b\<in>set rs. unat (pi_End b) < unat p" using below 3 by fastforce
    have m: "desc_ok (mergeWithPrev (el\<lparr>pi_Start := p\<rparr>) rs)"
      "covered (mergeWithPrev (el\<lparr>pi_Start := p\<rparr>) rs) = ivl (el\<lparr>pi_Start := p\<rparr>) \<union> covered rs"
      "\<And>b. b \<in> set (mergeWithPrev (el\<lparr>pi_Start := p\<rparr>) rs) \<Longrightarrow> pi_End b = ?e \<or> b \<in> set rs"
      using mergeWithPrev_ok [of "el\<lparr>pi_Start := p\<rparr>" rs] el p p0 below' by auto
    show ?thesis unfolding r using m ivl_extend(2) [OF el(2) 3] by (auto simp: ivl_def)
  next
    case 4
    have "receiveBack p (el # rs) = \<lparr>pi_Start = p, pi_End = p\<rparr> # el # rs"
      using 4 el next_iff [OF assms(2), of ?e] succ_iff [OF el(1), of p]
      by (auto simp: word_le_nat_alt word_less_nat_alt)
    then show ?thesis
      using Cons.prems 4 assms(2) below el(2) by (auto simp: ivl_def word_gt_0 word_le_nat_alt)
  next
    case 5
    have "receiveBack p (el # rs) = el # receiveBack p rs"
      using 5 el next_iff [OF assms(2), of ?e] succ_iff [OF el(1), of p]
      by (auto simp: word_le_nat_alt word_less_nat_alt)
    then show ?thesis using Cons.IH [OF el(3)] el below 5 by auto
  qed
qed

lemma desc_ok_rev_Cons:
  "desc_ok (rev rs @ [el]) \<longleftrightarrow> 0 < pi_Start el \<and> pi_Start el \<le> pi_End el \<and> desc_ok (rev rs) \<and>
     (\<forall>b\<in>set rs. unat (pi_End el) + 1 < unat (pi_Start b))"
  by (auto simp: desc_ok_def sorted_wrt_append)

lemma deleteRanges_above: "\<forall>b\<in>set rs. p < pi_Start b \<and> pi_Start b \<le> pi_End b \<Longrightarrow> deleteRanges p rs = rs"
  by (cases rs) auto

lemma deleteRanges_ok:
  assumes "desc_ok (rev rs)"
  shows "desc_ok (rev (deleteRanges p rs)) \<and> covered (deleteRanges p rs) = {q \<in> covered rs. p < q} \<and>
    pi_End ` set (deleteRanges p rs) \<subseteq> pi_End ` set rs"
  using assms
proof (induction rs)
  case (Cons el rs)
  have el: "0 < pi_Start el" "pi_Start el \<le> pi_End el" "desc_ok (rev rs)"
    and above: "\<forall>b\<in>set rs. unat (pi_End el) + 1 < unat (pi_Start b)"
    and rs: "\<forall>b\<in>set rs. pi_Start b \<le> pi_End b"
    using Cons.prems by (auto simp: desc_ok_rev_Cons) (auto simp: desc_ok_def)
  have rest: "deleteRanges p rs = rs" "covered rs = {q \<in> covered rs. p < q}" if "p < pi_End el"
  proof -
    have *: "\<forall>b\<in>set rs. p < pi_Start b \<and> pi_Start b \<le> pi_End b"
      using that above rs by (fastforce simp: word_less_nat_alt)
    then show "deleteRanges p rs = rs" by (rule deleteRanges_above)
    show "covered rs = {q \<in> covered rs. p < q}"
      using * by (auto simp: covered_def ivl_def intro: order_less_le_trans)
  qed
  consider "pi_Start el \<le> p" "p < pi_End el" | "pi_End el \<le> p" | "p < pi_Start el"
    by fastforce
  then show ?case
  proof cases
    case 1
    have u: "unat (p + 1) = unat p + 1" using unat_next_less [OF 1(2)] .
    then have "ivl (el\<lparr>pi_Start := p + 1\<rparr>) = {q \<in> ivl el. p < q}"
      using 1 by (auto simp: ivl_def word_le_nat_alt word_less_nat_alt)
    moreover have "0 < p + 1" "p + 1 \<le> pi_End el"
      using u 1(2) by (auto simp: word_le_nat_alt word_less_nat_alt)
    moreover have "deleteRanges p (el # rs) = el\<lparr>pi_Start := p + 1\<rparr> # rs"
      using 1 rest(1) by simp
    moreover have "{q \<in> covered (el # rs). p < q} = {q \<in> ivl el. p < q} \<union> covered rs"
      using rest(2) [OF 1(2)] by auto
    ultimately show ?thesis using el above by (simp add: desc_ok_rev_Cons)
  next
    case 2
    then have "{q \<in> ivl el. p < q} = {}" by (auto simp: ivl_def)
    then have "{q \<in> covered (el # rs). p < q} = {q \<in> covered rs. p < q}" by auto
    moreover have "deleteRanges p (el # rs) = deleteRanges p rs" using 2 by auto
    ultimately show ?thesis using Cons.IH [OF el(3)] by auto
  next
    case 3
    then have "p < pi_End el" using el(2) by simp
    moreover have "ivl el = {q \<in> ivl el. p < q}" using 3 by (auto simp: ivl_def)
    ultimately have "{q \<in> covered (el # rs). p < q} = covered (el # rs)" using rest(2) by auto
    moreover have "deleteRanges p (el # rs) = el # rs" using 3 el(2) by auto
    ultimately show ?thesis using Cons.prems by simp
  qed
qed simp

section \<open>The history as a set of packet numbers\<close>

text \<open>
  The contract: \<open>contents\<close> is the set a history stands for, \<open>recv\<close> registers a
  packet or fails, \<open>del\<close> forgets an initial segment, \<open>ranges\<close> are the ACK ranges.
\<close>

locale packet_history =
  fixes inv :: "'h \<Rightarrow> bool"
    and contents :: "'h \<Rightarrow> PacketNumber set"
    and recv :: "PacketNumber \<Rightarrow> 'h \<Rightarrow> 'h \<times> go_error option"
    and del :: "PacketNumber \<Rightarrow> 'h \<Rightarrow> 'h"
    and ranges :: "'h \<Rightarrow> AckRange list"
  assumes recv_ok: "inv h \<Longrightarrow> p \<noteq> 0 \<Longrightarrow> recv p h = (h', None) \<Longrightarrow>
      inv h' \<and> contents h' = insert p (contents h)"
    and recv_error: "recv p h = (h', Some e) \<Longrightarrow> h' = h"
    and del_ok: "inv h \<Longrightarrow> inv (del p h) \<and> contents (del p h) = {q \<in> contents h. p < q}"
    and ranges_wf: "inv h \<Longrightarrow> wf_ranges (ranges h) \<and> (\<forall>r \<in> set (ranges h). 0 < First r)"
    and ranges_contents: "inv h \<Longrightarrow> q \<in> contents h \<longleftrightarrow> (\<exists>r \<in> set (ranges h). First r \<le> q \<and> q \<le> Last r)"
begin

lemma ranges_Nil: "inv h \<Longrightarrow> ranges h = [] \<longleftrightarrow> contents h = {}"
proof -
  assume i: "inv h"
  show ?thesis
  proof
    assume "contents h = {}"
    then have "\<forall>r \<in> set (ranges h). \<not> First r \<le> Last r"
      using ranges_contents [OF i] by fastforce
    then show "ranges h = []"
      using ranges_wf [OF i] by (cases "ranges h") (auto simp: wf_ranges_Cons)
  qed (use ranges_contents [OF i] in auto)
qed

text \<open>The largest and the smallest number of the history are the ends of the ranges.\<close>

lemma ranges_ends:
  assumes "inv h" "contents h \<noteq> {}"
  shows "Last (hd (ranges h)) \<in> contents h" "q \<in> contents h \<Longrightarrow> q \<le> Last (hd (ranges h))"
    and "First (last (ranges h)) \<in> contents h" "q \<in> contents h \<Longrightarrow> First (last (ranges h)) \<le> q"
proof -
  have ne: "ranges h \<noteq> []" using ranges_Nil [OF assms(1)] assms(2) by simp
  have wf: "wf_ranges (ranges h)" using ranges_wf [OF assms(1)] by simp
  have mem: "hd (ranges h) \<in> set (ranges h)" "last (ranges h) \<in> set (ranges h)" using ne by auto
  have le: "First r \<le> Last r" if "r \<in> set (ranges h)" for r using wf that by (simp add: wf_ranges_def)
  show "Last (hd (ranges h)) \<in> contents h" "First (last (ranges h)) \<in> contents h"
    using ranges_contents [OF assms(1)] mem le by auto
  show "q \<in> contents h \<Longrightarrow> q \<le> Last (hd (ranges h))" "q \<in> contents h \<Longrightarrow> First (last (ranges h)) \<le> q"
    using ranges_contents [OF assms(1), of q] wf_ranges_bounds [OF wf] by fastforce+
qed

end

definition history_inv :: "receivedPacketHistory \<Rightarrow> bool" where
  "history_inv h \<longleftrightarrow> desc_ok (rev (h_ranges h))"

definition history_contents :: "receivedPacketHistory \<Rightarrow> PacketNumber set" where
  "history_contents h = covered (h_ranges h)"

interpretation history: packet_history history_inv history_contents history_ReceivedPacket
  DeleteUpTo GetAckRanges
proof
  fix h h' :: receivedPacketHistory and p :: PacketNumber and e q
  show "history_inv h' \<and> history_contents h' = insert p (history_contents h)"
    if "history_inv h" "p \<noteq> 0" "history_ReceivedPacket p h = (h', None)"
    using that receiveBack_ok [of "rev (h_ranges h)" p]
    by (auto simp: history_ReceivedPacket_def history_inv_def history_contents_def ivl_def word_gt_0
        split: if_splits)
  show "h' = h" if "history_ReceivedPacket p h = (h', Some e)"
    using that by (simp add: history_ReceivedPacket_def split: if_splits)
  show "history_inv (DeleteUpTo p h) \<and>
      history_contents (DeleteUpTo p h) = {q \<in> history_contents h. p < q}" if "history_inv h"
    using that deleteRanges_ok [of "h_ranges h" p]
    by (simp add: DeleteUpTo_def history_inv_def history_contents_def)
  show "wf_ranges (GetAckRanges h) \<and> (\<forall>r \<in> set (GetAckRanges h). 0 < First r)" if "history_inv h"
    using that by (auto simp: GetAckRanges_def wf_ranges_def history_inv_def desc_ok_def sorted_wrt_map)
  show "q \<in> history_contents h \<longleftrightarrow> (\<exists>r \<in> set (GetAckRanges h). First r \<le> q \<and> q \<le> Last r)"
    if "history_inv h"
    by (auto simp: history_contents_def covered_def ivl_def GetAckRanges_def)
qed

lemma history_empty: "history_inv newReceivedPacketHistory" "history_contents newReceivedPacketHistory = {}"
  by (simp_all add: history_inv_def history_contents_def newReceivedPacketHistory_def)

text \<open>Sequences of operations on a history, and on the set it stands for.\<close>

datatype history_op = Receive PacketNumber | Forget PacketNumber

fun runHistory ::
    "history_op list \<Rightarrow> receivedPacketHistory \<Rightarrow> receivedPacketHistory \<times> go_error option" where
  "runHistory [] h = (h, None)"
| "runHistory (Receive p # ops) h = andThen (history_ReceivedPacket p h) (runHistory ops)"
| "runHistory (Forget p # ops) h = runHistory ops (DeleteUpTo p h)"

fun runSet :: "history_op list \<Rightarrow> PacketNumber set \<Rightarrow> PacketNumber set" where
  "runSet [] S = S"
| "runSet (Receive p # ops) S = runSet ops (insert p S)"
| "runSet (Forget p # ops) S = runSet ops {q \<in> S. p < q}"

lemma runHistory_ok:
  assumes "history_inv h" "Receive 0 \<notin> set ops" "runHistory ops h = (h', None)"
  shows "history_inv h' \<and> history_contents h' = runSet ops (history_contents h)"
  using assms
proof (induction ops arbitrary: h)
  case (Cons opn ops)
  show ?case
  proof (cases opn)
    case (Receive p)
    then obtain g where g: "history_ReceivedPacket p h = (g, None)" "runHistory ops g = (h', None)"
      using Cons.prems(3) by (auto simp: andThen_eq_None)
    have "p \<noteq> 0" using Cons.prems(2) Receive by auto
    then have "history_inv g" "history_contents g = insert p (history_contents h)"
      using history.recv_ok [OF Cons.prems(1) _ g(1)] by auto
    then show ?thesis using Cons.IH [of g] Cons.prems(2) g(2) Receive by simp
  next
    case (Forget p)
    then show ?thesis
      using Cons.IH [of "DeleteUpTo p h"] Cons.prems history.del_ok [OF Cons.prems(1), of p] by simp
  qed
qed simp

text \<open>
  C6: The received packet history implements a set.  After any sequence of
  received packets and deletions that ends without error, the ACK ranges are
  ordered, disjoint and not adjacent, and they cover exactly the packet numbers
  received and not deleted since.
\<close>

theorem history_implements_set:
  assumes "runHistory ops newReceivedPacketHistory = (h, None)" "Receive 0 \<notin> set ops"
  shows "wf_ranges (GetAckRanges h) \<and>
    (\<forall>q. (\<exists>r \<in> set (GetAckRanges h). First r \<le> q \<and> q \<le> Last r) \<longleftrightarrow> q \<in> runSet ops {})"
proof -
  have h: "history_inv h" "history_contents h = runSet ops {}"
    using runHistory_ok [OF history_empty(1) assms(2,1)] history_empty(2) by auto
  show ?thesis
    using history.ranges_wf [OF h(1)] history.ranges_contents [OF h(1)] h(2) by blast
qed

theorem history_implements_set_witness:
  "\<exists>h. runHistory [Receive 4, Receive 7, Receive 5, Forget 4, Receive 6] newReceivedPacketHistory
      = (h, None) \<and> GetAckRanges h = [\<lparr>First = 5, Last = 7\<rparr>] \<and> wf_ranges (GetAckRanges h) \<and>
    (\<exists>r \<in> set (GetAckRanges h). First r \<le> 6 \<and> 6 \<le> Last r)"
proof -
  let ?ops = "[Receive 4, Receive 7, Receive 5, Forget 4, Receive 6]"
  let ?h = "\<lparr>h_ranges = [\<lparr>pi_Start = 5, pi_End = 7\<rparr>], h_lowestInReceivedPacketNumbers = 5\<rparr>"
  have r: "runHistory ?ops newReceivedPacketHistory = (?h, None)"
    by (simp add: history_ReceivedPacket_def newReceivedPacketHistory_def DeleteUpTo_def
        MaxTrackedReceivedAckRanges_def DefaultMaxCongestionWindow_def MaxPacketNumber_def)
  have "GetAckRanges ?h = [\<lparr>First = 5, Last = 7\<rparr>]" by (simp add: GetAckRanges_def)
  moreover have "wf_ranges (GetAckRanges ?h) \<and>
      (\<exists>r \<in> set (GetAckRanges ?h). First r \<le> 6 \<and> 6 \<le> Last r)"
    using history_implements_set [OF r] by simp
  ultimately show ?thesis using r by blast
qed

end
