(* ===== verification/ClosePathFrames.thy ===== *)
theory ClosePathFrames
  imports AckFrames
begin

text \<open>
  CLOSE_PATH frames (\<open>internal/wire/close_path_frame.go\<close>), the multipath extension that
  abandons a path and reports what has arrived on it, in the format of ACK frames.
\<close>

section \<open>CLOSE_PATH\<close>

record ClosePathFrame =
  cp_PathID :: PathID
  cp_LargestAcked :: PacketNumber
  cp_LowestAcked :: PacketNumber
  cp_AckRanges :: "AckRange list"

definition ClosePathFrame_HasMissingRanges :: "ClosePathFrame \<Rightarrow> bool" where
  "ClosePathFrame_HasMissingRanges f = hasMissingRanges (cp_AckRanges f)"

definition ClosePathFrame_validateAckRanges :: "ClosePathFrame \<Rightarrow> bool" where
  "ClosePathFrame_validateAckRanges f = validateRanges (cp_LargestAcked f) (cp_AckRanges f)"

definition ClosePathFrame_numWritableNackRanges :: "ClosePathFrame \<Rightarrow> u64" where
  "ClosePathFrame_numWritableNackRanges f = numWritableRanges (cp_AckRanges f)"

definition ClosePathFrame_getMissingSequenceNumberDeltaLen :: "ClosePathFrame \<Rightarrow> PacketNumberLen" where
  "ClosePathFrame_getMissingSequenceNumberDeltaLen f =
     missingDeltaLen (cp_LargestAcked f) (cp_LowestAcked f) (cp_AckRanges f)"

definition ClosePathFrame_AcksPacket :: "ClosePathFrame \<Rightarrow> PacketNumber \<Rightarrow> bool" where
  "ClosePathFrame_AcksPacket f p =
     acksPacket (cp_LargestAcked f) (cp_LowestAcked f) (cp_AckRanges f) p"

definition ClosePathFrame_flags :: "PacketNumberLen \<Rightarrow> PacketNumberLen \<Rightarrow> bool \<Rightarrow> byte" where
  "ClosePathFrame_flags largestAckedLen deltaLen hasMissing =
     (let flags = 0x00;
          flags = (if hasMissing then flags OR 0x10 else flags);
          flags = (if largestAckedLen \<noteq> PacketNumberLen1
                   then flags XOR push_bit 2 (largestAckedLen div 2) else flags)
      in if deltaLen \<noteq> PacketNumberLen1 then flags XOR (deltaLen div 2) else flags)"

definition ClosePathFrame_Write :: "ClosePathFrame \<Rightarrow> VersionNumber \<Rightarrow> byte list result" where
  "ClosePathFrame_Write f version =
     (let bo = GetByteOrder version;
          largestAckedLen = GetPacketNumberLength (cp_LargestAcked f);
          deltaLen = ClosePathFrame_getMissingSequenceNumberDeltaLen f;
          flags = ClosePathFrame_flags largestAckedLen deltaLen (ClosePathFrame_HasMissingRanges f);
          numRanges = (if ClosePathFrame_HasMissingRanges f
                       then ClosePathFrame_numWritableNackRanges f else 0)
      in if numRanges > 0xFF then Inl (GoPanic ''ClosePathFrame: Too many ACK ranges'')
         else wbind (writeField bo (WriteUint48 bo) largestAckedLen (cp_LargestAcked f)) (\<lambda>largestAcked.
           wbind (writeAckBlocks ''BUG: Inconsistent number of ACK ranges written in ClosePath''
               (writeField bo (WriteUint48 bo) deltaLen) numRanges
               (cp_LargestAcked f) (cp_LowestAcked f) (cp_AckRanges f)) (\<lambda>blocks.
             Inr ([0x11] @ [cp_PathID f] @ [flags]
               @ (if ClosePathFrame_HasMissingRanges f then [ucast (numRanges - 1)] else [])
               @ largestAcked @ blocks))))"

definition ParseClosePathFrame :: "byte list \<Rightarrow> VersionNumber \<Rightarrow> ClosePathFrame parsed" where
  "ParseClosePathFrame r version =
     (let bo = GetByteOrder version in
      rbind (ReadByte r) (\<lambda>_ r.
      rbind (ReadByte r) (\<lambda>pathID r.
      rbind (ReadByte r) (\<lambda>flags r.
        let hasMissing = (flags AND 0x10 = 0x10);
            largestAckedLen = fieldLen (drop_bit 2 (flags AND 0x0C));
            deltaLen = fieldLen (flags AND 0x03)
        in rbind (if hasMissing then ReadByte r else Inr (0, r)) (\<lambda>numAckBlocks r.
           if hasMissing \<and> numAckBlocks = 0 then Inl ErrInvalidAckRanges
           else rbind (ReadUintN bo r largestAckedLen) (\<lambda>largestAcked r.
                rbind (parseAckBlocks bo hasMissing deltaLen numAckBlocks largestAcked r)
                  (\<lambda>(ackRanges, lowestAcked) r.
                  Inr (\<lparr>cp_PathID = pathID, cp_LargestAcked = largestAcked,
                        cp_LowestAcked = lowestAcked, cp_AckRanges = ackRanges\<rparr>, r))))))))"

definition ClosePathFrame_MinLength :: "ClosePathFrame \<Rightarrow> VersionNumber \<Rightarrow> ByteCount result" where
  "ClosePathFrame_MinLength f version =
     (let length = 1 + 1 + 1;
          length = length + ucast (GetPacketNumberLength (cp_LargestAcked f));
          deltaLen = ucast (ClosePathFrame_getMissingSequenceNumberDeltaLen f)
      in if ClosePathFrame_HasMissingRanges f
         then Inr (length + (1 + deltaLen) * ClosePathFrame_numWritableNackRanges f)
         else Inr (length + deltaLen))"

lemma ClosePathFrame_flags_fields:
  fixes hm :: bool
  assumes "a \<in> {1, 2, 4, 6 :: byte}" "d \<in> {1, 2, 4, 6 :: byte}"
  defines "t \<equiv> ClosePathFrame_flags a d hm"
  shows "t AND 0x10 = 0x10 \<longleftrightarrow> hm"
    "fieldLen (drop_bit 2 (t AND 0x0C)) = a" "fieldLen (t AND 0x03) = d"
  using assms(1,2) unfolding t_def
  by (cases hm; auto simp: ClosePathFrame_flags_def fieldLen_def packet_number_len_defs Let_def)+

section \<open>CLOSE_PATH round trip\<close>

definition ClosePathFrame_ok :: "ClosePathFrame \<Rightarrow> VersionNumber \<Rightarrow> bool" where
  "ClosePathFrame_ok f v \<longleftrightarrow>
     frame_ranges_ok (cp_LargestAcked f) (cp_LowestAcked f) (cp_AckRanges f) \<and>
     first_gap_fits (cp_AckRanges f)"

definition ClosePathFrame_seen :: "ClosePathFrame \<Rightarrow> ClosePathFrame" where
  "ClosePathFrame_seen f =
     f\<lparr>cp_LowestAcked := sentLowest (cp_LowestAcked f) (cp_AckRanges f),
       cp_AckRanges := sentRanges (cp_AckRanges f)\<rparr>"

lemma ClosePathFrame_seen_eq:
  "ClosePathFrame_seen f = \<lparr>cp_PathID = cp_PathID f, cp_LargestAcked = cp_LargestAcked f,
     cp_LowestAcked = sentLowest (cp_LowestAcked f) (cp_AckRanges f),
     cp_AckRanges = sentRanges (cp_AckRanges f)\<rparr>"
  by (cases f) (simp add: ClosePathFrame_seen_def)

lemma ClosePathFrame_Write_ok:
  assumes "ClosePathFrame_ok f v"
  shows "ClosePathFrame_Write f v = Inr (0x11 # cp_PathID f
    # ClosePathFrame_flags (GetPacketNumberLength (cp_LargestAcked f))
        (missingDeltaLen (cp_LargestAcked f) (cp_LowestAcked f) (cp_AckRanges f))
        (hasMissingRanges (cp_AckRanges f))
    # (if hasMissingRanges (cp_AckRanges f) then [ucast (numFrameRanges (cp_AckRanges f) - 1)] else [])
    @ bo_enc (GetByteOrder v) (unat (GetPacketNumberLength (cp_LargestAcked f))) (unat (cp_LargestAcked f))
    @ ackBlocksBytes (GetByteOrder v)
        (missingDeltaLen (cp_LargestAcked f) (cp_LowestAcked f) (cp_AckRanges f))
        (cp_LargestAcked f) (cp_LowestAcked f) (cp_AckRanges f))"
proof -
  have ok: "frame_ranges_ok (cp_LargestAcked f) (cp_LowestAcked f) (cp_AckRanges f)"
    and fit: "first_gap_fits (cp_AckRanges f)" using assms by (auto simp: ClosePathFrame_ok_def)
  have lg: "unat (cp_LargestAcked f) < 2 ^ 48" using ok by (simp add: frame_ranges_ok_def)
  note w = unmasked.writeAckBlocks_frame [OF ok fit] largestAcked_field(2) [OF lg]
  have n: "\<not> 255 < numFrameRanges (cp_AckRanges f)" using frame_numRanges(1) [OF ok fit] by simp
  have num: "(if hasMissingRanges (cp_AckRanges f) then numWritableRanges (cp_AckRanges f) else 0)
      = numFrameRanges (cp_AckRanges f)" by (simp add: numFrameRanges_def)
  show ?thesis
    unfolding ClosePathFrame_Write_def Let_def ClosePathFrame_getMissingSequenceNumberDeltaLen_def
      ClosePathFrame_HasMissingRanges_def ClosePathFrame_numWritableNackRanges_def
    by (simp only: num w wbind_Inr n if_False) simp
qed

lemma ClosePathFrame_parse_ok:
  assumes "ClosePathFrame_ok f v" "ClosePathFrame_Write f v = Inr bs"
  shows "ParseClosePathFrame (bs @ r) v = Inr (ClosePathFrame_seen f, r)"
proof -
  have ok: "frame_ranges_ok (cp_LargestAcked f) (cp_LowestAcked f) (cp_AckRanges f)"
    and fit: "first_gap_fits (cp_AckRanges f)" using assms by (auto simp: ClosePathFrame_ok_def)
  have lg: "unat (cp_LargestAcked f) < 2 ^ 48" using ok by (simp add: frame_ranges_ok_def)
  note t = ClosePathFrame_flags_fields [OF pnLen_cases(1) [of "cp_LargestAcked f"] pnLen_cases(2),
      of "cp_LargestAcked f" "cp_LowestAcked f" "cp_AckRanges f" "hasMissingRanges (cp_AckRanges f)"]
  note pb = unmasked.parseAckBlocks_frame [OF ok fit, where bo = "GetByteOrder v"]
  have nz: "hasMissingRanges (cp_AckRanges f) \<Longrightarrow> (ucast (numFrameRanges (cp_AckRanges f) - 1) :: byte) \<noteq> 0"
    using frame_numRanges(3) [OF ok fit] by (auto simp: hasMissingRanges_def)
  let ?fl = "ClosePathFrame_flags (GetPacketNumberLength (cp_LargestAcked f))
        (missingDeltaLen (cp_LargestAcked f) (cp_LowestAcked f) (cp_AckRanges f))
        (hasMissingRanges (cp_AckRanges f))"
  obtain tail where bs: "bs = 0x11 # cp_PathID f # ?fl # tail"
    and tail: "tail = (if hasMissingRanges (cp_AckRanges f)
        then [ucast (numFrameRanges (cp_AckRanges f) - 1)] else [])
      @ bo_enc (GetByteOrder v) (unat (GetPacketNumberLength (cp_LargestAcked f))) (unat (cp_LargestAcked f))
      @ ackBlocksBytes (GetByteOrder v)
        (missingDeltaLen (cp_LargestAcked f) (cp_LowestAcked f) (cp_AckRanges f))
        (cp_LargestAcked f) (cp_LowestAcked f) (cp_AckRanges f)"
    using assms(2) ClosePathFrame_Write_ok [OF assms(1)] by simp
  show ?thesis
    unfolding bs append_Cons ParseClosePathFrame_def Let_def ReadByte.simps rbind_Inr t
    using pb [of r] nz
    by (cases "hasMissingRanges (cp_AckRanges f)")
      (simp_all add: tail largestAcked_field(3) [OF lg] ClosePathFrame_seen_eq)
qed

lemma ClosePathFrame_MinLength_ok:
  assumes "ClosePathFrame_ok f v" "ClosePathFrame_Write f v = Inr bs"
  shows "ClosePathFrame_MinLength f v = Inr (of_nat (length bs))"
proof -
  let ?rs = "cp_AckRanges f"
  let ?n = "missingDeltaLen (cp_LargestAcked f) (cp_LowestAcked f) ?rs"
  have ok: "frame_ranges_ok (cp_LargestAcked f) (cp_LowestAcked f) ?rs" "first_gap_fits ?rs"
    using assms by (auto simp: ClosePathFrame_ok_def)
  have e: "length bs = 3 + unat (GetPacketNumberLength (cp_LargestAcked f))
      + (if hasMissingRanges ?rs then (1 + unat ?n) * unat (numFrameRanges ?rs) else unat ?n)"
    using assms(2) length_ackBlocksBytes [OF ok, of "GetByteOrder v" ?n]
    unfolding ClosePathFrame_Write_ok [OF assms(1)] by auto
  show ?thesis
    unfolding e
    by (simp add: ClosePathFrame_MinLength_def ClosePathFrame_HasMissingRanges_def numFrameRanges_def
        ClosePathFrame_getMissingSequenceNumberDeltaLen_def
        ClosePathFrame_numWritableNackRanges_def distrib_right)
qed

lemma ParseClosePathFrame_progress:
  "ParseClosePathFrame b v = Inr (f, r) \<Longrightarrow> length r < length b"
  unfolding ParseClosePathFrame_def Let_def
  by (erule type_byte_progress) (unfold split_def, intro leaves_intros; simp)

interpretation close_path: frame_codec ClosePathFrame_Write ClosePathFrame_MinLength
  ParseClosePathFrame ClosePathFrame_ok ClosePathFrame_seen "\<lambda>t. t = 0x11"
proof
  fix f v assume ok: "ClosePathFrame_ok f v"
  then show "\<exists>t bs. ClosePathFrame_Write f v = Inr (t # bs) \<and> t = 0x11 \<and>
      ClosePathFrame_MinLength f v = Inr (of_nat (length (t # bs)))"
    using ClosePathFrame_Write_ok [OF ok] ClosePathFrame_MinLength_ok [OF ok] by blast
qed (rule ClosePathFrame_parse_ok ParseClosePathFrame_progress, assumption+)+

end
