(* ===== verification/ReceivedHandler.thy ===== *)
theory ReceivedHandler
  imports ReceivedHistory ClosePathFrames
begin

text \<open>
  The received packet handler of a path (\<open>ackhandler/received_packet_handler.go\<close>):
  it records received packets, decides when to send an ACK and builds ACK and
  CLOSE_PATH frames.  The clock is an argument \<open>now\<close> of the methods that read it.

  The inductive predicate \<open>rph_reachable\<close> describes the handlers that arise from a
  new one, together with the set \<open>S\<close> of the packets an ACK has to cover and the
  time of the last event.  Lower limits come from STOP_WAITING frames, which lie
  below the number of the packet that carried them.
\<close>

section \<open>Definitions\<close>

abbreviation (input) errInvalidPacketNumber :: go_error where
  "errInvalidPacketNumber \<equiv> GoError ''ReceivedPacketHandler: Invalid packet number''"

record receivedPacketHandler =
  rph_largestObserved :: PacketNumber
  rph_lowerLimit :: PacketNumber
  rph_largestObservedReceivedTime :: time
  rph_packetHistory :: receivedPacketHistory
  rph_ackSendDelay :: duration
  rph_packetsReceivedSinceLastAck :: int
  rph_retransmittablePacketsReceivedSinceLastAck :: int
  rph_ackQueued :: bool
  rph_ackAlarm :: time
  rph_lastAck :: "AckFrame option"
  rph_version :: VersionNumber
  rph_packets :: u64

definition NewReceivedPacketHandler :: "VersionNumber \<Rightarrow> receivedPacketHandler" where
  "NewReceivedPacketHandler version =
     \<lparr>rph_largestObserved = 0, rph_lowerLimit = 0, rph_largestObservedReceivedTime = 0,
      rph_packetHistory = newReceivedPacketHistory, rph_ackSendDelay = AckSendDelay,
      rph_packetsReceivedSinceLastAck = 0, rph_retransmittablePacketsReceivedSinceLastAck = 0,
      rph_ackQueued = False, rph_ackAlarm = 0, rph_lastAck = None, rph_version = version,
      rph_packets = 0\<rparr>"

definition rph_GetStatistics :: "receivedPacketHandler \<Rightarrow> u64" where
  "rph_GetStatistics h = rph_packets h"

definition rph_countPacket :: "bool \<Rightarrow> receivedPacketHandler \<Rightarrow> receivedPacketHandler" where
  "rph_countPacket shouldInstigateAck h =
     h\<lparr>rph_packetsReceivedSinceLastAck := rph_packetsReceivedSinceLastAck h + 1,
       rph_retransmittablePacketsReceivedSinceLastAck :=
         (if shouldInstigateAck then rph_retransmittablePacketsReceivedSinceLastAck h + 1
          else rph_retransmittablePacketsReceivedSinceLastAck h)\<rparr>"

text \<open>The four conditions under which \<open>maybeQueueAck\<close> queues an ACK for any packet.\<close>

definition rph_ackNeeded :: "PacketNumber \<Rightarrow> receivedPacketHandler \<Rightarrow> bool" where
  "rph_ackNeeded packetNumber h \<longleftrightarrow>
     (rph_version h < Version39 \<and> rph_packetsReceivedSinceLastAck h \<ge> MaxPacketsReceivedBeforeAckSend) \<or>
     (case rph_lastAck h of
        None \<Rightarrow> True
      | Some lastAck \<Rightarrow>
          packetNumber < af_LargestAcked lastAck \<or>
          First (GetHighestAckRange (rph_packetHistory h)) > af_LargestAcked lastAck)"

definition maybeQueueAck ::
    "PacketNumber \<Rightarrow> bool \<Rightarrow> time \<Rightarrow> receivedPacketHandler \<Rightarrow> receivedPacketHandler" where
  "maybeQueueAck packetNumber shouldInstigateAck now h0 =
     (let h = rph_countPacket shouldInstigateAck h0;
          ackQueued = (rph_ackQueued h \<or> rph_ackNeeded packetNumber h \<or> (shouldInstigateAck \<and>
            rph_retransmittablePacketsReceivedSinceLastAck h \<ge> RetransmittablePacketsBeforeAck));
          ackAlarm = (if ackQueued then 0
                      else if shouldInstigateAck \<and> rph_ackAlarm h = 0 then now + rph_ackSendDelay h
                      else rph_ackAlarm h)
      in h\<lparr>rph_ackQueued := ackQueued, rph_ackAlarm := ackAlarm\<rparr>)"

definition rph_ReceivedPacket ::
    "PacketNumber \<Rightarrow> bool \<Rightarrow> time \<Rightarrow> receivedPacketHandler \<Rightarrow> receivedPacketHandler \<times> go_error option" where
  "rph_ReceivedPacket packetNumber shouldInstigateAck now h =
     (if packetNumber = 0 then (h, Some errInvalidPacketNumber)
      else
        let h = h\<lparr>rph_packets := rph_packets h + 1\<rparr>;
            h = (if packetNumber > rph_largestObserved h
                 then h\<lparr>rph_largestObserved := packetNumber, rph_largestObservedReceivedTime := now\<rparr>
                 else h)
        in if packetNumber \<le> rph_lowerLimit h then (h, None)
           else
             let (history, err) = history_ReceivedPacket packetNumber (rph_packetHistory h);
                 h = h\<lparr>rph_packetHistory := history\<rparr>
             in case err of
                  Some e \<Rightarrow> (h, Some e)
                | None \<Rightarrow> (maybeQueueAck packetNumber shouldInstigateAck now h, None))"

definition SetLowerLimit :: "PacketNumber \<Rightarrow> receivedPacketHandler \<Rightarrow> receivedPacketHandler" where
  "SetLowerLimit p h =
     h\<lparr>rph_lowerLimit := p, rph_packetHistory := DeleteUpTo p (rph_packetHistory h)\<rparr>"

text \<open>Indexing the last of no ranges is a run-time panic.\<close>

definition GetAckFrame ::
    "time \<Rightarrow> receivedPacketHandler \<Rightarrow> (receivedPacketHandler \<times> AckFrame option) result" where
  "GetAckFrame now h =
     (if \<not> rph_ackQueued h \<and> (rph_ackAlarm h = 0 \<or> rph_ackAlarm h > now) then Inr (h, None)
      else
        let ackRanges = GetAckRanges (rph_packetHistory h)
        in if ackRanges = [] then Inl (GoPanic ''index out of range'')
           else
             let ack = \<lparr>af_PathID = 0, af_LargestAcked = rph_largestObserved h,
                        af_LowestAcked = First (last ackRanges),
                        af_AckRanges = (if length ackRanges > 1 then ackRanges else []),
                        af_PacketReceivedTime = rph_largestObservedReceivedTime h,
                        af_DelayTime = 0\<rparr>
             in Inr (h\<lparr>rph_lastAck := Some ack, rph_ackAlarm := 0, rph_ackQueued := False,
                       rph_packetsReceivedSinceLastAck := 0,
                       rph_retransmittablePacketsReceivedSinceLastAck := 0\<rparr>, Some ack))"

definition GetClosePathFrame :: "receivedPacketHandler \<Rightarrow> ClosePathFrame result" where
  "GetClosePathFrame h =
     (let ackRanges = GetAckRanges (rph_packetHistory h)
      in if ackRanges = [] then Inl (GoPanic ''index out of range'')
         else Inr \<lparr>cp_PathID = 0, cp_LargestAcked = rph_largestObserved h,
                   cp_LowestAcked = First (last ackRanges),
                   cp_AckRanges = (if length ackRanges > 1 then ackRanges else [])\<rparr>)"

definition rph_GetAlarmTimeout :: "receivedPacketHandler \<Rightarrow> time" where
  "rph_GetAlarmTimeout h = rph_ackAlarm h"

section \<open>Reachable handlers\<close>

inductive rph_reachable :: "receivedPacketHandler \<Rightarrow> PacketNumber set \<Rightarrow> time \<Rightarrow> bool" where
  new: "0 < now \<Longrightarrow> rph_reachable (NewReceivedPacketHandler v) {} now"
| received: "rph_reachable h S t \<Longrightarrow> t \<le> now \<Longrightarrow> rph_ReceivedPacket p b now h = (h', None) \<Longrightarrow>
    rph_reachable h' (if p \<le> rph_lowerLimit h then S else insert p S) now"
| lower_limit: "rph_reachable h S t \<Longrightarrow> t \<le> now \<Longrightarrow> p < rph_largestObserved h \<Longrightarrow>
    rph_reachable (SetLowerLimit p h) {q \<in> S. p < q} now"
| ack_frame: "rph_reachable h S t \<Longrightarrow> t \<le> now \<Longrightarrow> GetAckFrame now h = Inr (h', a) \<Longrightarrow>
    rph_reachable h' S now"

definition rph_inv :: "receivedPacketHandler \<Rightarrow> PacketNumber set \<Rightarrow> time \<Rightarrow> bool" where
  "rph_inv h S t \<longleftrightarrow>
     history_inv (rph_packetHistory h) \<and> history_contents (rph_packetHistory h) = S \<and>
     (if rph_largestObserved h = 0 then S = {} \<and> rph_lowerLimit h = 0
      else rph_largestObserved h \<in> S \<and> rph_lowerLimit h < rph_largestObserved h) \<and>
     (\<forall>q \<in> S. q \<le> rph_largestObserved h) \<and>
     ((rph_ackQueued h \<or> rph_ackAlarm h \<noteq> 0) \<longrightarrow> S \<noteq> {}) \<and>
     rph_ackSendDelay h = AckSendDelay \<and> rph_ackAlarm h \<le> t + AckSendDelay \<and>
     0 \<le> rph_retransmittablePacketsReceivedSinceLastAck h \<and> 0 < t"

lemma maybeQueueAck_sel [simp]:
  "rph_packetHistory (maybeQueueAck p b now h) = rph_packetHistory h"
  "rph_largestObserved (maybeQueueAck p b now h) = rph_largestObserved h"
  "rph_lowerLimit (maybeQueueAck p b now h) = rph_lowerLimit h"
  "rph_ackSendDelay (maybeQueueAck p b now h) = rph_ackSendDelay h"
  "rph_retransmittablePacketsReceivedSinceLastAck (maybeQueueAck p b now h)
    = rph_retransmittablePacketsReceivedSinceLastAck h + (if b then 1 else 0)"
  by (simp_all add: maybeQueueAck_def rph_countPacket_def Let_def)

lemma maybeQueueAck_alarm:
  "rph_ackAlarm (maybeQueueAck p b now h) \<in> {0, rph_ackAlarm h, now + rph_ackSendDelay h}"
  by (simp add: maybeQueueAck_def rph_countPacket_def Let_def)

text \<open>A retransmittable packet leaves an ACK queued or the alarm set.\<close>

lemma maybeQueueAck_prompt:
  assumes "\<not> rph_ackQueued (maybeQueueAck p True now h)"
  shows "rph_retransmittablePacketsReceivedSinceLastAck h < 1"
    and "rph_ackAlarm (maybeQueueAck p True now h)
      = (if rph_ackAlarm h = 0 then now + rph_ackSendDelay h else rph_ackAlarm h)"
  using assms
  by (simp_all add: maybeQueueAck_def rph_countPacket_def Let_def)

lemma rph_ReceivedPacket_cases:
  assumes "rph_ReceivedPacket p b now h = (h', None)"
  obtains h1 where "p \<noteq> 0"
    "h1 = h\<lparr>rph_packets := rph_packets h + 1, rph_largestObserved := max p (rph_largestObserved h),
        rph_largestObservedReceivedTime := (if p > rph_largestObserved h then now
          else rph_largestObservedReceivedTime h)\<rparr>"
    "if p \<le> rph_lowerLimit h then h' = h1
     else \<exists>hist. history_ReceivedPacket p (rph_packetHistory h) = (hist, None) \<and>
       h' = maybeQueueAck p b now (h1\<lparr>rph_packetHistory := hist\<rparr>)"
proof -
  let ?h1 = "h\<lparr>rph_packets := rph_packets h + 1, rph_largestObserved := max p (rph_largestObserved h),
        rph_largestObservedReceivedTime := (if p > rph_largestObserved h then now
          else rph_largestObservedReceivedTime h)\<rparr>"
  have "p \<noteq> 0" using assms by (auto simp: rph_ReceivedPacket_def)
  moreover have "(if p > rph_largestObserved h
      then h\<lparr>rph_packets := rph_packets h + 1, rph_largestObserved := p, rph_largestObservedReceivedTime := now\<rparr>
      else h\<lparr>rph_packets := rph_packets h + 1\<rparr>) = ?h1"
    by (cases h) (auto simp: max_def)
  ultimately show thesis
    using assms that [of ?h1]
    by (auto simp: rph_ReceivedPacket_def Let_def split: prod.splits option.splits if_splits)
qed

lemma rph_inv_received:
  assumes inv: "rph_inv h S t" and now: "t \<le> now" and r: "rph_ReceivedPacket p b now h = (h', None)"
  shows "rph_inv h' (if p \<le> rph_lowerLimit h then S else insert p S) now"
proof -
  obtain h1 where p: "p \<noteq> 0"
    and h1: "h1 = h\<lparr>rph_packets := rph_packets h + 1, rph_largestObserved := max p (rph_largestObserved h),
        rph_largestObservedReceivedTime := (if p > rph_largestObserved h then now
          else rph_largestObservedReceivedTime h)\<rparr>"
    and h': "if p \<le> rph_lowerLimit h then h' = h1
     else \<exists>hist. history_ReceivedPacket p (rph_packetHistory h) = (hist, None) \<and>
       h' = maybeQueueAck p b now (h1\<lparr>rph_packetHistory := hist\<rparr>)"
    using rph_ReceivedPacket_cases [OF r] .
  show ?thesis
  proof (cases "p \<le> rph_lowerLimit h")
    case True
    then have "rph_largestObserved h \<noteq> 0" "max p (rph_largestObserved h) = rph_largestObserved h"
      using inv p by (auto simp: rph_inv_def split: if_splits)
    then show ?thesis using inv now True h' h1 by (auto simp: rph_inv_def)
  next
    case False
    then obtain hist where hist: "history_ReceivedPacket p (rph_packetHistory h) = (hist, None)"
      and e: "h' = maybeQueueAck p b now (h1\<lparr>rph_packetHistory := hist\<rparr>)"
      using h' by auto
    have c: "history_inv hist" "history_contents hist = insert p S"
      using history.recv_ok [OF _ p hist] inv by (auto simp: rph_inv_def)
    have al: "rph_ackAlarm h' \<in> {0, rph_ackAlarm h, now + AckSendDelay}"
      using maybeQueueAck_alarm [of p b now "h1\<lparr>rph_packetHistory := hist\<rparr>"] inv
      by (simp add: e h1 rph_inv_def)
    have "max p (rph_largestObserved h) \<noteq> 0" using p by (auto simp: max_def)
    moreover have "rph_lowerLimit h < max p (rph_largestObserved h)" using False by (simp add: less_max_iff_disj not_le)
    moreover have "max p (rph_largestObserved h) \<in> insert p S"
      using inv p by (auto simp: rph_inv_def max_def split: if_splits)
    moreover have "\<forall>q\<in>insert p S. q \<le> max p (rph_largestObserved h)"
      using inv by (simp add: rph_inv_def le_max_iff_disj)
    moreover have "rph_ackAlarm h' \<le> now + AckSendDelay"
      using al inv now by (auto simp: rph_inv_def AckSendDelay_def)
    ultimately show ?thesis
      using False inv now c unfolding e by (simp add: rph_inv_def h1)
  qed
qed

lemma rph_inv_lower_limit:
  assumes "rph_inv h S t" "t \<le> now" "p < rph_largestObserved h"
  shows "rph_inv (SetLowerLimit p h) {q \<in> S. p < q} now"
  using assms history.del_ok [of "rph_packetHistory h" p]
  by (auto simp: rph_inv_def SetLowerLimit_def split: if_splits)

lemma GetAckFrame_cases:
  assumes "GetAckFrame now h = Inr (h', a)"
  obtains "h' = h" | ack where "h' = h\<lparr>rph_lastAck := Some ack, rph_ackAlarm := 0, rph_ackQueued := False,
    rph_packetsReceivedSinceLastAck := 0, rph_retransmittablePacketsReceivedSinceLastAck := 0\<rparr>"
  using assms by (auto simp: GetAckFrame_def Let_def split: if_splits)

lemma rph_inv_ack_frame:
  assumes "rph_inv h S t" "t \<le> now" "GetAckFrame now h = Inr (h', a)"
  shows "rph_inv h' S now"
  using assms(3)
proof (cases rule: GetAckFrame_cases)
  case 1
  then show ?thesis using assms(1,2) by (simp add: rph_inv_def AckSendDelay_def)
next
  case (2 ack)
  then show ?thesis using assms(1,2) by (simp add: rph_inv_def AckSendDelay_def)
qed

lemma rph_reachable_inv: "rph_reachable h S t \<Longrightarrow> rph_inv h S t"
proof (induction rule: rph_reachable.induct)
  case (new now v)
  then show ?case
    by (simp add: rph_inv_def NewReceivedPacketHandler_def history_empty AckSendDelay_def)
qed (blast intro: rph_inv_received rph_inv_lower_limit rph_inv_ack_frame)+

section \<open>Acknowledgements\<close>

lemma GetAckFrame_covers:
  assumes inv: "rph_inv h S t" and due: "rph_ackQueued h \<or> rph_ackAlarm h \<noteq> 0 \<and> rph_ackAlarm h \<le> now"
  shows "\<exists>h' ack. GetAckFrame now h = Inr (h', Some ack) \<and> af_LargestAcked ack = rph_largestObserved h \<and>
    (\<forall>q. AckFrame_AcksPacket ack q \<longleftrightarrow> q \<in> S) \<and>
    (unat (rph_largestObserved h) < 2 ^ 48 \<longrightarrow>
       frame_ranges_ok (af_LargestAcked ack) (af_LowestAcked ack) (af_AckRanges ack))"
proof -
  let ?hist = "rph_packetHistory h"
  let ?rs = "GetAckRanges ?hist" and ?lg = "rph_largestObserved h"
  have hi: "history_inv ?hist" and S: "history_contents ?hist = S" using inv by (auto simp: rph_inv_def)
  have Sne: "S \<noteq> {}" using inv due by (auto simp: rph_inv_def)
  then have lg: "?lg \<in> S" "\<And>q. q \<in> S \<Longrightarrow> q \<le> ?lg" using inv by (auto simp: rph_inv_def split: if_splits)
  have ne: "?rs \<noteq> []" using history.ranges_Nil [OF hi] S Sne by simp
  have wf: "wf_ranges ?rs" "\<forall>r\<in>set ?rs. 0 < First r" using history.ranges_wf [OF hi] by auto
  note ends = history.ranges_ends [OF hi, unfolded S, OF Sne]
  have last: "Last (hd ?rs) = ?lg" using ends(1,2) lg by (auto intro: antisym)
  have mem: "q \<in> S \<longleftrightarrow> (\<exists>r\<in>set ?rs. First r \<le> q \<and> q \<le> Last r)" for q
    using history.ranges_contents [OF hi] S by simp
  have acks: "acksPacket ?lg (First (last ?rs)) (if length ?rs > 1 then ?rs else []) q \<longleftrightarrow> q \<in> S" for q
  proof (cases "length ?rs > 1")
    case True
    then show ?thesis using mem [of q] ends(4) [of q] lg(2) [of q] acksPacket_ranges [OF ne] by auto
  next
    case False
    then obtain r where r: "?rs = [r]" using ne by (cases ?rs) auto
    then show ?thesis using mem [of q] last
      by (auto simp: acksPacket_def hasMissingRanges_def)
  qed
  have "0 < First (last ?rs)" using wf(2) ne by simp
  moreover have "First (last ?rs) \<le> ?lg" using ends(3) lg(2) by blast
  ultimately have ok: "unat ?lg < 2 ^ 48 \<longrightarrow>
      frame_ranges_ok ?lg (First (last ?rs)) (if length ?rs > 1 then ?rs else [])"
    using wf(1) last by (auto simp: frame_ranges_ok_def)
  show ?thesis
    using due ne acks ok by (auto simp: GetAckFrame_def Let_def AckFrame_AcksPacket_def not_less)
qed

text \<open>
  C7: An ACK frame acknowledges exactly the packets it should.  In every reachable
  state \<open>GetAckFrame\<close> returns without panic, and if it returns a frame, that frame
  acknowledges precisely the packets received and not excluded by a lower limit, its
  largest number is the largest one received, and (for numbers below \<open>2 ^ 48\<close>) its
  ranges satisfy what the writer of ACK frames requires.
\<close>

theorem GetAckFrame_correct:
  assumes "rph_reachable h S t"
  shows "\<exists>h' a. GetAckFrame now h = Inr (h', a) \<and>
    (case a of None \<Rightarrow> True
     | Some ack \<Rightarrow> af_LargestAcked ack = rph_largestObserved h \<and>
         (\<forall>q. AckFrame_AcksPacket ack q \<longleftrightarrow> q \<in> S) \<and>
         (unat (rph_largestObserved h) < 2 ^ 48 \<longrightarrow>
            frame_ranges_ok (af_LargestAcked ack) (af_LowestAcked ack) (af_AckRanges ack)))"
proof (cases "rph_ackQueued h \<or> rph_ackAlarm h \<noteq> 0 \<and> rph_ackAlarm h \<le> now")
  case True
  then show ?thesis using GetAckFrame_covers [OF rph_reachable_inv [OF assms], of now] by auto
next
  case False
  then show ?thesis by (auto simp: GetAckFrame_def)
qed

text \<open>A handler with few ranges accepts every packet.\<close>

lemma length_receiveBack: "length (receiveBack p rs) \<le> length rs + 1"
proof (induction rs)
  case (Cons el rs)
  have "length (mergeWithPrev x rs) \<le> length rs + 1" for x by (cases rs) auto
  then show ?case using Cons by (auto simp: le_SucI)
qed simp

lemma rph_accepts:
  assumes "p \<noteq> 0" "length (h_ranges (rph_packetHistory h)) < 2500"
  shows "\<exists>h'. rph_ReceivedPacket p b now h = (h', None) \<and> rph_lowerLimit h' = rph_lowerLimit h \<and>
    length (h_ranges (rph_packetHistory h')) \<le> length (h_ranges (rph_packetHistory h)) + 1"
proof -
  obtain hist where "history_ReceivedPacket p (rph_packetHistory h) = (hist, None)"
    "length (h_ranges hist) \<le> length (h_ranges (rph_packetHistory h)) + 1"
    using assms(2) length_receiveBack [of p "rev (h_ranges (rph_packetHistory h))"]
    by (cases "h_ranges (rph_packetHistory h) = []") (auto simp: history_ReceivedPacket_def
        MaxTrackedReceivedAckRanges_def DefaultMaxCongestionWindow_def)
  then show ?thesis using assms(1) by (simp add: rph_ReceivedPacket_def Let_def)
qed

lemma example_reachable:
  "\<exists>h. rph_reachable h {5, 3} 20 \<and> rph_lowerLimit h = 0 \<and> length (h_ranges (rph_packetHistory h)) < 2500"
proof -
  let ?h0 = "NewReceivedPacketHandler Version39"
  have h0: "rph_lowerLimit ?h0 = 0" "length (h_ranges (rph_packetHistory ?h0)) = 0"
    by (simp_all add: NewReceivedPacketHandler_def newReceivedPacketHistory_def)
  obtain h1 where h1: "rph_ReceivedPacket 3 True 10 ?h0 = (h1, None)" "rph_lowerLimit h1 = 0"
    "length (h_ranges (rph_packetHistory h1)) \<le> 1"
    using rph_accepts [of 3 ?h0 True 10] h0 by auto
  obtain h2 where h2: "rph_ReceivedPacket 5 True 20 h1 = (h2, None)" "rph_lowerLimit h2 = 0"
    "length (h_ranges (rph_packetHistory h2)) \<le> 2"
    using rph_accepts [of 5 h1 True 20] h1(2,3) by auto
  have "rph_reachable h2 {5, 3} 20"
    using received [OF received [OF new [of 10 Version39] _ h1(1)] _ h2(1)] h0(1) h1(2) by simp
  with h2(2,3) show ?thesis by fastforce
qed

theorem GetAckFrame_correct_witness:
  "\<exists>h h' a. rph_reachable h {5, 3} 20 \<and> GetAckFrame 30 h = Inr (h', a) \<and>
    (\<forall>ack. a = Some ack \<longrightarrow> AckFrame_AcksPacket ack 5 \<and> \<not> AckFrame_AcksPacket ack 4)"
proof -
  obtain h where h: "rph_reachable h {5, 3} 20" using example_reachable by blast
  obtain h' a where "GetAckFrame 30 h = Inr (h', a)"
    and "case a of None \<Rightarrow> True | Some ack \<Rightarrow> (\<forall>q. AckFrame_AcksPacket ack q \<longleftrightarrow> q \<in> {5, 3})"
    using GetAckFrame_correct [OF h, of 30] by (auto split: option.splits)
  with h show ?thesis by (cases a) auto
qed

text \<open>
  C17: Retransmittable packets are acknowledged in time.  After a retransmittable
  packet above the lower limit has been received, \<open>GetAckFrame\<close> returns an ACK frame
  that covers it at any time from 25 milliseconds later on, and immediately if
  another retransmittable packet has been waiting.
\<close>

theorem ack_in_time:
  assumes "rph_reachable h S t" "t \<le> now" "rph_ReceivedPacket p True now h = (h', None)"
    and "p > rph_lowerLimit h"
    and "now + AckSendDelay \<le> later \<or> (now \<le> later \<and> 1 \<le> rph_retransmittablePacketsReceivedSinceLastAck h)"
  shows "\<exists>h'' ack. GetAckFrame later h' = Inr (h'', Some ack) \<and> AckFrame_AcksPacket ack p"
proof -
  have inv: "rph_inv h S t" and inv': "rph_inv h' (insert p S) now"
    using rph_reachable_inv [OF assms(1)] rph_inv_received [OF rph_reachable_inv [OF assms(1)] assms(2,3)]
      assms(4) by (auto simp: not_le [symmetric])
  obtain g where g: "g = h\<lparr>rph_packets := rph_packets h + 1, rph_largestObserved := max p (rph_largestObserved h),
        rph_largestObservedReceivedTime := (if p > rph_largestObserved h then now
          else rph_largestObservedReceivedTime h)\<rparr>"
    and h': "if p \<le> rph_lowerLimit h then h' = g
     else \<exists>hist. history_ReceivedPacket p (rph_packetHistory h) = (hist, None) \<and>
       h' = maybeQueueAck p True now (g\<lparr>rph_packetHistory := hist\<rparr>)"
    using rph_ReceivedPacket_cases [OF assms(3)] .
  have "\<not> p \<le> rph_lowerLimit h" using assms(4) by simp
  then obtain hist where h1: "h' = maybeQueueAck p True now (g\<lparr>rph_packetHistory := hist\<rparr>)"
    using h' by auto
  define h1 where "h1 = g\<lparr>rph_packetHistory := hist\<rparr>"
  have e: "h' = maybeQueueAck p True now h1" "rph_ackAlarm h1 = rph_ackAlarm h"
    "rph_ackSendDelay h1 = AckSendDelay"
    "rph_retransmittablePacketsReceivedSinceLastAck h1 = rph_retransmittablePacketsReceivedSinceLastAck h"
    using inv by (simp_all add: h1 h1_def g rph_inv_def)
  have "rph_ackQueued h' \<or> rph_ackAlarm h' \<noteq> 0 \<and> rph_ackAlarm h' \<le> later"
  proof (cases "rph_ackQueued h'")
    case False
    then have "rph_retransmittablePacketsReceivedSinceLastAck h < 1"
      "rph_ackAlarm h' = (if rph_ackAlarm h = 0 then now + AckSendDelay else rph_ackAlarm h)"
      using maybeQueueAck_prompt [of p now h1] by (auto simp: e)
    moreover have "rph_ackAlarm h \<le> now + AckSendDelay" "now + AckSendDelay \<noteq> 0"
      using inv assms(2) by (auto simp: rph_inv_def AckSendDelay_def)
    ultimately show ?thesis using assms(5) by auto
  qed simp
  from GetAckFrame_covers [OF inv' this] show ?thesis by blast
qed

theorem ack_in_time_witness:
  "\<exists>h h' h'' ack. rph_ReceivedPacket 6 True 25 h = (h', None) \<and>
     GetAckFrame (25 + AckSendDelay) h' = Inr (h'', Some ack) \<and> AckFrame_AcksPacket ack 6"
proof -
  obtain h where h: "rph_reachable h {5, 3} 20" "rph_lowerLimit h = 0"
    "length (h_ranges (rph_packetHistory h)) < 2500" using example_reachable by blast
  obtain h' where h': "rph_ReceivedPacket 6 True 25 h = (h', None)"
    using rph_accepts [of 6 h True 25] h(3) by auto
  from ack_in_time [OF h(1) _ h', of "25 + AckSendDelay"] h(2) h' show ?thesis by auto
qed

end
