(* ===== verification/GoNumbers.thy ===== *)
theory GoNumbers
  imports Prelude Complex_Main "HOL-Library.Log_Nat"
begin

text \<open>
  Arithmetic of Go at its width.  Operations on \<open>int64\<close> wrap around.
  Go's \<open>float32\<close> and \<open>float64\<close> as rational numbers that are rounded to the nearest
  binary number with 24 and 53 significant bits, ties to even.  Every operation
  rounds its result, as the hardware does for operations that are not fused.  The
  values of the modelled code are conversions of 64 bit integers and constants near
  one, so neither the overflow to infinity nor the subnormal range is reached.
\<close>

definition wrapInt64 :: "int \<Rightarrow> int" where
  "wrapInt64 x = (x + 2 ^ 63) mod 2 ^ 64 - 2 ^ 63"

definition roundHalfEven :: "rat \<Rightarrow> int" where
  "roundHalfEven x =
     (let n = \<lfloor>x\<rfloor>; d = x - of_int n
      in if d < 1 / 2 then n else if 1 / 2 < d then n + 1 else if even n then n else n + 1)"

text \<open>The exponent of the leading bit of a positive number.\<close>

definition binExp :: "rat \<Rightarrow> int" where
  "binExp x =
     (if 1 \<le> x then int (floorlog 2 (nat \<lfloor>x\<rfloor>)) - 1
      else - int (floorlog 2 (nat (\<lceil>1 / x\<rceil> - 1))))"

definition pow2 :: "int \<Rightarrow> rat" where
  "pow2 k = (if 0 \<le> k then 2 ^ nat k else 1 / 2 ^ nat (- k))"

definition roundBits :: "nat \<Rightarrow> rat \<Rightarrow> rat" where
  "roundBits p x =
     (if x = 0 then 0
      else let u = pow2 (binExp \<bar>x\<bar> + 1 - int p) in of_int (roundHalfEven (x / u)) * u)"

abbreviation f32 :: "rat \<Rightarrow> rat" where "f32 \<equiv> roundBits 24"
abbreviation f64 :: "rat \<Rightarrow> rat" where "f64 \<equiv> roundBits 53"

text \<open>The conversion of a float to an integer type drops the fraction.\<close>

definition truncInt :: "rat \<Rightarrow> int" where
  "truncInt x = (if 0 \<le> x then \<lfloor>x\<rfloor> else \<lceil>x\<rceil>)"

lemma wrapInt64_id: "- (2 ^ 63) \<le> x \<Longrightarrow> x < 2 ^ 63 \<Longrightarrow> wrapInt64 x = x"
  by (simp add: wrapInt64_def)

lemma wrapInt64_bounds: "- (2 ^ 63) \<le> wrapInt64 x" "wrapInt64 x < 2 ^ 63"
  using pos_mod_bound [of "2 ^ 64" "x + 2 ^ 63"] by (auto simp: wrapInt64_def)

subsection \<open>Powers of two and the leading bit\<close>

lemma pow2_powi: "pow2 k = 2 powi k"
  by (simp add: pow2_def power_int_def inverse_eq_divide power_divide)

lemma pow2_pos [simp]: "0 < pow2 k" "pow2 k \<noteq> 0" "0 \<le> pow2 k"
  by (auto simp: pow2_def)

lemma pow2_add: "pow2 (a + b) = pow2 a * pow2 b"
  by (simp add: pow2_powi power_int_add)

lemma pow2_minus: "pow2 (- a) = 1 / pow2 a"
  by (simp add: pow2_powi power_int_minus inverse_eq_divide)

lemma pow2_diff: "pow2 (a - b) = pow2 a / pow2 b"
  using pow2_add [of a "- b"] by (simp add: pow2_minus)

lemma pow2_nat [simp]: "pow2 (int n) = 2 ^ n"
  by (simp add: pow2_def)

lemma pow2_strict_mono: "a < b \<Longrightarrow> pow2 a < pow2 b"
  by (simp add: pow2_powi power_int_strict_increasing)

lemma pow2_less_iff [simp]: "pow2 a < pow2 b \<longleftrightarrow> a < b"
  by (metis linorder_neqE less_asym pow2_strict_mono)

lemma floorlog_spec:
  assumes "0 < n"
  shows "2 ^ (floorlog 2 n - 1) \<le> n" "n < 2 ^ floorlog 2 n" "1 \<le> floorlog 2 n"
  using floorlog_bounds [of n 2] assms by (auto simp: floorlog_def)

lemma binExp_spec:
  assumes "0 < x"
  shows "pow2 (binExp x) \<le> x" "x < pow2 (binExp x + 1)"
proof -
  have "pow2 (binExp x) \<le> x \<and> x < pow2 (binExp x + 1)"
  proof (cases "1 \<le> x")
    case True
    define n where "n = nat \<lfloor>x\<rfloor>"
    have n: "0 < n" "of_nat n \<le> x" "x < of_nat n + 1" using True unfolding n_def by linarith+
    note s = floorlog_spec [OF n(1)]
    have e: "binExp x = int (floorlog 2 n - 1)" "binExp x + 1 = int (floorlog 2 n)"
      using True s(3) by (simp_all add: binExp_def n_def)
    have "(2::rat) ^ (floorlog 2 n - 1) \<le> of_nat n" using s(1) by (metis of_nat_le_iff of_nat_numeral of_nat_power)
    moreover have "of_nat n + 1 \<le> (2::rat) ^ floorlog 2 n" using s(2)
      by (metis Suc_leI of_nat_Suc of_nat_le_iff of_nat_numeral of_nat_power add.commute)
    ultimately show ?thesis using n unfolding e(2) unfolding e(1) pow2_nat by linarith
  next
    case False
    define m where "m = nat (\<lceil>1 / x\<rceil> - 1)"
    have y: "1 < 1 / x" using False assms by (simp add: field_simps)
    have m: "0 < m" "of_nat m < 1 / x" "1 / x \<le> of_nat m + 1" using y unfolding m_def by linarith+
    note s = floorlog_spec [OF m(1)]
    have e: "binExp x = - int (floorlog 2 m)" "binExp x + 1 = - int (floorlog 2 m - 1)"
      using False s(3) by (simp_all add: binExp_def m_def)
    have a: "(2::rat) ^ (floorlog 2 m - 1) < 1 / x"
      using s(1) m(2) by (metis of_nat_le_iff of_nat_numeral of_nat_power le_less_trans)
    have "of_nat m + 1 \<le> (2::rat) ^ floorlog 2 m" using s(2)
      by (metis Suc_leI of_nat_Suc of_nat_le_iff of_nat_numeral of_nat_power add.commute)
    then have b: "1 / x \<le> (2::rat) ^ floorlog 2 m" using m(3) by linarith
    show ?thesis unfolding e(2) unfolding e(1) pow2_minus pow2_nat using a b assms by (simp add: field_simps)
  qed
  then show "pow2 (binExp x) \<le> x" "x < pow2 (binExp x + 1)" by auto
qed

subsection \<open>Rounding\<close>

lemma roundHalfEven_of_int [simp]: "roundHalfEven (of_int n) = n"
  by (simp add: roundHalfEven_def)

lemma roundHalfEven_error: "\<bar>of_int (roundHalfEven x) - x\<bar> \<le> 1 / 2"
  unfolding roundHalfEven_def Let_def using floor_correct [of x] by (auto simp: abs_le_iff)

lemma roundBits_0 [simp]: "roundBits p 0 = 0"
  by (simp add: roundBits_def)

text \<open>A rounding is wrong by at most half a unit in the last place.\<close>

lemma roundBits_error: "\<bar>roundBits p x - x\<bar> \<le> \<bar>x\<bar> / 2 ^ p"
proof (cases "x = 0")
  case False
  define u where "u = pow2 (binExp \<bar>x\<bar> + 1 - int p)"
  have u: "0 < u" by (simp add: u_def)
  have "\<bar>roundBits p x - x\<bar> = \<bar>of_int (roundHalfEven (x / u)) - x / u\<bar> * u"
  proof -
    have "roundBits p x = of_int (roundHalfEven (x / u)) * u"
      using False by (simp add: roundBits_def u_def Let_def)
    then have "roundBits p x - x = (of_int (roundHalfEven (x / u)) - x / u) * u"
      using u by (simp add: field_simps)
    then show ?thesis using u by (simp add: abs_mult)
  qed
  also have "\<dots> \<le> 1 / 2 * u" using roundHalfEven_error [of "x / u"] u by (intro mult_right_mono) auto
  also have "\<dots> = pow2 (binExp \<bar>x\<bar>) / 2 ^ p"
    using pow2_add [of "binExp \<bar>x\<bar>" 1] by (simp add: u_def pow2_diff pow2_nat [of 1, simplified])
  also have "\<dots> \<le> \<bar>x\<bar> / 2 ^ p" using binExp_spec [of "\<bar>x\<bar>"] False by (intro divide_right_mono) auto
  finally show ?thesis .
qed simp

text \<open>A number with few significant bits is not changed.\<close>

lemma roundBits_exact:
  assumes "\<bar>n\<bar> < 2 ^ p"
  shows "roundBits p (of_int n / 2 ^ k) = of_int n / 2 ^ k"
proof (cases "n = 0")
  case False
  let ?x = "of_int n / 2 ^ k :: rat"
  have x: "0 < \<bar>?x\<bar>" using False by simp
  have "\<bar>?x\<bar> < pow2 (int p - int k)"
  proof -
    have "of_int \<bar>n\<bar> < (2::rat) ^ p" using assms by (metis of_int_less_iff of_int_numeral of_int_power)
    then show ?thesis by (simp add: pow2_diff divide_strict_right_mono)
  qed
  then have "pow2 (binExp \<bar>?x\<bar>) < pow2 (int p - int k)" using binExp_spec(1) [OF x] by linarith
  then have e: "binExp \<bar>?x\<bar> + 1 - int p + int k \<le> 0" by simp
  define j where "j = nat (- (binExp \<bar>?x\<bar> + 1 - int p + int k))"
  have b: "binExp \<bar>?x\<bar> + 1 - int p = - int j - int k" using e by (simp add: j_def)
  have "?x / pow2 (binExp \<bar>?x\<bar> + 1 - int p) = of_int (n * 2 ^ j)"
    unfolding b pow2_diff pow2_minus pow2_nat by (simp add: field_simps)
  then have "roundBits p ?x = of_int (n * 2 ^ j) * pow2 (binExp \<bar>?x\<bar> + 1 - int p)"
    using False unfolding roundBits_def Let_def by (simp only: roundHalfEven_of_int) simp
  then show ?thesis unfolding b pow2_diff pow2_minus pow2_nat by (simp add: field_simps)
qed simp

lemma roundBits_int: "\<bar>n\<bar> < 2 ^ p \<Longrightarrow> roundBits p (of_int n) = of_int n"
  using roundBits_exact [of n p 0] by simp

lemma roundBits_nonneg: "0 \<le> x \<Longrightarrow> 0 \<le> roundBits p x"
proof -
  assume x: "0 \<le> x"
  have "x / 2 ^ p \<le> x" using x by (simp add: field_simps mult_le_cancel_left1)
  then show ?thesis using roundBits_error [of p x] x by simp
qed

lemma truncInt_of_int [simp]: "truncInt (of_int n) = n"
  by (simp add: truncInt_def)

lemma truncInt_div:
  assumes "0 \<le> n"
  shows "truncInt (of_int n / 2 ^ k) = n div 2 ^ k"
proof -
  have "\<lfloor>of_int n / of_int (2 ^ k) :: rat\<rfloor> = n div 2 ^ k" by (rule floor_divide_of_int_eq)
  then show ?thesis using assms by (simp add: truncInt_def)
qed

end
