(* ===== verification/RttStats.thy ===== *)
theory RttStats
  imports Utils GoNumbers
begin

text \<open>
  Round-trip statistics of a path (\<open>congestion/rtt_stats.go\<close>).  The \<open>float32\<close>
  arithmetic of the moving averages is rounded operation by operation.  Durations are
  integers without bound; the differences of the source, which are \<open>int64\<close>, do not wrap around
  for the measurements that the properties consider.
\<close>

abbreviation (input) initialRTTus :: int where "initialRTTus \<equiv> 100 * 1000"
abbreviation (input) rttAlpha :: rat where "rttAlpha \<equiv> 1 / 8"
abbreviation (input) oneMinusAlpha :: rat where "oneMinusAlpha \<equiv> 7 / 8"
abbreviation (input) rttBeta :: rat where "rttBeta \<equiv> 1 / 4"
abbreviation (input) oneMinusBeta :: rat where "oneMinusBeta \<equiv> 3 / 4"
abbreviation (input) halfWindow :: rat where "halfWindow \<equiv> 1 / 2"
abbreviation (input) quarterWindow :: rat where "quarterWindow \<equiv> 1 / 4"

record rttSample =
  smp_rtt :: duration
  smp_time :: time

record RTTStats =
  rtt_initialRTTus :: int
  rtt_recentMinRTTwindow :: duration
  rtt_minRTT :: duration
  rtt_latestRTT :: duration
  rtt_smoothedRTT :: duration
  rtt_meanDeviation :: duration
  rtt_numMinRTTsamplesRemaining :: u32
  rtt_newMinRTT :: rttSample
  rtt_recentMinRTT :: rttSample
  rtt_halfWindowRTT :: rttSample
  rtt_quarterWindowRTT :: rttSample

definition zeroSample :: rttSample where
  "zeroSample = \<lparr>smp_rtt = 0, smp_time = 0\<rparr>"

definition NewRTTStatsWithSmoothedRTT :: "duration \<Rightarrow> RTTStats" where
  "NewRTTStatsWithSmoothedRTT srtt =
     \<lparr>rtt_initialRTTus = 0, rtt_recentMinRTTwindow = 0, rtt_minRTT = 0, rtt_latestRTT = 0,
      rtt_smoothedRTT = srtt, rtt_meanDeviation = 0, rtt_numMinRTTsamplesRemaining = 0,
      rtt_newMinRTT = zeroSample, rtt_recentMinRTT = zeroSample,
      rtt_halfWindowRTT = zeroSample, rtt_quarterWindowRTT = zeroSample\<rparr>"

definition NewRTTStats :: RTTStats where
  "NewRTTStats = (NewRTTStatsWithSmoothedRTT 0)
     \<lparr>rtt_initialRTTus := initialRTTus, rtt_recentMinRTTwindow := InfDuration\<rparr>"

definition InitialRTTus :: "RTTStats \<Rightarrow> int" where "InitialRTTus r = rtt_initialRTTus r"
definition MinRTT :: "RTTStats \<Rightarrow> duration" where "MinRTT r = rtt_minRTT r"
definition LatestRTT :: "RTTStats \<Rightarrow> duration" where "LatestRTT r = rtt_latestRTT r"
definition RecentMinRTT :: "RTTStats \<Rightarrow> duration" where "RecentMinRTT r = smp_rtt (rtt_recentMinRTT r)"
definition SmoothedRTT :: "RTTStats \<Rightarrow> duration" where "SmoothedRTT r = rtt_smoothedRTT r"
definition GetQuarterWindowRTT :: "RTTStats \<Rightarrow> duration" where
  "GetQuarterWindowRTT r = smp_rtt (rtt_quarterWindowRTT r)"
definition GetHalfWindowRTT :: "RTTStats \<Rightarrow> duration" where
  "GetHalfWindowRTT r = smp_rtt (rtt_halfWindowRTT r)"
definition MeanDeviation :: "RTTStats \<Rightarrow> duration" where "MeanDeviation r = rtt_meanDeviation r"

definition SetRecentMinRTTwindow :: "duration \<Rightarrow> RTTStats \<Rightarrow> RTTStats" where
  "SetRecentMinRTTwindow w r = r\<lparr>rtt_recentMinRTTwindow := w\<rparr>"

text \<open>The part of \<open>updateRecentMinRTT\<close> that samples a new minimum on request.\<close>

definition sampleNewMin :: "rttSample \<Rightarrow> RTTStats \<Rightarrow> RTTStats" where
  "sampleNewMin s r =
     (if 0 < rtt_numMinRTTsamplesRemaining r
      then let r1 = r\<lparr>rtt_numMinRTTsamplesRemaining := rtt_numMinRTTsamplesRemaining r - 1\<rparr>;
               r2 = (if smp_rtt (rtt_newMinRTT r1) = 0 \<or> smp_rtt s \<le> smp_rtt (rtt_newMinRTT r1)
                     then r1\<lparr>rtt_newMinRTT := s\<rparr> else r1)
           in if rtt_numMinRTTsamplesRemaining r2 = 0
              then r2\<lparr>rtt_recentMinRTT := rtt_newMinRTT r2, rtt_halfWindowRTT := rtt_newMinRTT r2,
                      rtt_quarterWindowRTT := rtt_newMinRTT r2\<rparr>
              else r2
      else r)"

text \<open>The update of the three recent samples.\<close>

definition updateWindows :: "rttSample \<Rightarrow> RTTStats \<Rightarrow> RTTStats" where
  "updateWindows s r =
     (if smp_rtt (rtt_recentMinRTT r) = 0 \<or> smp_rtt s \<le> smp_rtt (rtt_recentMinRTT r)
      then r\<lparr>rtt_recentMinRTT := s, rtt_halfWindowRTT := s, rtt_quarterWindowRTT := s\<rparr>
      else if smp_rtt s \<le> smp_rtt (rtt_halfWindowRTT r)
      then r\<lparr>rtt_halfWindowRTT := s, rtt_quarterWindowRTT := s\<rparr>
      else if smp_rtt s \<le> smp_rtt (rtt_quarterWindowRTT r)
      then r\<lparr>rtt_quarterWindowRTT := s\<rparr>
      else r)"

definition windowPart :: "rat \<Rightarrow> RTTStats \<Rightarrow> duration" where
  "windowPart part r =
     wrapInt64 (- truncInt (f32 (f32 (of_int (go_quot (rtt_recentMinRTTwindow r) Microsecond)) * part))
                * Microsecond)"

text \<open>The expiry of samples that are too old.\<close>

definition expireWindows :: "rttSample \<Rightarrow> time \<Rightarrow> RTTStats \<Rightarrow> RTTStats" where
  "expireWindows s now r =
     (if smp_time (rtt_recentMinRTT r) < now + - rtt_recentMinRTTwindow r
      then r\<lparr>rtt_recentMinRTT := rtt_halfWindowRTT r, rtt_halfWindowRTT := rtt_quarterWindowRTT r,
             rtt_quarterWindowRTT := s\<rparr>
      else if smp_time (rtt_halfWindowRTT r) < now + windowPart halfWindow r
      then r\<lparr>rtt_halfWindowRTT := rtt_quarterWindowRTT r, rtt_quarterWindowRTT := s\<rparr>
      else if smp_time (rtt_quarterWindowRTT r) < now + windowPart quarterWindow r
      then r\<lparr>rtt_quarterWindowRTT := s\<rparr>
      else r)"

definition updateRecentMinRTT :: "duration \<Rightarrow> time \<Rightarrow> RTTStats \<Rightarrow> RTTStats" where
  "updateRecentMinRTT sample now r =
     (let s = \<lparr>smp_rtt = sample, smp_time = now\<rparr>
      in expireWindows s now (updateWindows s (sampleNewMin s r)))"

text \<open>One step of a moving average in microseconds.\<close>

definition movingAverage :: "rat \<Rightarrow> duration \<Rightarrow> rat \<Rightarrow> duration \<Rightarrow> duration" where
  "movingAverage a old b new =
     wrapInt64 (truncInt (f32 (f32 (a * f32 (of_int (go_quot old Microsecond))) +
                               f32 (b * f32 (of_int (go_quot new Microsecond))))) * Microsecond)"

definition updateAverages :: "duration \<Rightarrow> RTTStats \<Rightarrow> RTTStats" where
  "updateAverages sample r =
     (if rtt_smoothedRTT r = 0
      then r\<lparr>rtt_smoothedRTT := sample, rtt_meanDeviation := go_quot sample 2\<rparr>
      else r\<lparr>rtt_meanDeviation :=
               movingAverage oneMinusBeta (rtt_meanDeviation r) rttBeta (AbsDuration (rtt_smoothedRTT r - sample)),
             rtt_smoothedRTT := movingAverage oneMinusAlpha (rtt_smoothedRTT r) rttAlpha sample\<rparr>)"

definition UpdateRTT :: "duration \<Rightarrow> duration \<Rightarrow> time \<Rightarrow> RTTStats \<Rightarrow> RTTStats" where
  "UpdateRTT sendDelta ackDelay now r =
     (if sendDelta = InfDuration \<or> sendDelta \<le> 0 then r
      else let r1 = (if rtt_minRTT r = 0 \<or> sendDelta < rtt_minRTT r then r\<lparr>rtt_minRTT := sendDelta\<rparr> else r);
               r2 = updateRecentMinRTT sendDelta now r1;
               sample = (if ackDelay < sendDelta then sendDelta - ackDelay else sendDelta)
           in updateAverages sample (r2\<lparr>rtt_latestRTT := sample\<rparr>))"

definition SampleNewRecentMinRTT :: "u32 \<Rightarrow> RTTStats \<Rightarrow> RTTStats" where
  "SampleNewRecentMinRTT numSamples r =
     r\<lparr>rtt_numMinRTTsamplesRemaining := numSamples, rtt_newMinRTT := zeroSample\<rparr>"

definition rtt_OnConnectionMigration :: "RTTStats \<Rightarrow> RTTStats" where
  "rtt_OnConnectionMigration r =
     r\<lparr>rtt_latestRTT := 0, rtt_minRTT := 0, rtt_smoothedRTT := 0, rtt_meanDeviation := 0,
       rtt_initialRTTus := initialRTTus, rtt_numMinRTTsamplesRemaining := 0,
       rtt_recentMinRTTwindow := InfDuration, rtt_recentMinRTT := zeroSample,
       rtt_halfWindowRTT := zeroSample, rtt_quarterWindowRTT := zeroSample\<rparr>"

definition ExpireSmoothedMetrics :: "RTTStats \<Rightarrow> RTTStats" where
  "ExpireSmoothedMetrics r =
     r\<lparr>rtt_meanDeviation := MaxDuration (rtt_meanDeviation r) (AbsDuration (rtt_smoothedRTT r - rtt_latestRTT r)),
       rtt_smoothedRTT := MaxDuration (rtt_smoothedRTT r) (rtt_latestRTT r)\<rparr>"

definition UpdateSessionRTT :: "duration \<Rightarrow> RTTStats \<Rightarrow> RTTStats" where
  "UpdateSessionRTT srtt r = r\<lparr>rtt_smoothedRTT := srtt\<rparr>"


subsection \<open>The moving averages\<close>

lemma movingAverage_exact:
  assumes "0 \<le> old" "0 \<le> new" "old < 2 ^ (24 - k) * Microsecond" "new < 2 ^ (24 - k) * Microsecond"
    "0 \<le> n" "0 \<le> m" "n + m = 2 ^ k" "k \<le> 24"
  shows "movingAverage (of_int n / 2 ^ k) old (of_int m / 2 ^ k) new =
         (n * (old div Microsecond) + m * (new div Microsecond)) div 2 ^ k * Microsecond"
proof -
  define x y where "x = old div Microsecond" and "y = new div Microsecond"
  have x: "0 \<le> x" "x < 2 ^ (24 - k)" and y: "0 \<le> y" "y < 2 ^ (24 - k)"
    using assms(1-4) by (auto simp: x_def y_def Microsecond_def div_less_iff_less_mult pos_imp_zdiv_nonneg_iff)
  have p: "(2::int) ^ k * 2 ^ (24 - k) = 2 ^ 24" using assms(8) by (simp add: power_add [symmetric])
  have p': "(2::int) ^ (24 - k) \<le> 2 ^ 24" by (rule power_increasing) auto
  have sum: "n * x + m * y < 2 ^ 24"
  proof -
    have "n * x + m * y \<le> n * (2 ^ (24 - k) - 1) + m * (2 ^ (24 - k) - 1)"
      using x y assms(5,6) by (intro add_mono mult_left_mono) auto
    also have "\<dots> = (n + m) * (2 ^ (24 - k) - 1)" by (simp add: distrib_right)
    also have "\<dots> = 2 ^ 24 - 2 ^ k" using p assms(7) by (simp add: right_diff_distrib)
    finally show ?thesis by (simp add: le_less_trans)
  qed
  have nx: "0 \<le> n * x" "0 \<le> m * y" using x y assms(5,6) by auto
  have q: "go_quot old Microsecond = x" "go_quot new Microsecond = y"
    using assms(1,2) by (auto simp: go_quot_def x_def y_def Microsecond_def)
  have fx: "f32 (of_int x) = of_int x" "f32 (of_int y) = of_int y"
    using x y p' by (auto intro!: roundBits_int)
  have fp: "f32 (of_int n / 2 ^ k * of_int x) = of_int (n * x) / 2 ^ k"
    "f32 (of_int m / 2 ^ k * of_int y) = of_int (m * y) / 2 ^ k"
    using roundBits_exact [of "n * x" 24 k] roundBits_exact [of "m * y" 24 k] sum nx by auto
  have fs: "f32 (of_int (n * x) / 2 ^ k + of_int (m * y) / 2 ^ k) = of_int (n * x + m * y) / 2 ^ k"
    using roundBits_exact [of "n * x + m * y" 24 k] sum nx by (simp add: add_divide_distrib)
  have t: "truncInt (of_int (n * x + m * y) / 2 ^ k) = (n * x + m * y) div 2 ^ k"
    using nx by (intro truncInt_div) simp
  have "(n * x + m * y) div 2 ^ k \<le> n * x + m * y" using nx zdiv_mono2 [of "n * x + m * y" 1 "2 ^ k"] by simp
  moreover have "0 \<le> (n * x + m * y) div 2 ^ k" using nx by (simp add: pos_imp_zdiv_nonneg_iff)
  ultimately have "wrapInt64 ((n * x + m * y) div 2 ^ k * Microsecond) = (n * x + m * y) div 2 ^ k * Microsecond"
    using sum by (intro wrapInt64_id) (auto simp: Microsecond_def)
  then show ?thesis unfolding movingAverage_def q fx fp fs t by (simp add: x_def y_def)
qed

text \<open>The two averages of the source, below the size at which \<open>float32\<close> is exact.\<close>

definition exactRTT :: duration where
  "exactRTT = 2 ^ 21 * Microsecond"

lemma smoothed_exact:
  assumes "0 \<le> s" "s < exactRTT" "0 \<le> x" "x < exactRTT"
  shows "movingAverage oneMinusAlpha s rttAlpha x =
         (7 * (s div Microsecond) + x div Microsecond) div 8 * Microsecond"
  using movingAverage_exact [of s x 3 7 1] assms
  by (simp add: exactRTT_def)

lemma deviation_exact:
  assumes "0 \<le> d" "d < exactRTT" "0 \<le> x" "x < exactRTT"
  shows "movingAverage oneMinusBeta d rttBeta x =
         (3 * (d div Microsecond) + x div Microsecond) div 4 * Microsecond"
  using movingAverage_exact [of d x 2 3 1] assms
  by (simp add: exactRTT_def Microsecond_def)

lemma average_between:
  fixes n m :: int
  assumes "0 \<le> n" "0 \<le> m" "0 < n + m"
  shows "min x y \<le> (n * x + m * y) div (n + m)" "(n * x + m * y) div (n + m) \<le> max x y"
proof -
  have "n * min x y + m * min x y \<le> n * x + m * y" "n * x + m * y \<le> n * max x y + m * max x y"
    using assms by (intro add_mono mult_left_mono; simp)+
  then have "(n + m) * min x y \<le> n * x + m * y" "n * x + m * y \<le> (n + m) * max x y"
    by (simp_all add: distrib_right)
  then show "min x y \<le> (n * x + m * y) div (n + m)" "(n * x + m * y) div (n + m) \<le> max x y"
    using assms(3) zdiv_mono1 [of "(n + m) * min x y" "n * x + m * y" "n + m"]
      zdiv_mono1 [of "n * x + m * y" "(n + m) * max x y" "n + m"] by auto
qed

lemma sampleNewMin_keeps [simp]:
  "rtt_minRTT (sampleNewMin s r) = rtt_minRTT r"
  "rtt_smoothedRTT (sampleNewMin s r) = rtt_smoothedRTT r"
  "rtt_meanDeviation (sampleNewMin s r) = rtt_meanDeviation r"
  "rtt_recentMinRTTwindow (sampleNewMin s r) = rtt_recentMinRTTwindow r"
  unfolding sampleNewMin_def Let_def by (cases "0 < rtt_numMinRTTsamplesRemaining r"; simp)+

lemma updateWindows_keeps [simp]:
  "rtt_minRTT (updateWindows s r) = rtt_minRTT r"
  "rtt_smoothedRTT (updateWindows s r) = rtt_smoothedRTT r"
  "rtt_meanDeviation (updateWindows s r) = rtt_meanDeviation r"
  "rtt_recentMinRTTwindow (updateWindows s r) = rtt_recentMinRTTwindow r"
  "rtt_numMinRTTsamplesRemaining (updateWindows s r) = rtt_numMinRTTsamplesRemaining r"
  by (simp_all add: updateWindows_def)

lemma expireWindows_keeps [simp]:
  "rtt_minRTT (expireWindows s now r) = rtt_minRTT r"
  "rtt_smoothedRTT (expireWindows s now r) = rtt_smoothedRTT r"
  "rtt_meanDeviation (expireWindows s now r) = rtt_meanDeviation r"
  "rtt_recentMinRTTwindow (expireWindows s now r) = rtt_recentMinRTTwindow r"
  "rtt_numMinRTTsamplesRemaining (expireWindows s now r) = rtt_numMinRTTsamplesRemaining r"
  by (simp_all add: expireWindows_def)

lemma recent_keeps [simp]:
  "rtt_minRTT (updateRecentMinRTT s now r) = rtt_minRTT r"
  "rtt_smoothedRTT (updateRecentMinRTT s now r) = rtt_smoothedRTT r"
  "rtt_meanDeviation (updateRecentMinRTT s now r) = rtt_meanDeviation r"
  "rtt_recentMinRTTwindow (updateRecentMinRTT s now r) = rtt_recentMinRTTwindow r"
  by (simp_all add: updateRecentMinRTT_def Let_def)

text \<open>The sample that a measurement contributes.\<close>

definition correctedSample :: "duration \<Rightarrow> duration \<Rightarrow> duration" where
  "correctedSample sendDelta ackDelay = (if ackDelay < sendDelta then sendDelta - ackDelay else sendDelta)"

lemma updateAverages_keeps [simp]:
  "rtt_minRTT (updateAverages x r) = rtt_minRTT r"
  "rtt_latestRTT (updateAverages x r) = rtt_latestRTT r"
  "rtt_recentMinRTTwindow (updateAverages x r) = rtt_recentMinRTTwindow r"
  "rtt_numMinRTTsamplesRemaining (updateAverages x r) = rtt_numMinRTTsamplesRemaining r"
  "rtt_recentMinRTT (updateAverages x r) = rtt_recentMinRTT r"
  by (simp_all add: updateAverages_def)

lemma updateAverages_sel:
  "rtt_smoothedRTT (updateAverages x r) =
     (if rtt_smoothedRTT r = 0 then x else movingAverage oneMinusAlpha (rtt_smoothedRTT r) rttAlpha x)"
  "rtt_meanDeviation (updateAverages x r) =
     (if rtt_smoothedRTT r = 0 then go_quot x 2
      else movingAverage oneMinusBeta (rtt_meanDeviation r) rttBeta (AbsDuration (rtt_smoothedRTT r - x)))"
  by (simp_all add: updateAverages_def)

text \<open>What a valid measurement does, in the order of the source.\<close>

lemma UpdateRTT_valid:
  assumes "0 < sendDelta" "sendDelta < InfDuration"
  shows "UpdateRTT sendDelta ackDelay now r =
    updateAverages (correctedSample sendDelta ackDelay)
      ((updateRecentMinRTT sendDelta now
          (if rtt_minRTT r = 0 \<or> sendDelta < rtt_minRTT r then r\<lparr>rtt_minRTT := sendDelta\<rparr> else r))
       \<lparr>rtt_latestRTT := correctedSample sendDelta ackDelay\<rparr>)"
  using assms by (simp add: UpdateRTT_def Let_def correctedSample_def del: if_split)

text \<open>
  C27: The \<open>float32\<close> arithmetic of \<open>UpdateRTT\<close> loses nothing.  For round-trip times
  below \<open>2^21\<close> microseconds (about two seconds) a second or later measurement sets the
  smoothed RTT to \<open>7/8\<close> of the old plus \<open>1/8\<close> of the sample and the mean deviation to
  \<open>3/4\<close> of the old plus \<open>1/4\<close> of the distance, computed exactly in whole microseconds
  and rounded down once.
\<close>

theorem UpdateRTT_exact:
  assumes "0 < sendDelta" "sendDelta < exactRTT" "0 \<le> ackDelay"
    "0 < rtt_smoothedRTT r" "rtt_smoothedRTT r < exactRTT"
    "0 \<le> rtt_meanDeviation r" "rtt_meanDeviation r < exactRTT"
  shows "let r' = UpdateRTT sendDelta ackDelay now r; x = correctedSample sendDelta ackDelay
         in LatestRTT r' = x \<and>
            SmoothedRTT r' = (7 * (SmoothedRTT r div Microsecond) + x div Microsecond) div 8 * Microsecond \<and>
            MeanDeviation r' =
              (3 * (MeanDeviation r div Microsecond) + \<bar>SmoothedRTT r - x\<bar> div Microsecond) div 4 * Microsecond"
proof -
  let ?x = "correctedSample sendDelta ackDelay"
  have x: "0 < ?x" "?x < exactRTT" using assms(1-3) by (auto simp: correctedSample_def)
  have i: "sendDelta < InfDuration"
    using assms(2) by (auto simp: InfDuration_def exactRTT_def Microsecond_def)
  have a: "AbsDuration (rtt_smoothedRTT r - ?x) = \<bar>rtt_smoothedRTT r - ?x\<bar>" by (simp add: AbsDuration_def)
  have d: "\<bar>rtt_smoothedRTT r - ?x\<bar> < exactRTT" using x assms(4,5) by linarith
  have s: "rtt_smoothedRTT (if c then r\<lparr>rtt_minRTT := y\<rparr> else r) = rtt_smoothedRTT r"
    "rtt_meanDeviation (if c then r\<lparr>rtt_minRTT := y\<rparr> else r) = rtt_meanDeviation r" for c y by auto
  note e = smoothed_exact [of "rtt_smoothedRTT r" ?x] deviation_exact [of "rtt_meanDeviation r" "\<bar>rtt_smoothedRTT r - ?x\<bar>"]
  show ?thesis using assms(4-7) x d e
    unfolding UpdateRTT_valid [OF assms(1) i] Let_def LatestRTT_def SmoothedRTT_def MeanDeviation_def
    by (simp add: updateAverages_sel s a del: if_split)
qed

theorem UpdateRTT_exact_witness:
  "let r = NewRTTStats\<lparr>rtt_smoothedRTT := 80000000, rtt_meanDeviation := 4000000\<rparr>;
       r' = UpdateRTT 100000000 4000000 5 r
   in SmoothedRTT r' = 82000000 \<and> MeanDeviation r' = 7000000"
  using UpdateRTT_exact [of 100000000 4000000
      "NewRTTStats\<lparr>rtt_smoothedRTT := 80000000, rtt_meanDeviation := 4000000\<rparr>" 5]
  by (simp add: Let_def exactRTT_def Microsecond_def SmoothedRTT_def MeanDeviation_def correctedSample_def)

subsection \<open>Sequences of measurements\<close>

fun measure_all :: "(duration \<times> duration \<times> time) list \<Rightarrow> RTTStats \<Rightarrow> RTTStats" where
  "measure_all [] r = r"
| "measure_all ((sendDelta, ackDelay, now) # ms) r = measure_all ms (UpdateRTT sendDelta ackDelay now r)"

text \<open>Measurements that a path makes: positive and short, at times of this era.\<close>

fun measurable :: "duration \<times> duration \<times> time \<Rightarrow> bool" where
  "measurable (sendDelta, ackDelay, now) \<longleftrightarrow>
     0 < sendDelta \<and> sendDelta < exactRTT \<and> 0 \<le> ackDelay \<and> 0 \<le> now \<and> now < InfDuration"

text \<open>
  The smoothed RTT is rounded down to whole microseconds, so it is compared with the sample
  that is rounded down.
\<close>

definition wholeMicros :: "duration \<Rightarrow> duration" where
  "wholeMicros d = d div Microsecond * Microsecond"

definition rtt_inv :: "duration \<Rightarrow> duration \<Rightarrow> duration \<Rightarrow> RTTStats \<Rightarrow> bool" where
  "rtt_inv lo smin smax r \<longleftrightarrow>
     rtt_minRTT r = lo \<and> smp_rtt (rtt_recentMinRTT r) = lo \<and> 0 \<le> smp_time (rtt_recentMinRTT r) \<and>
     rtt_recentMinRTTwindow r = InfDuration \<and> rtt_numMinRTTsamplesRemaining r = 0 \<and>
     (rtt_smoothedRTT r = 0 \<or> wholeMicros smin \<le> rtt_smoothedRTT r \<and> 0 < rtt_smoothedRTT r \<and> rtt_smoothedRTT r \<le> smax)"

lemma rtt_inv_new: "rtt_inv 0 smin smax NewRTTStats"
  by (simp add: rtt_inv_def NewRTTStats_def NewRTTStatsWithSmoothedRTT_def zeroSample_def)

lemma updateRecentMinRTT_recent:
  assumes "rtt_recentMinRTTwindow r = InfDuration" "rtt_numMinRTTsamplesRemaining r = 0"
    "0 \<le> smp_time (rtt_recentMinRTT r)" "0 \<le> now" "now < InfDuration"
  shows "rtt_recentMinRTT (updateRecentMinRTT x now r) =
     (if smp_rtt (rtt_recentMinRTT r) = 0 \<or> x \<le> smp_rtt (rtt_recentMinRTT r)
      then \<lparr>smp_rtt = x, smp_time = now\<rparr> else rtt_recentMinRTT r)"
    "rtt_numMinRTTsamplesRemaining (updateRecentMinRTT x now r) = 0"
proof -
  have s: "sampleNewMin y r = r" for y using assms(2) by (simp add: sampleNewMin_def)
  have u: "rtt_recentMinRTT (updateWindows \<lparr>smp_rtt = x, smp_time = now\<rparr> r) =
     (if smp_rtt (rtt_recentMinRTT r) = 0 \<or> x \<le> smp_rtt (rtt_recentMinRTT r)
      then \<lparr>smp_rtt = x, smp_time = now\<rparr> else rtt_recentMinRTT r)"
    by (simp add: updateWindows_def)
  have e: "rtt_recentMinRTT (expireWindows y now q) = rtt_recentMinRTT q"
    if "rtt_recentMinRTTwindow q = InfDuration" "0 \<le> smp_time (rtt_recentMinRTT q)" for y q
    using that assms(5) by (simp add: expireWindows_def)
  show "rtt_recentMinRTT (updateRecentMinRTT x now r) =
     (if smp_rtt (rtt_recentMinRTT r) = 0 \<or> x \<le> smp_rtt (rtt_recentMinRTT r)
      then \<lparr>smp_rtt = x, smp_time = now\<rparr> else rtt_recentMinRTT r)"
    unfolding updateRecentMinRTT_def Let_def s using assms(1,3,4) by (subst e) (simp_all add: u)
  show "rtt_numMinRTTsamplesRemaining (updateRecentMinRTT x now r) = 0"
    unfolding updateRecentMinRTT_def Let_def s using assms(2) by simp
qed

lemma smoothed_between:
  assumes "0 \<le> s" "s < exactRTT" "0 < x" "x < exactRTT" "wholeMicros l \<le> s" "l \<le> x"
  shows "wholeMicros l \<le> movingAverage oneMinusAlpha s rttAlpha x"
    "0 \<le> movingAverage oneMinusAlpha s rttAlpha x" "movingAverage oneMinusAlpha s rttAlpha x \<le> max s x"
proof -
  let ?a = "(7 * (s div Microsecond) + x div Microsecond) div 8"
  have a: "min (s div Microsecond) (x div Microsecond) \<le> ?a" "?a \<le> max (s div Microsecond) (x div Microsecond)"
    using average_between [of 7 1 "s div Microsecond" "x div Microsecond"] by simp_all
  have z: "0 \<le> s div Microsecond" "0 \<le> x div Microsecond" using assms by (simp_all add: Microsecond_def)
  have le: "y div Microsecond * Microsecond \<le> y" for y by (simp add: Microsecond_def)
  have "l div Microsecond \<le> s div Microsecond"
    using zdiv_mono1 [OF assms(5), of Microsecond] by (simp add: wholeMicros_def Microsecond_def)
  moreover have "l div Microsecond \<le> x div Microsecond" using assms(6) by (intro zdiv_mono1) (simp_all add: Microsecond_def)
  ultimately have l: "l div Microsecond \<le> ?a" using a(1) by linarith
  have n: "0 \<le> ?a" using a(1) z by linarith
  have m: "?a * Microsecond \<le> max s x"
  proof (cases "s div Microsecond \<le> x div Microsecond")
    case True
    then have "?a * Microsecond \<le> x div Microsecond * Microsecond" using a(2) by (simp add: Microsecond_def)
    then show ?thesis using le [of x] by linarith
  next
    case False
    then have "?a * Microsecond \<le> s div Microsecond * Microsecond" using a(2) by (simp add: Microsecond_def)
    then show ?thesis using le [of s] by linarith
  qed
  have e: "movingAverage oneMinusAlpha s rttAlpha x = ?a * Microsecond" using smoothed_exact [of s x] assms by simp
  show "movingAverage oneMinusAlpha s rttAlpha x \<le> max s x" using m unfolding e .
  show "0 \<le> movingAverage oneMinusAlpha s rttAlpha x" using n unfolding e by (simp add: Microsecond_def)
  show "wholeMicros l \<le> movingAverage oneMinusAlpha s rttAlpha x"
    using l unfolding e wholeMicros_def by (simp add: Microsecond_def)
qed

lemma wholeMicros_le: "wholeMicros x \<le> x"
  by (simp add: wholeMicros_def Microsecond_def)

text \<open>The first sample is the average, and a later one moves the average towards itself.\<close>

lemma smoothed_step:
  assumes "s = 0 \<or> wholeMicros smin \<le> s \<and> 0 < s \<and> s \<le> smax" "0 < x" "x < exactRTT" "smin \<le> x" "x \<le> smax" "smax < exactRTT"
  defines "s' \<equiv> (if s = 0 then x else movingAverage oneMinusAlpha s rttAlpha x)"
  shows "wholeMicros smin \<le> s'" "0 \<le> s'" "s' \<le> smax"
proof -
  have "wholeMicros smin \<le> s' \<and> 0 \<le> s' \<and> s' \<le> smax"
  proof (cases "s = 0")
    case True
    then show ?thesis using assms(2,4,5) wholeMicros_le [of smin] by (simp add: s'_def)
  next
    case False
    then have s: "0 \<le> s" "s < exactRTT" "wholeMicros smin \<le> s" "s \<le> smax" using assms(1,6) by auto
    then show ?thesis using False smoothed_between [OF s(1,2) assms(2,3) s(3) assms(4)] assms(5) by (simp add: s'_def)
  qed
  then show "wholeMicros smin \<le> s'" "0 \<le> s'" "s' \<le> smax" by blast+
qed

lemma rtt_inv_step:
  assumes "rtt_inv lo smin smax r" "measurable (d, a, now)" "0 \<le> lo" "smax < exactRTT"
    "smin \<le> correctedSample d a" "correctedSample d a \<le> smax"
  shows "rtt_inv (if lo = 0 \<or> d < lo then d else lo) smin smax (UpdateRTT d a now r)"
    "wholeMicros smin \<le> rtt_smoothedRTT (UpdateRTT d a now r)" "0 \<le> rtt_smoothedRTT (UpdateRTT d a now r)"
    "rtt_smoothedRTT (UpdateRTT d a now r) \<le> smax"
proof -
  let ?x = "correctedSample d a"
  let ?q = "if rtt_minRTT r = 0 \<or> d < rtt_minRTT r then r\<lparr>rtt_minRTT := d\<rparr> else r"
  have m: "0 < d" "d < exactRTT" "0 \<le> a" "0 \<le> now" "now < InfDuration" using assms(2) by simp_all
  have x: "0 < ?x" "?x \<le> d" using m by (auto simp: correctedSample_def)
  have i: "d < InfDuration" using m(2) by (simp add: InfDuration_def exactRTT_def Microsecond_def)
  have q: "rtt_recentMinRTTwindow ?q = InfDuration" "rtt_numMinRTTsamplesRemaining ?q = 0"
    "rtt_recentMinRTT ?q = rtt_recentMinRTT r" "rtt_smoothedRTT ?q = rtt_smoothedRTT r"
    "rtt_minRTT ?q = (if lo = 0 \<or> d < lo then d else lo)"
    "0 \<le> smp_time (rtt_recentMinRTT ?q)" "smp_rtt (rtt_recentMinRTT r) = lo"
    using assms(1) by (auto simp: rtt_inv_def)
  note u = updateRecentMinRTT_recent [OF q(1,2,6) m(4,5)]
  have s: "rtt_smoothedRTT r = 0 \<or> wholeMicros smin \<le> rtt_smoothedRTT r \<and> 0 < rtt_smoothedRTT r \<and> rtt_smoothedRTT r \<le> smax"
    using assms(1) by (simp add: rtt_inv_def)
  have sm: "rtt_smoothedRTT (UpdateRTT d a now r) =
      (if rtt_smoothedRTT r = 0 then ?x else movingAverage oneMinusAlpha (rtt_smoothedRTT r) rttAlpha ?x)"
    unfolding UpdateRTT_valid [OF m(1) i] by (simp add: updateAverages_sel q(4) del: if_split)
  have "?x < exactRTT" using x(2) m(2) by simp
  note b = smoothed_step [OF s x(1) this assms(5,6,4), folded sm]
  then show "wholeMicros smin \<le> rtt_smoothedRTT (UpdateRTT d a now r)" "0 \<le> rtt_smoothedRTT (UpdateRTT d a now r)"
    "rtt_smoothedRTT (UpdateRTT d a now r) \<le> smax" by simp_all
  have "rtt_minRTT (UpdateRTT d a now r) = (if lo = 0 \<or> d < lo then d else lo)"
    "rtt_recentMinRTTwindow (UpdateRTT d a now r) = InfDuration" "rtt_numMinRTTsamplesRemaining (UpdateRTT d a now r) = 0"
    "rtt_recentMinRTT (UpdateRTT d a now r) = (if lo = 0 \<or> d \<le> lo then \<lparr>smp_rtt = d, smp_time = now\<rparr> else rtt_recentMinRTT r)"
    unfolding UpdateRTT_valid [OF m(1) i] by (simp_all add: u q del: if_split)
  then show "rtt_inv (if lo = 0 \<or> d < lo then d else lo) smin smax (UpdateRTT d a now r)"
    using b assms(1,3) m(4) by (auto simp: rtt_inv_def)
qed

definition samples :: "(duration \<times> duration \<times> time) list \<Rightarrow> duration set" where
  "samples ms = (\<lambda>(sendDelta, ackDelay, now). correctedSample sendDelta ackDelay) ` set ms"

lemma rtt_inv_measure_all:
  assumes "rtt_inv lo smin smax r" "list_all measurable ms" "0 < lo" "smax < exactRTT"
    "\<forall>x\<in>samples ms. smin \<le> x \<and> x \<le> smax"
    "wholeMicros smin \<le> rtt_smoothedRTT r" "0 \<le> rtt_smoothedRTT r" "rtt_smoothedRTT r \<le> smax"
  shows "rtt_inv (Min (insert lo (fst ` set ms))) smin smax (measure_all ms r) \<and>
    wholeMicros smin \<le> rtt_smoothedRTT (measure_all ms r) \<and> 0 \<le> rtt_smoothedRTT (measure_all ms r) \<and>
    rtt_smoothedRTT (measure_all ms r) \<le> smax"
  using assms
proof (induction ms arbitrary: lo r)
  case (Cons m ms)
  obtain d a now where m: "m = (d, a, now)" by (cases m)
  have v: "measurable (d, a, now)" "list_all measurable ms" using Cons.prems(2) m by simp_all
  have b: "smin \<le> correctedSample d a" "correctedSample d a \<le> smax" "\<forall>x\<in>samples ms. smin \<le> x \<and> x \<le> smax"
    using Cons.prems(5) by (simp_all add: samples_def m)
  have lo: "(if lo = 0 \<or> d < lo then d else lo) = min lo d" "0 < min lo d" using Cons.prems(3) v(1) by auto
  note st = rtt_inv_step [OF Cons.prems(1) v(1) less_imp_le [OF Cons.prems(3)] Cons.prems(4) b(1,2), unfolded lo(1)]
  have "Min (insert (min lo d) (fst ` set ms)) = Min (insert lo (insert d (fst ` set ms)))"
    by (cases "set ms = {}") (simp_all add: min.assoc)
  then show ?case using Cons.IH [OF st(1) v(2) lo(2) Cons.prems(4) b(3) st(2-4)] by (simp add: m)
qed simp

text \<open>
  C26: The estimates after any sequence of measurements.  When a path makes one or
  more measurements, each of them positive and below about two seconds, its minimum RTT and
  its recent minimum RTT are the smallest measured time.  Its smoothed RTT is within the range
  of the samples, which are the measured times less the delays of the acknowledgements: it is
  not above the largest sample, and not below the smallest one rounded down to whole
  microseconds.  It may well be below the minimum RTT, which is taken before the delay is
  subtracted.
\<close>

theorem rtt_estimates:
  assumes "list_all measurable ms" "ms \<noteq> []"
  shows "let r = measure_all ms NewRTTStats
         in MinRTT r = Min (fst ` set ms) \<and> RecentMinRTT r = Min (fst ` set ms) \<and>
            Min (samples ms) div Microsecond * Microsecond \<le> SmoothedRTT r \<and> 0 \<le> SmoothedRTT r \<and>
            SmoothedRTT r \<le> Max (samples ms)"
proof -
  obtain d a now ns where ms: "ms = (d, a, now) # ns" using assms(2) by (cases ms) auto
  have v: "measurable (d, a, now)" "list_all measurable ns" using assms(1) ms by simp_all
  have fin: "finite (samples ms)" "samples ms \<noteq> {}" by (simp_all add: samples_def ms)
  have b: "\<forall>x\<in>samples ms. Min (samples ms) \<le> x \<and> x \<le> Max (samples ms)" using fin by simp
  then have f: "Min (samples ms) \<le> correctedSample d a" "correctedSample d a \<le> Max (samples ms)"
    "\<forall>x\<in>samples ns. Min (samples ms) \<le> x \<and> x \<le> Max (samples ms)" by (simp_all add: samples_def ms)
  have "x < exactRTT" if "x \<in> samples ms" for x
    using that assms(1) by (auto simp: samples_def correctedSample_def list_all_iff)
  then have mx: "Max (samples ms) < exactRTT" using fin by simp
  note st = rtt_inv_step [OF rtt_inv_new v(1) order.refl mx f(1,2)]
  have d: "(if (0 :: duration) = 0 \<or> d < 0 then d else 0) = d" "0 < d" using v(1) by simp_all
  from rtt_inv_measure_all [OF st(1) [unfolded d(1)] v(2) d(2) mx f(3) st(2-4)] show ?thesis
    by (simp add: ms rtt_inv_def wholeMicros_def Let_def MinRTT_def RecentMinRTT_def SmoothedRTT_def)
qed

text \<open>
  A measurement of 20 ms with a delay of 15 ms is a sample of 5 ms, which becomes the smoothed
  RTT; later samples pull it up again.
\<close>

theorem rtt_estimates_witness:
  "let r = measure_all [(20000000, 15000000, 10), (30000000, 0, 20)] NewRTTStats
   in MinRTT r = 20000000 \<and> 5000000 \<le> SmoothedRTT r \<and> SmoothedRTT r \<le> 30000000"
  using rtt_estimates [of "[(20000000, 15000000, 10), (30000000, 0, 20)]"]
  by (simp add: Let_def exactRTT_def Microsecond_def InfDuration_def samples_def correctedSample_def)

end
