(* ===== verification/Congestion.thy ===== *)
theory Congestion
  imports RttStats
begin

text \<open>
  What the congestion controllers share (\<open>congestion/\<close>): bandwidths, the bandwidth
  statistics, Proportional Rate Reduction, hybrid slow start, and the interface
  \<open>SendAlgorithm\<close>.  A value of the interface is a table of its methods over a state
  type; a method that reads the clock or the round-trip statistics, which the
  controller shares with its path, gets them as arguments.
\<close>

section \<open>Bandwidth\<close>

type_synonym Bandwidth = u64

abbreviation (input) DefaultTCPMSS :: ByteCount where "DefaultTCPMSS \<equiv> 1460"
abbreviation (input) InitialCongestionWindow :: PacketNumber where "InitialCongestionWindow \<equiv> 32"
abbreviation (input) BitsPerSecond :: Bandwidth where "BitsPerSecond \<equiv> 1"
abbreviation (input) BytesPerSecond :: Bandwidth where "BytesPerSecond \<equiv> 8 * BitsPerSecond"

definition BandwidthFromDelta :: "ByteCount \<Rightarrow> duration \<Rightarrow> Bandwidth result" where
  "BandwidthFromDelta bytes d =
     (if (word_of_int d :: Bandwidth) = 0 then Inl (GoPanic ''integer divide by zero'')
      else Inr (bytes * word_of_int Second div word_of_int d * BytesPerSecond))"

record BDWStats =
  bdw_bandwidth :: Bandwidth
  bdw_compareWindow :: "Bandwidth list"
  bdw_roundRobinIndex :: byte

definition NewBDWStats :: "Bandwidth \<Rightarrow> BDWStats" where
  "NewBDWStats bandwidth =
     \<lparr>bdw_bandwidth = bandwidth, bdw_compareWindow = replicate 10 0, bdw_roundRobinIndex = 0\<rparr>"

definition GetBandwidth :: "BDWStats \<Rightarrow> Bandwidth" where
  "GetBandwidth b = bdw_bandwidth b div 1048576"

text \<open>The update is switched off by a local variable of the method.\<close>

definition UpdateBDW :: "ByteCount \<Rightarrow> duration \<Rightarrow> BDWStats \<Rightarrow> BDWStats" where
  "UpdateBDW sentDelta sentDelay b =
     (let disable = True
      in if \<not> disable
         then let bdw = sentDelta * word_of_int Second div word_of_int sentDelay * BytesPerSecond;
                  size = word_of_nat (length (bdw_compareWindow b));
                  window = (bdw_compareWindow b)[unat (bdw_roundRobinIndex b mod size) := bdw]
              in b\<lparr>bdw_compareWindow := window,
                   bdw_roundRobinIndex := (bdw_roundRobinIndex b + 1) mod size,
                   bdw_bandwidth := fold max window (bdw_bandwidth b)\<rparr>
         else b)"

section \<open>Proportional Rate Reduction\<close>

record PrrSender =
  prr_bytesSentSinceLoss :: ByteCount
  prr_bytesDeliveredSinceLoss :: ByteCount
  prr_ackCountSinceLoss :: ByteCount
  prr_bytesInFlightBeforeLoss :: ByteCount

definition zeroPrrSender :: PrrSender where
  "zeroPrrSender = \<lparr>prr_bytesSentSinceLoss = 0, prr_bytesDeliveredSinceLoss = 0,
     prr_ackCountSinceLoss = 0, prr_bytesInFlightBeforeLoss = 0\<rparr>"

definition prr_OnPacketSent :: "ByteCount \<Rightarrow> PrrSender \<Rightarrow> PrrSender" where
  "prr_OnPacketSent sentBytes p = p\<lparr>prr_bytesSentSinceLoss := prr_bytesSentSinceLoss p + sentBytes\<rparr>"

definition prr_OnPacketLost :: "ByteCount \<Rightarrow> PrrSender \<Rightarrow> PrrSender" where
  "prr_OnPacketLost bytesInFlight p =
     p\<lparr>prr_bytesSentSinceLoss := 0, prr_bytesInFlightBeforeLoss := bytesInFlight,
       prr_bytesDeliveredSinceLoss := 0, prr_ackCountSinceLoss := 0\<rparr>"

definition prr_OnPacketAcked :: "ByteCount \<Rightarrow> PrrSender \<Rightarrow> PrrSender" where
  "prr_OnPacketAcked ackedBytes p =
     p\<lparr>prr_bytesDeliveredSinceLoss := prr_bytesDeliveredSinceLoss p + ackedBytes,
       prr_ackCountSinceLoss := prr_ackCountSinceLoss p + 1\<rparr>"

definition prr_TimeUntilSend :: "ByteCount \<Rightarrow> ByteCount \<Rightarrow> ByteCount \<Rightarrow> PrrSender \<Rightarrow> duration" where
  "prr_TimeUntilSend congestionWindow bytesInFlight slowstartThreshold p =
     (if prr_bytesSentSinceLoss p = 0 \<or> bytesInFlight < DefaultTCPMSS then 0
      else if congestionWindow > bytesInFlight
      then if prr_bytesDeliveredSinceLoss p + prr_ackCountSinceLoss p * DefaultTCPMSS
                \<le> prr_bytesSentSinceLoss p
           then InfDuration else 0
      else if prr_bytesDeliveredSinceLoss p * slowstartThreshold
                > prr_bytesSentSinceLoss p * prr_bytesInFlightBeforeLoss p
      then 0 else InfDuration)"

section \<open>Hybrid slow start\<close>

abbreviation (input) hybridStartLowWindow :: ByteCount where "hybridStartLowWindow \<equiv> 16"
abbreviation (input) hybridStartMinSamples :: u32 where "hybridStartMinSamples \<equiv> 8"
abbreviation (input) hybridStartDelayFactorExp :: nat where "hybridStartDelayFactorExp \<equiv> 3"
abbreviation (input) hybridStartDelayMinThresholdUs :: int where "hybridStartDelayMinThresholdUs \<equiv> 4000"
abbreviation (input) hybridStartDelayMaxThresholdUs :: int where "hybridStartDelayMaxThresholdUs \<equiv> 16000"

record HybridSlowStart =
  hss_endPacketNumber :: PacketNumber
  hss_lastSentPacketNumber :: PacketNumber
  hss_started :: bool
  hss_currentMinRTT :: duration
  hss_rttSampleCount :: u32
  hss_hystartFound :: bool

definition zeroHybridSlowStart :: HybridSlowStart where
  "zeroHybridSlowStart = \<lparr>hss_endPacketNumber = 0, hss_lastSentPacketNumber = 0, hss_started = False,
     hss_currentMinRTT = 0, hss_rttSampleCount = 0, hss_hystartFound = False\<rparr>"

definition StartReceiveRound :: "PacketNumber \<Rightarrow> HybridSlowStart \<Rightarrow> HybridSlowStart" where
  "StartReceiveRound lastSent s =
     s\<lparr>hss_endPacketNumber := lastSent, hss_currentMinRTT := 0, hss_rttSampleCount := 0, hss_started := True\<rparr>"

definition IsEndOfRound :: "PacketNumber \<Rightarrow> HybridSlowStart \<Rightarrow> bool" where
  "IsEndOfRound ack s \<longleftrightarrow> hss_endPacketNumber s < ack"

definition minRTTincreaseThreshold :: "duration \<Rightarrow> duration" where
  "minRTTincreaseThreshold minRTT =
     (let us = go_quot minRTT Microsecond div 2 ^ hybridStartDelayFactorExp;
          us = MinInt64 us hybridStartDelayMaxThresholdUs
      in MaxInt64 us hybridStartDelayMinThresholdUs * Microsecond)"

definition sampleDelay :: "duration \<Rightarrow> duration \<Rightarrow> HybridSlowStart \<Rightarrow> HybridSlowStart" where
  "sampleDelay latestRTT minRTT s =
     (let s = s\<lparr>hss_rttSampleCount := hss_rttSampleCount s + 1\<rparr>;
          s = (if hss_rttSampleCount s \<le> hybridStartMinSamples \<and>
                  (hss_currentMinRTT s = 0 \<or> hss_currentMinRTT s > latestRTT)
               then s\<lparr>hss_currentMinRTT := latestRTT\<rparr> else s)
      in if hss_rttSampleCount s = hybridStartMinSamples \<and>
            hss_currentMinRTT s > minRTT + minRTTincreaseThreshold minRTT
         then s\<lparr>hss_hystartFound := True\<rparr> else s)"

definition ShouldExitSlowStart ::
    "duration \<Rightarrow> duration \<Rightarrow> ByteCount \<Rightarrow> HybridSlowStart \<Rightarrow> HybridSlowStart \<times> bool" where
  "ShouldExitSlowStart latestRTT minRTT congestionWindow s =
     (let s = (if \<not> hss_started s then StartReceiveRound (hss_lastSentPacketNumber s) s else s)
      in if hss_hystartFound s then (s, True)
         else let s = sampleDelay latestRTT minRTT s
              in (s, congestionWindow \<ge> hybridStartLowWindow \<and> hss_hystartFound s))"

definition hss_OnPacketSent :: "PacketNumber \<Rightarrow> HybridSlowStart \<Rightarrow> HybridSlowStart" where
  "hss_OnPacketSent packetNumber s = s\<lparr>hss_lastSentPacketNumber := packetNumber\<rparr>"

definition hss_OnPacketAcked :: "PacketNumber \<Rightarrow> HybridSlowStart \<Rightarrow> HybridSlowStart" where
  "hss_OnPacketAcked ackedPacketNumber s =
     (if IsEndOfRound ackedPacketNumber s then s\<lparr>hss_started := False\<rparr> else s)"

definition Started :: "HybridSlowStart \<Rightarrow> bool" where "Started s = hss_started s"

definition Restart :: "HybridSlowStart \<Rightarrow> HybridSlowStart" where
  "Restart s = s\<lparr>hss_started := False, hss_hystartFound := False\<rparr>"

record connectionStats =
  cst_slowstartPacketsLost :: PacketNumber
  cst_slowstartBytesLost :: ByteCount

section \<open>The interface of a congestion controller\<close>

record 'c SendAlgorithm =
  alg_TimeUntilSend :: "time \<Rightarrow> ByteCount \<Rightarrow> 'c \<Rightarrow> duration"
  alg_OnPacketSent :: "time \<Rightarrow> ByteCount \<Rightarrow> PacketNumber \<Rightarrow> ByteCount \<Rightarrow> bool \<Rightarrow> 'c \<Rightarrow> 'c \<times> bool"
  alg_GetCongestionWindow :: "'c \<Rightarrow> ByteCount"
  alg_MaybeExitSlowStart :: "RTTStats \<Rightarrow> 'c \<Rightarrow> 'c"
  alg_OnPacketAcked :: "RTTStats \<Rightarrow> time \<Rightarrow> PacketNumber \<Rightarrow> ByteCount \<Rightarrow> ByteCount \<Rightarrow> 'c \<Rightarrow> 'c"
  alg_OnPacketLost :: "PacketNumber \<Rightarrow> ByteCount \<Rightarrow> ByteCount \<Rightarrow> 'c \<Rightarrow> 'c"
  alg_SetNumEmulatedConnections :: "int \<Rightarrow> 'c \<Rightarrow> 'c"
  alg_OnRetransmissionTimeout :: "bool \<Rightarrow> 'c \<Rightarrow> 'c"
  alg_OnConnectionMigration :: "'c \<Rightarrow> 'c"
  alg_RetransmissionDelay :: "RTTStats \<Rightarrow> 'c \<Rightarrow> duration"
  alg_SmoothedRTT :: "RTTStats \<Rightarrow> 'c \<Rightarrow> duration"
  alg_SetSlowStartLargeReduction :: "bool \<Rightarrow> 'c \<Rightarrow> 'c"

end
