(* ===== verification/StreamFrames.thy ===== *)
theory StreamFrames
  imports Frames
begin

text \<open>
  STREAM frames (\<open>internal/wire/stream_frame.go\<close>): a type byte that carries the
  FIN bit, the presence of a length field and the widths of the stream ID and the
  offset, followed by those fields and the data.  A frame without length field
  extends to the end of the packet.
\<close>

record StreamFrame =
  sf_StreamID :: StreamID
  sf_FinBit :: bool
  sf_DataLenPresent :: bool
  sf_Offset :: ByteCount
  sf_Data :: "byte list"

abbreviation (input) errInvalidStreamIDLen :: go_error where
  "errInvalidStreamIDLen \<equiv> GoError ''StreamFrame: Invalid StreamID length''"
abbreviation (input) errInvalidOffsetLen :: go_error where
  "errInvalidOffsetLen \<equiv> GoError ''StreamFrame: Invalid offset length''"

definition StreamFrame_DataLen :: "StreamFrame \<Rightarrow> ByteCount" where
  "StreamFrame_DataLen f = of_nat (length (sf_Data f))"

text \<open>The fields after the type byte, read with the flags and widths it gives.\<close>

definition parseStreamFields ::
  "VersionNumber \<Rightarrow> bool \<Rightarrow> bool \<Rightarrow> byte \<Rightarrow> byte \<Rightarrow> byte list \<Rightarrow> StreamFrame parsed" where
  "parseStreamFields version finBit dataLenPresent offsetLen streamIDLen r =
     rbind (ReadUintN (GetByteOrder version) r streamIDLen) (\<lambda>sid r.
     rbind (ReadUintN (GetByteOrder version) r offsetLen) (\<lambda>offset r.
     rbind (if dataLenPresent then ReadUint16 (GetByteOrder version) r else Inr (0, r))
       (\<lambda>dataLen r.
       if dataLen > ucast MaxPacketSize
       then Inl (QuicError InvalidStreamData ''data len too large'')
       else
         let dataLen = (if \<not> dataLenPresent then of_nat (length r) else dataLen)
         in rbind (if dataLen \<noteq> 0 then ReadFull (unat dataLen) r else Inr ([], r))
           (\<lambda>data r.
           let frame = \<lparr>sf_StreamID = ucast sid, sf_FinBit = finBit,
                 sf_DataLenPresent = dataLenPresent, sf_Offset = offset, sf_Data = data\<rparr>
           in if sf_Offset frame + StreamFrame_DataLen frame < sf_Offset frame
              then Inl (QuicError InvalidStreamData ''data overflows maximum offset'')
              else if \<not> sf_FinBit frame \<and> StreamFrame_DataLen frame = 0
              then Inl (ErrorCode EmptyStreamFrameNoFin)
              else Inr (frame, r)))))"

definition ParseStreamFrame :: "byte list \<Rightarrow> VersionNumber \<Rightarrow> StreamFrame parsed" where
  "ParseStreamFrame r version =
     rbind (ReadByte r) (\<lambda>typeByte r.
       let finBit = typeByte AND 0x40 > 0;
           dataLenPresent = typeByte AND 0x20 > 0;
           offsetLen = drop_bit 2 (typeByte AND 0x1c);
           offsetLen = (if offsetLen \<noteq> 0 then offsetLen + 1 else offsetLen);
           streamIDLen = (typeByte AND 0x3) + 1
       in parseStreamFields version finBit dataLenPresent offsetLen streamIDLen r)"

definition calculateStreamIDLength :: "StreamFrame \<Rightarrow> byte" where
  "calculateStreamIDLength f =
     (if sf_StreamID f < push_bit 8 1 then 1
      else if sf_StreamID f < push_bit 16 1 then 2
      else if sf_StreamID f < push_bit 24 1 then 3
      else 4)"

definition getOffsetLength :: "StreamFrame \<Rightarrow> ByteCount" where
  "getOffsetLength f =
     (if sf_Offset f = 0 then 0
      else if sf_Offset f < push_bit 16 1 then 2
      else if sf_Offset f < push_bit 24 1 then 3
      else if sf_Offset f < push_bit 32 1 then 4
      else if sf_Offset f < push_bit 40 1 then 5
      else if sf_Offset f < push_bit 48 1 then 6
      else if sf_Offset f < push_bit 56 1 then 7
      else 8)"

text \<open>The three parts of \<open>Write\<close>: the type byte and the two variable-width fields.\<close>

definition StreamFrame_typeByte :: "bool \<Rightarrow> bool \<Rightarrow> ByteCount \<Rightarrow> byte \<Rightarrow> byte" where
  "StreamFrame_typeByte finBit dataLenPresent offsetLength streamIDLen =
     (let typeByte = 0x80;
          typeByte = (if finBit then typeByte XOR 0x40 else typeByte);
          typeByte = (if dataLenPresent then typeByte XOR 0x20 else typeByte);
          typeByte = (if offsetLength > 0
                      then typeByte XOR push_bit 2 (ucast offsetLength - 1) else typeByte)
      in typeByte XOR (streamIDLen - 1))"

definition StreamFrame_writeStreamID :: "StreamFrame \<Rightarrow> VersionNumber \<Rightarrow> byte list result" where
  "StreamFrame_writeStreamID f version =
     (let streamIDLen = calculateStreamIDLength f; bo = GetByteOrder version
      in if streamIDLen = 1 then Inr [ucast (sf_StreamID f)]
         else if streamIDLen = 2 then Inr (WriteUint16 bo (ucast (sf_StreamID f)))
         else if streamIDLen = 3 then WriteUint24 bo (ucast (sf_StreamID f))
         else if streamIDLen = 4 then Inr (WriteUint32 bo (ucast (sf_StreamID f)))
         else Inl errInvalidStreamIDLen)"

definition StreamFrame_writeOffset :: "StreamFrame \<Rightarrow> VersionNumber \<Rightarrow> byte list result" where
  "StreamFrame_writeOffset f version =
     (let offsetLength = getOffsetLength f; bo = GetByteOrder version
      in if offsetLength = 0 then Inr []
         else if offsetLength = 2 then Inr (WriteUint16 bo (ucast (sf_Offset f)))
         else if offsetLength = 3 then WriteUint24 bo (ucast (sf_Offset f))
         else if offsetLength = 4 then Inr (WriteUint32 bo (ucast (sf_Offset f)))
         else if offsetLength = 5 then WriteUint40 bo (sf_Offset f)
         else if offsetLength = 6 then WriteUint48 bo (sf_Offset f)
         else if offsetLength = 7 then WriteUint56 bo (sf_Offset f)
         else if offsetLength = 8 then Inr (WriteUint64 bo (sf_Offset f))
         else Inl errInvalidOffsetLen)"

definition StreamFrame_Write :: "StreamFrame \<Rightarrow> VersionNumber \<Rightarrow> byte list result" where
  "StreamFrame_Write f version =
     (if length (sf_Data f) = 0 \<and> \<not> sf_FinBit f
      then Inl (GoError ''StreamFrame: attempting to write empty frame without FIN'')
      else
        let typeByte = StreamFrame_typeByte (sf_FinBit f) (sf_DataLenPresent f)
              (getOffsetLength f) (calculateStreamIDLength f)
        in wbind (StreamFrame_writeStreamID f version) (\<lambda>sid.
           wbind (StreamFrame_writeOffset f version) (\<lambda>offset.
             Inr ([typeByte] @ sid @ offset
               @ (if sf_DataLenPresent f
                  then WriteUint16 (GetByteOrder version) (of_nat (length (sf_Data f))) else [])
               @ sf_Data f))))"

definition StreamFrame_MinLength :: "StreamFrame \<Rightarrow> VersionNumber \<Rightarrow> ByteCount result" where
  "StreamFrame_MinLength f version =
     (let length = 1 + ucast (calculateStreamIDLength f) + getOffsetLength f
      in if sf_DataLenPresent f then Inr (length + 2) else Inr length)"

section \<open>The fields\<close>

lemma StreamID_length:
  "StreamFrame_writeStreamID f v =
     Inr (bo_enc (GetByteOrder v) (unat (calculateStreamIDLength f)) (unat (sf_StreamID f)))"
  "unat (sf_StreamID f) < 256 ^ unat (calculateStreamIDLength f)"
  "calculateStreamIDLength f \<in> {1, 2, 3, 4}"
proof -
  show "unat (sf_StreamID f) < 256 ^ unat (calculateStreamIDLength f)"
    using unat_bound_u32 [of "sf_StreamID f"]
    by (simp add: calculateStreamIDLength_def word_less_nat_alt)
  show "StreamFrame_writeStreamID f v =
     Inr (bo_enc (GetByteOrder v) (unat (calculateStreamIDLength f)) (unat (sf_StreamID f)))"
    using write_field_1 [of "sf_StreamID f" "GetByteOrder v"]
      write_field_4 [of "GetByteOrder v" "sf_StreamID f"]
      write_field_3 [of "sf_StreamID f" "GetByteOrder v"]
    by (simp add: calculateStreamIDLength_def StreamFrame_writeStreamID_def Let_def
        write_fields write_field_3 word_less_nat_alt)
  show "calculateStreamIDLength f \<in> {1, 2, 3, 4}"
    by (simp add: calculateStreamIDLength_def)
qed

lemma Offset_length:
  "StreamFrame_writeOffset f v =
     Inr (bo_enc (GetByteOrder v) (unat (getOffsetLength f)) (unat (sf_Offset f)))"
  "unat (sf_Offset f) < 256 ^ unat (getOffsetLength f)"
  "getOffsetLength f \<in> {0, 2, 3, 4, 5, 6, 7, 8}"
proof -
  have enc_0: "bo_enc (GetByteOrder v) 0 x = []" for x
    using bo.length_enc [of "GetByteOrder v" 0 x] by (simp only: length_0_conv)
  show "unat (sf_Offset f) < 256 ^ unat (getOffsetLength f)"
    using unat_bound_u64 [of "sf_Offset f"]
    by (simp add: getOffsetLength_def word_less_nat_alt)
  show "StreamFrame_writeOffset f v =
     Inr (bo_enc (GetByteOrder v) (unat (getOffsetLength f)) (unat (sf_Offset f)))"
    by (simp add: enc_0 getOffsetLength_def StreamFrame_writeOffset_def Let_def write_fields
        write_field_3 word_less_nat_alt bo.fits_ok [OF bo.w40] bo.fits_ok [OF bo.w48]
        bo.fits_ok [OF bo.w56] bo.w64)
  show "getOffsetLength f \<in> {0, 2, 3, 4, 5, 6, 7, 8}"
    by (simp add: getOffsetLength_def)
qed

text \<open>The type byte determines the flags and the two widths.\<close>

lemma typeByte_fields:
  fixes fin dlp :: bool
  assumes "o8 \<in> {0, 2, 3, 4, 5, 6, 7, 8 :: u64}" "s \<in> {1, 2, 3, 4 :: byte}"
  defines "t \<equiv> StreamFrame_typeByte fin dlp o8 s"
  shows "t AND 0x40 > 0 \<longleftrightarrow> fin" "t AND 0x20 > 0 \<longleftrightarrow> dlp" "(t AND 0x3) + 1 = s"
    and "(if drop_bit 2 (t AND 0x1c) \<noteq> 0 then drop_bit 2 (t AND 0x1c) + 1
          else drop_bit 2 (t AND 0x1c)) = ucast o8"
    and "t AND 0x80 > 0"
  using assms(1,2) unfolding t_def
  by (cases fin; cases dlp; auto simp: StreamFrame_typeByte_def)+

section \<open>Round trip\<close>

lemma StreamFrame_eta [simp]:
  "\<lparr>sf_StreamID = sf_StreamID f, sf_FinBit = sf_FinBit f,
    sf_DataLenPresent = sf_DataLenPresent f, sf_Offset = sf_Offset f, sf_Data = sf_Data f\<rparr> = f"
  by (cases f) simp

text \<open>The frames a sender may write; \<open>m\<close> bounds the length of the data.\<close>

definition StreamFrame_valid :: "nat \<Rightarrow> StreamFrame \<Rightarrow> bool" where
  "StreamFrame_valid m f \<longleftrightarrow>
     (sf_Data f \<noteq> [] \<or> sf_FinBit f) \<and> length (sf_Data f) \<le> m \<and>
     unat (sf_Offset f) + length (sf_Data f) < 2 ^ 64"

lemma StreamFrame_Write_valid:
  assumes "StreamFrame_valid m f"
  shows "StreamFrame_Write f v = Inr (StreamFrame_typeByte (sf_FinBit f) (sf_DataLenPresent f)
      (getOffsetLength f) (calculateStreamIDLength f)
    # bo_enc (GetByteOrder v) (unat (calculateStreamIDLength f)) (unat (sf_StreamID f))
    @ bo_enc (GetByteOrder v) (unat (getOffsetLength f)) (unat (sf_Offset f))
    @ (if sf_DataLenPresent f then WriteUint16 (GetByteOrder v) (of_nat (length (sf_Data f))) else [])
    @ sf_Data f)"
  using assms by (auto simp: StreamFrame_Write_def StreamFrame_valid_def Let_def
      StreamID_length(1) Offset_length(1))

lemma StreamFrame_Write_length:
  assumes "StreamFrame_valid m f" "StreamFrame_Write f v = Inr bs"
  shows "StreamFrame_MinLength f v = Inr (of_nat (length bs - length (sf_Data f)))"
    and "length (sf_Data f) < length bs"
  using assms(2) StreamID_length(3) [of f] Offset_length(3) [of f]
  unfolding StreamFrame_Write_valid [OF assms(1)]
  by (auto simp: StreamFrame_MinLength_def Let_def)

lemma read_StreamID:
  "ReadUintN (GetByteOrder v) (bo_enc (GetByteOrder v) (unat (calculateStreamIDLength f))
      (unat (sf_StreamID f)) @ r) (calculateStreamIDLength f) = Inr (ucast (sf_StreamID f), r)"
proof -
  have "unat (ucast (sf_StreamID f) :: u64) = unat (sf_StreamID f)"
    by (simp add: unat_ucast_up)
  then show ?thesis
    using bo.rN_enc [of "calculateStreamIDLength f" "ucast (sf_StreamID f)" "GetByteOrder v" r]
      StreamID_length(2,3) [of f] by auto
qed

lemma read_Offset:
  "ReadUintN (GetByteOrder v) (bo_enc (GetByteOrder v) (unat (getOffsetLength f))
      (unat (sf_Offset f)) @ r) (ucast (getOffsetLength f)) = Inr (sf_Offset f, r)"
proof -
  have "unat (ucast (getOffsetLength f) :: byte) = unat (getOffsetLength f)"
      "unat (getOffsetLength f) \<le> 8"
    using Offset_length(3) [of f] by auto
  then show ?thesis
    using bo.rN_enc [of "ucast (getOffsetLength f)" "sf_Offset f" "GetByteOrder v" r]
      Offset_length(2) [of f] by auto
qed

lemma StreamFrame_no_overflow:
  assumes "StreamFrame_valid m f"
  shows "\<not> sf_Offset f + StreamFrame_DataLen f < sf_Offset f"
    and "\<not> sf_FinBit f \<Longrightarrow> StreamFrame_DataLen f \<noteq> 0"
proof -
  have len: "unat (StreamFrame_DataLen f) = length (sf_Data f)"
    using assms by (simp add: StreamFrame_DataLen_def StreamFrame_valid_def unat_of_nat)
  then have "unat (sf_Offset f + StreamFrame_DataLen f) = unat (sf_Offset f) + length (sf_Data f)"
    using assms by (simp add: StreamFrame_valid_def unat_word_ariths)
  then show "\<not> sf_Offset f + StreamFrame_DataLen f < sf_Offset f"
    by (simp add: word_less_nat_alt)
  show "\<not> sf_FinBit f \<Longrightarrow> StreamFrame_DataLen f \<noteq> 0"
    using assms len by (auto simp: StreamFrame_valid_def)
qed

lemma parse_StreamFields:
  assumes valid: "StreamFrame_valid m f"
    and len: "if sf_DataLenPresent f then m \<le> unat MaxPacketSize else m < 2 ^ 16 \<and> r = []"
  shows "parseStreamFields v (sf_FinBit f) (sf_DataLenPresent f) (ucast (getOffsetLength f))
      (calculateStreamIDLength f)
      (bo_enc (GetByteOrder v) (unat (calculateStreamIDLength f)) (unat (sf_StreamID f))
       @ bo_enc (GetByteOrder v) (unat (getOffsetLength f)) (unat (sf_Offset f))
       @ (if sf_DataLenPresent f then WriteUint16 (GetByteOrder v) (of_nat (length (sf_Data f)))
          else []) @ sf_Data f @ r) = Inr (f, r)"
proof -
  have m: "length (sf_Data f) \<le> m" using valid by (simp add: StreamFrame_valid_def)
  have l: "unat (of_nat (length (sf_Data f)) :: u16) = length (sf_Data f)"
    using m len by (auto simp: unat_of_nat unat_MaxPacketSize split: if_splits)
  have small: "\<not> ucast MaxPacketSize < (of_nat (length (sf_Data f)) :: u16)"
    if "sf_DataLenPresent f"
    using m len that by (simp add: word_less_nat_alt l MaxPacketSize_def)
  have zero: "(of_nat (length (sf_Data f)) :: u16) = 0 \<longleftrightarrow> sf_Data f = []"
    by (simp only: unat_eq_zero [symmetric] l) simp
  note ov = StreamFrame_no_overflow [OF valid, unfolded StreamFrame_DataLen_def]
  have ne: "\<not> sf_FinBit f \<Longrightarrow> sf_Data f \<noteq> []" using valid by (auto simp: StreamFrame_valid_def)
  have up: "ucast (ucast (sf_StreamID f) :: u64) = sf_StreamID f"
    by (rule bit_word_eqI) (auto simp: bit_simps)
  show ?thesis
  proof (cases "sf_DataLenPresent f")
    case True
    show ?thesis
      unfolding parseStreamFields_def Let_def StreamFrame_DataLen_def
      using StreamFrame_eta [of f] by (simp add: True read_StreamID read_Offset small zero l ov up ne)
  next
    case False
    show ?thesis
      unfolding parseStreamFields_def Let_def StreamFrame_DataLen_def
      using len StreamFrame_eta [of f]
      by (simp add: False read_StreamID read_Offset zero l ov up ne ReadFull_def)
  qed
qed

lemma parse_StreamFrame:
  assumes valid: "StreamFrame_valid m f" and w: "StreamFrame_Write f v = Inr bs"
    and len: "if sf_DataLenPresent f then m \<le> unat MaxPacketSize else m < 2 ^ 16 \<and> r = []"
  shows "ParseStreamFrame (bs @ r) v = Inr (f, r)"
proof -
  note t = typeByte_fields [OF Offset_length(3) [of f] StreamID_length(3) [of f],
      of "sf_FinBit f" "sf_DataLenPresent f"]
  show ?thesis
    using w parse_StreamFields [OF valid len, of v]
    unfolding StreamFrame_Write_valid [OF valid]
    by (auto simp only: ParseStreamFrame_def Let_def append_Cons append_assoc ReadByte.simps
        rbind_Inr t sum.inject)
qed

lemma ParseStreamFrame_progress:
  assumes "ParseStreamFrame b v = Inr (f, r)"
  shows "length r < length b"
  using assms unfolding ParseStreamFrame_def
  by (rule type_byte_progress)
    (unfold parseStreamFields_def Let_def, intro leaves_intros; simp)

definition StreamFrame_length :: "StreamFrame \<Rightarrow> VersionNumber \<Rightarrow> ByteCount result" where
  "StreamFrame_length f v = wbind (StreamFrame_MinLength f v) (\<lambda>n. Inr (n + StreamFrame_DataLen f))"

definition StreamFrame_ok :: "StreamFrame \<Rightarrow> VersionNumber \<Rightarrow> bool" where
  "StreamFrame_ok f v \<longleftrightarrow> StreamFrame_valid (unat MaxPacketSize) f \<and> sf_DataLenPresent f"

interpretation stream: frame_codec StreamFrame_Write StreamFrame_length ParseStreamFrame
  StreamFrame_ok "\<lambda>f. f" "\<lambda>t. t AND 0x80 > 0"
proof
  fix f v assume ok: "StreamFrame_ok f v"
  then have valid: "StreamFrame_valid (unat MaxPacketSize) f" by (simp add: StreamFrame_ok_def)
  obtain t bs where w: "StreamFrame_Write f v = Inr (t # bs)"
    and t: "t = StreamFrame_typeByte (sf_FinBit f) (sf_DataLenPresent f) (getOffsetLength f)
      (calculateStreamIDLength f)"
    using StreamFrame_Write_valid [OF valid] by simp
  note len = StreamFrame_Write_length [OF valid w]
  have "StreamFrame_length f v = Inr (of_nat (length (t # bs)))"
    using len(2) by (simp add: StreamFrame_length_def len(1) StreamFrame_DataLen_def flip: of_nat_add)
  then show "\<exists>t bs. StreamFrame_Write f v = Inr (t # bs) \<and> t AND 0x80 > 0 \<and>
      StreamFrame_length f v = Inr (of_nat (length (t # bs)))"
    using w typeByte_fields(5) [OF Offset_length(3) StreamID_length(3)] t by blast
  show "StreamFrame_Write f v = Inr bs \<Longrightarrow> ParseStreamFrame (bs @ r) v = Inr (f, r)" for bs r
    using parse_StreamFrame [OF valid] ok by (simp add: StreamFrame_ok_def)
qed (rule ParseStreamFrame_progress)

text \<open>
  C19: STREAM frames survive the wire.  A frame that carries data or the FIN bit, whose
  data ends below offset 2^64 and is not longer than a packet, is written without
  error, and parsing the bytes written gives the frame back and leaves the bytes that
  follow; a frame without length field has to be the last one of its packet.  The
  bytes written are the announced header length and the data.
\<close>

theorem StreamFrame_roundtrip:
  assumes "sf_Data f \<noteq> [] \<or> sf_FinBit f" "length (sf_Data f) \<le> unat MaxPacketSize"
    and "unat (sf_Offset f) + length (sf_Data f) < 2 ^ 64"
    and "sf_DataLenPresent f \<or> r = []"
  shows "\<exists>bs. StreamFrame_Write f v = Inr bs \<and> ParseStreamFrame (bs @ r) v = Inr (f, r) \<and>
    StreamFrame_MinLength f v = Inr (of_nat (length bs - length (sf_Data f)))"
proof -
  have valid: "StreamFrame_valid (unat MaxPacketSize) f"
    using assms by (simp add: StreamFrame_valid_def)
  obtain bs where w: "StreamFrame_Write f v = Inr bs"
    using StreamFrame_Write_valid [OF valid] by simp
  show ?thesis
    using w parse_StreamFrame [OF valid w, of r] StreamFrame_Write_length(1) [OF valid w] assms(4)
    by (auto simp: unat_MaxPacketSize)
qed

theorem StreamFrame_roundtrip_witness:
  "\<exists>bs. StreamFrame_Write \<lparr>sf_StreamID = 0x1337, sf_FinBit = False, sf_DataLenPresent = True,
      sf_Offset = 0xdeadbeef, sf_Data = [1, 2, 3]\<rparr> Version39 = Inr bs \<and>
    ParseStreamFrame (bs @ [9]) Version39 = Inr (\<lparr>sf_StreamID = 0x1337, sf_FinBit = False,
      sf_DataLenPresent = True, sf_Offset = 0xdeadbeef, sf_Data = [1, 2, 3]\<rparr>, [9])"
  using StreamFrame_roundtrip [of "\<lparr>sf_StreamID = 0x1337, sf_FinBit = False,
      sf_DataLenPresent = True, sf_Offset = 0xdeadbeef, sf_Data = [1, 2, 3]\<rparr>" "[9]" Version39]
  by (auto simp: MaxPacketSize_def)

end
