(* ===== verification/PathFrames.thy ===== *)
theory PathFrames
  imports Frames
begin

text \<open>
  The multipath control frames ADD_ADDRESS (\<open>internal/wire/add_address_frame.go\<close>)
  and PATHS (\<open>paths_frame.go\<close>), and what they use of the packages \<open>net\<close> and
  \<open>strconv\<close>: IPv4 addresses in their 4-byte and 16-byte forms, and decimal text.
  The parser of textual addresses, \<open>net.ParseIP\<close>, is an argument of
  \<open>PathsFrame_Write\<close>; what is relied on is that it inverts the dotted form of an
  IPv4 address.
\<close>

section \<open>Addresses and decimal text\<close>

record UDPAddr =
  udp_IP :: "byte list"
  udp_Port :: int
  udp_Zone :: string

definition v4InV6Prefix :: "byte list" where "v4InV6Prefix = replicate 10 0 @ [0xff, 0xff]"

definition IPv4 :: "byte list \<Rightarrow> byte list" where "IPv4 abcd = v4InV6Prefix @ abcd"

definition To4 :: "byte list \<Rightarrow> byte list option" where
  "To4 ip =
     (if length ip = 4 then Some ip
      else if length ip = 16 \<and> take 12 ip = v4InV6Prefix then Some (drop 12 ip)
      else None)"

definition To16 :: "byte list \<Rightarrow> byte list option" where
  "To16 ip =
     (if length ip = 4 then Some (v4InV6Prefix @ ip)
      else if length ip = 16 then Some ip
      else None)"

lemma length_v4InV6Prefix [simp]: "length v4InV6Prefix = 12"
  by (simp add: v4InV6Prefix_def)

lemma To4_Some: "To4 ip = Some x \<Longrightarrow> length x = 4"
  by (auto simp: To4_def split: if_splits)

lemma To16_Some: "To16 ip = Some x \<Longrightarrow> length x = 16"
  by (auto simp: To16_def split: if_splits)

lemma To4_IPv4 [simp]: "length x = 4 \<Longrightarrow> To4 (IPv4 x) = Some x"
  by (simp add: To4_def IPv4_def)

text \<open>\<open>strconv.FormatUint\<close> and \<open>strconv.ParseUint\<close> in base 10.\<close>

definition digit :: "nat \<Rightarrow> char" where "digit n = char_of (48 + n)"

fun FormatUint :: "nat \<Rightarrow> string" where
  "FormatUint n = (if n < 10 then [digit n] else FormatUint (n div 10) @ [digit (n mod 10)])"

declare FormatUint.simps [simp del]

definition isDigit :: "char \<Rightarrow> bool" where
  "isDigit c \<longleftrightarrow> 48 \<le> (of_char c :: nat) \<and> (of_char c :: nat) \<le> 57"

definition digitsVal :: "string \<Rightarrow> nat" where
  "digitsVal s = foldl (\<lambda>n c. 10 * n + (of_char c - 48)) 0 s"

definition ErrSyntax :: go_error where "ErrSyntax = GoError ''invalid syntax''"
definition ErrRange :: go_error where "ErrRange = GoError ''value out of range''"

definition ParseUint16 :: "string \<Rightarrow> u16 result" where
  "ParseUint16 s =
     (if s = [] \<or> \<not> list_all isDigit s then Inl ErrSyntax
      else if digitsVal s > 65535 then Inl ErrRange
      else Inr (of_nat (digitsVal s)))"

definition ipv4String :: "byte list \<Rightarrow> string" where
  "ipv4String abcd = FormatUint (unat (abcd ! 0)) @ CHR ''.'' # FormatUint (unat (abcd ! 1))
     @ CHR ''.'' # FormatUint (unat (abcd ! 2)) @ CHR ''.'' # FormatUint (unat (abcd ! 3))"

lemma of_char_digit: "n < 10 \<Longrightarrow> (of_char (digit n) :: nat) = 48 + n"
  by (simp add: digit_def)

lemma isDigit_digit: "n < 10 \<Longrightarrow> isDigit (digit n)"
  by (simp add: isDigit_def of_char_digit)

lemma FormatUint_digits: "FormatUint n \<noteq> [] \<and> list_all isDigit (FormatUint n)"
proof (induction n rule: FormatUint.induct)
  case (1 n)
  then show ?case
    by (subst (1 2) FormatUint.simps) (auto simp: isDigit_digit)
qed

lemma digitsVal_FormatUint: "digitsVal (FormatUint n) = n"
proof (induction n rule: FormatUint.induct)
  case (1 n)
  then show ?case
    by (subst FormatUint.simps) (auto simp: digitsVal_def of_char_digit)
qed

lemma ParseUint16_FormatUint: "ParseUint16 (FormatUint (unat (x :: u16))) = Inr x"
proof -
  have "unat x \<le> 65535" using unat_bound_u16 [of x] by simp
  then show ?thesis
    using FormatUint_digits [of "unat x"] by (simp add: ParseUint16_def digitsVal_FormatUint)
qed

section \<open>ADD_ADDRESS\<close>

abbreviation (input) ErrUnknownIPVersion :: go_error where
  "ErrUnknownIPVersion \<equiv> GoError ''AddAddressFrame: unknown IP version''"
abbreviation (input) errInconsistentAddrIPVersion :: go_error where
  "errInconsistentAddrIPVersion \<equiv> GoError ''internal inconsistency: Addr does not match IP version''"

record AddAddressFrame =
  aa_IPVersion :: byte
  aa_Addr :: UDPAddr

definition AddAddressFrame_Write :: "AddAddressFrame \<Rightarrow> VersionNumber \<Rightarrow> byte list result" where
  "AddAddressFrame_Write f version =
     wbind (if aa_IPVersion f = 4
            then (case To4 (udp_IP (aa_Addr f)) of
                    None \<Rightarrow> Inl errInconsistentAddrIPVersion | Some ip \<Rightarrow> Inr (take 4 ip))
            else if aa_IPVersion f = 6
            then (case To16 (udp_IP (aa_Addr f)) of
                    None \<Rightarrow> Inl errInconsistentAddrIPVersion | Some ip \<Rightarrow> Inr (take 16 ip))
            else Inl ErrUnknownIPVersion)
       (\<lambda>ip. Inr ([0x10, aa_IPVersion f] @ ip
          @ WriteUint16 (GetByteOrder version) (word_of_int (udp_Port (aa_Addr f)))))"

text \<open>Reading \<open>n\<close> bytes one by one.\<close>

fun readBytes :: "nat \<Rightarrow> byte list \<Rightarrow> byte list parsed" where
  "readBytes 0 r = Inr ([], r)"
| "readBytes (Suc n) r = rbind (ReadByte r) (\<lambda>b r. rbind (readBytes n r) (\<lambda>bs r. Inr (b # bs, r)))"

definition ParseAddAddressFrame :: "byte list \<Rightarrow> VersionNumber \<Rightarrow> AddAddressFrame parsed" where
  "ParseAddAddressFrame r version =
     rbind (ReadByte r) (\<lambda>_ r.
     rbind (ReadByte r) (\<lambda>ipv r.
     rbind (if ipv = 4 then rbind (readBytes 4 r) (\<lambda>abcd r. Inr (IPv4 abcd, r))
            else if ipv = 6 then readBytes 16 r
            else Inl ErrUnknownIPVersion) (\<lambda>ip r.
     rbind (ReadUint16 (GetByteOrder version) r) (\<lambda>port r.
       Inr (\<lparr>aa_IPVersion = ipv, aa_Addr = \<lparr>udp_IP = ip, udp_Port = uint port, udp_Zone = []\<rparr>\<rparr>, r)))))"

definition AddAddressFrame_MinLength :: "AddAddressFrame \<Rightarrow> VersionNumber \<Rightarrow> ByteCount result" where
  "AddAddressFrame_MinLength f version =
     (if aa_IPVersion f = 4 then Inr (1 + 1 + 4 + 2)
      else if aa_IPVersion f = 6 then Inr (1 + 1 + 16 + 2)
      else Inl ErrUnknownIPVersion)"

lemma readBytes_append [simp]: "length bs = n \<Longrightarrow> readBytes n (bs @ r) = Inr (bs, r)"
  by (induction bs arbitrary: n) auto

lemma leaves_readBytes [leaves_intros]: "length b \<le> n \<Longrightarrow> leaves n (readBytes k b)"
  by (induction k arbitrary: b) (auto intro!: leaves_intros)

definition AddAddressFrame_ok :: "AddAddressFrame \<Rightarrow> VersionNumber \<Rightarrow> bool" where
  "AddAddressFrame_ok f v \<longleftrightarrow>
     aa_IPVersion f = 4 \<and> To4 (udp_IP (aa_Addr f)) \<noteq> None \<or>
     aa_IPVersion f = 6 \<and> To16 (udp_IP (aa_Addr f)) \<noteq> None"

definition AddAddressFrame_seen :: "AddAddressFrame \<Rightarrow> AddAddressFrame" where
  "AddAddressFrame_seen f =
     f\<lparr>aa_Addr := \<lparr>udp_IP = (if aa_IPVersion f = 4 then IPv4 (the (To4 (udp_IP (aa_Addr f))))
                            else the (To16 (udp_IP (aa_Addr f)))),
                   udp_Port = uint (word_of_int (udp_Port (aa_Addr f)) :: u16), udp_Zone = []\<rparr>\<rparr>"

interpretation add_address: frame_codec AddAddressFrame_Write AddAddressFrame_MinLength
  ParseAddAddressFrame AddAddressFrame_ok AddAddressFrame_seen "\<lambda>t. t = 0x10"
proof
  show "\<exists>t bs. AddAddressFrame_Write f v = Inr (t # bs) \<and> t = 0x10 \<and>
      AddAddressFrame_MinLength f v = Inr (of_nat (length (t # bs)))"
    if "AddAddressFrame_ok f v" for f v
    using that To4_Some [of "udp_IP (aa_Addr f)"] To16_Some [of "udp_IP (aa_Addr f)"]
    by (auto simp: AddAddressFrame_ok_def AddAddressFrame_Write_def AddAddressFrame_MinLength_def)
  show "ParseAddAddressFrame (bs @ r) v = Inr (AddAddressFrame_seen f, r)"
    if "AddAddressFrame_ok f v" "AddAddressFrame_Write f v = Inr bs" for f v bs r
    using that To4_Some [of "udp_IP (aa_Addr f)"] To16_Some [of "udp_IP (aa_Addr f)"]
    by (cases f) (auto simp: AddAddressFrame_ok_def AddAddressFrame_Write_def
        ParseAddAddressFrame_def AddAddressFrame_seen_def)
  show "length r < length b" if "ParseAddAddressFrame b v = Inr (f, r)" for b v f r
    using that unfolding ParseAddAddressFrame_def
    by (erule_tac type_byte_progress) (intro leaves_intros; simp)
qed

section \<open>PATHS\<close>

abbreviation (input) ErrTooManyPaths :: go_error where
  "ErrTooManyPaths \<equiv> GoError ''PathsFrame: more paths than the maximum enabled''"
abbreviation (input) ErrTooManyIPs :: go_error where
  "ErrTooManyIPs \<equiv> GoError ''PathsFrame: more IPs than paths''"
abbreviation (input) ErrPathsNumber :: go_error where
  "ErrPathsNumber \<equiv> GoError ''PathsFrame: number of paths advertised and # of paths do not match''"
abbreviation (input) ErrIPsNumber :: go_error where
  "ErrIPsNumber \<equiv> GoError ''PathsFrame: number of IPs and number of paths do not match''"
abbreviation (input) ErrMissingRTT :: go_error where
  "ErrMissingRTT \<equiv> GoError ''PathsFrame: number of paths IDs and number of remote RTTs do not match''"
abbreviation (input) ErrMissingAddrsIP :: go_error where
  "ErrMissingAddrsIP \<equiv> GoError ''PathsFrame: number of paths IDs and number of remote addresses IP do not match''"
abbreviation (input) ErrMissingAddrsPort :: go_error where
  "ErrMissingAddrsPort \<equiv> GoError ''PathsFrame: number of paths IDs and number of remote addresses Port do not match''"

record PathsFrame =
  pf_MaxNumPaths :: byte
  pf_NumPaths :: byte
  pf_NumIPs :: byte
  pf_PathIDs :: "PathID list"
  pf_RemoteRTTs :: "duration list"
  pf_RemoteAddrsIP :: "string list"
  pf_RemoteAddrsPort :: "string list"

definition writePathAddr ::
    "(string \<Rightarrow> byte list option) \<Rightarrow> ByteOrder \<Rightarrow> string list \<Rightarrow> string list \<Rightarrow> byte list result" where
  "writePathAddr parseIP bo ips ports =
     (if ips = [] then Inl (GoPanic ''index out of range'')
      else case To4 (case parseIP (hd ips) of None \<Rightarrow> [] | Some ip \<Rightarrow> ip) of
             None \<Rightarrow> Inl errInconsistentAddrIPVersion
           | Some ip \<Rightarrow>
               if ports = [] then Inl (GoPanic ''index out of range'')
               else wbind (ParseUint16 (hd ports)) (\<lambda>portInt. Inr (take 4 ip @ WriteUint16 bo portInt)))"

text \<open>
  The loop over the paths; an index beyond the end of a slice is a run-time panic.
\<close>

fun writePaths ::
    "(string \<Rightarrow> byte list option) \<Rightarrow> ByteOrder \<Rightarrow> bool \<Rightarrow> PathID list \<Rightarrow> duration list
     \<Rightarrow> string list \<Rightarrow> string list \<Rightarrow> byte list result" where
  "writePaths parseIP bo withIPs [] rtts ips ports = Inr []"
| "writePaths parseIP bo withIPs (pathID # ids) rtts ips ports =
     (if rtts = [] then Inl (GoPanic ''index out of range'')
      else wbind (if withIPs then writePathAddr parseIP bo ips ports else Inr []) (\<lambda>addr.
           wbind (writePaths parseIP bo withIPs ids (tl rtts) (tl ips) (tl ports)) (\<lambda>rest.
             Inr ([pathID] @ WriteUfloat16 bo (word_of_int (go_quot (hd rtts) Microsecond))
               @ addr @ rest))))"

definition PathsFrame_Write ::
    "(string \<Rightarrow> byte list option) \<Rightarrow> PathsFrame \<Rightarrow> VersionNumber \<Rightarrow> byte list result" where
  "PathsFrame_Write parseIP f version =
     (if unat (pf_NumPaths f) \<noteq> length (pf_PathIDs f) then Inl ErrPathsNumber
      else if pf_NumPaths f \<noteq> pf_NumIPs f \<and> pf_NumIPs f \<noteq> 0 then Inl ErrIPsNumber
      else if length (pf_PathIDs f) \<noteq> length (pf_RemoteRTTs f) then Inl ErrMissingRTT
      else if length (pf_PathIDs f) \<noteq> length (pf_RemoteAddrsIP f) \<and> length (pf_RemoteAddrsIP f) \<noteq> 0
      then Inl ErrMissingAddrsIP
      else if length (pf_PathIDs f) \<noteq> length (pf_RemoteAddrsPort f) \<and> length (pf_RemoteAddrsPort f) \<noteq> 0
      then Inl ErrMissingAddrsPort
      else wbind (writePaths parseIP (GetByteOrder version) (pf_NumIPs f > 0) (pf_PathIDs f)
             (pf_RemoteRTTs f) (pf_RemoteAddrsIP f) (pf_RemoteAddrsPort f)) (\<lambda>paths.
             Inr ([0x12, pf_MaxNumPaths f, pf_NumPaths f, pf_NumIPs f] @ paths)))"

fun parsePaths :: "ByteOrder \<Rightarrow> bool \<Rightarrow> nat \<Rightarrow> PathsFrame \<Rightarrow> byte list \<Rightarrow> PathsFrame parsed" where
  "parsePaths bo withIPs 0 f r = Inr (f, r)"
| "parsePaths bo withIPs (Suc n) f r =
     rbind (ReadByte r) (\<lambda>pathID r.
     rbind (ReadUfloat16 bo r) (\<lambda>remoteRTT r.
       let f = f\<lparr>pf_PathIDs := pf_PathIDs f @ [pathID],
                 pf_RemoteRTTs := pf_RemoteRTTs f @ [uint remoteRTT * Microsecond]\<rparr>
       in if withIPs
          then rbind (readBytes 4 r) (\<lambda>abcd r.
               rbind (ReadUint16 bo r) (\<lambda>port r.
                 parsePaths bo withIPs n (f\<lparr>pf_RemoteAddrsIP := pf_RemoteAddrsIP f @ [ipv4String abcd],
                   pf_RemoteAddrsPort := pf_RemoteAddrsPort f @ [FormatUint (unat port)]\<rparr>) r))
          else parsePaths bo withIPs n f r))"

definition ParsePathsFrame :: "byte list \<Rightarrow> VersionNumber \<Rightarrow> PathsFrame parsed" where
  "ParsePathsFrame r version =
     rbind (ReadByte r) (\<lambda>_ r.
     rbind (ReadByte r) (\<lambda>maxNum r.
     rbind (ReadByte r) (\<lambda>num r.
       if num > maxNum then Inl ErrTooManyPaths
       else rbind (ReadByte r) (\<lambda>numip r.
         if numip > num then Inl ErrTooManyIPs
         else parsePaths (GetByteOrder version) (numip > 0) (unat num)
           \<lparr>pf_MaxNumPaths = maxNum, pf_NumPaths = num, pf_NumIPs = numip, pf_PathIDs = [],
            pf_RemoteRTTs = [], pf_RemoteAddrsIP = [], pf_RemoteAddrsPort = []\<rparr> r))))"

text \<open>The arithmetic is on \<open>uint8\<close>, because \<open>NumPaths\<close> is.\<close>

definition PathsFrame_MinLength :: "PathsFrame \<Rightarrow> VersionNumber \<Rightarrow> ByteCount result" where
  "PathsFrame_MinLength f version =
     (let length = 1 + 1 + 1 + (3 * pf_NumPaths f) in Inr (ucast length))"

section \<open>Reading back PATHS frames\<close>

text \<open>The contract of \<open>net.ParseIP\<close> that the code relies on.\<close>

definition parses_ipv4 :: "(string \<Rightarrow> byte list option) \<Rightarrow> bool" where
  "parses_ipv4 parseIP \<longleftrightarrow> (\<forall>abcd. length abcd = 4 \<longrightarrow> parseIP (ipv4String abcd) = Some (IPv4 abcd))"

definition rttOnWire :: "duration \<Rightarrow> duration" where
  "rttOnWire d = uint (decodeUfloat16 (encodeUfloat16 (word_of_int (go_quot d Microsecond)))) * Microsecond"

definition PathsFrame_ok :: "PathsFrame \<Rightarrow> bool" where
  "PathsFrame_ok f \<longleftrightarrow>
     unat (pf_NumPaths f) = length (pf_PathIDs f) \<and> pf_NumPaths f \<le> pf_MaxNumPaths f \<and>
     length (pf_RemoteRTTs f) = length (pf_PathIDs f) \<and>
     (if pf_NumIPs f = 0 then pf_RemoteAddrsIP f = [] \<and> pf_RemoteAddrsPort f = []
      else pf_NumIPs f = pf_NumPaths f \<and>
        length (pf_RemoteAddrsIP f) = length (pf_PathIDs f) \<and>
        length (pf_RemoteAddrsPort f) = length (pf_PathIDs f) \<and>
        (\<forall>s \<in> set (pf_RemoteAddrsIP f). \<exists>abcd. length abcd = 4 \<and> s = ipv4String abcd) \<and>
        (\<forall>s \<in> set (pf_RemoteAddrsPort f). \<exists>port :: u16. s = FormatUint (unat port)))"

definition PathsFrame_seen :: "PathsFrame \<Rightarrow> PathsFrame" where
  "PathsFrame_seen f = f\<lparr>pf_RemoteRTTs := map rttOnWire (pf_RemoteRTTs f)\<rparr>"

lemma writePathAddr_ok:
  assumes "parses_ipv4 parseIP" "length abcd = 4"
  shows "writePathAddr parseIP bo (ipv4String abcd # ips) (FormatUint (unat (port :: u16)) # ports)
    = Inr (abcd @ WriteUint16 bo port)"
  using assms by (simp add: writePathAddr_def parses_ipv4_def ParseUint16_FormatUint)

lemma paths_written:
  assumes "parses_ipv4 parseIP" "length rtts = length ids"
    and "if w then length ips = length ids \<and> length ports = length ids \<and>
        (\<forall>s \<in> set ips. \<exists>abcd. length abcd = 4 \<and> s = ipv4String abcd) \<and>
        (\<forall>s \<in> set ports. \<exists>port :: u16. s = FormatUint (unat port))
      else ips = [] \<and> ports = []"
  shows "\<exists>bs. writePaths parseIP bo w ids rtts ips ports = Inr bs \<and>
    (\<forall>f r. parsePaths bo w (length ids) f (bs @ r) = Inr (f\<lparr>pf_PathIDs := pf_PathIDs f @ ids,
       pf_RemoteRTTs := pf_RemoteRTTs f @ map rttOnWire rtts,
       pf_RemoteAddrsIP := pf_RemoteAddrsIP f @ ips,
       pf_RemoteAddrsPort := pf_RemoteAddrsPort f @ ports\<rparr>, r))"
  using assms(2,3)
proof (induction ids arbitrary: rtts ips ports)
  case Nil
  then show ?case by (auto split: if_splits)
next
  case (Cons i ids)
  obtain d ds where d: "rtts = d # ds" using Cons.prems(1) by (cases rtts) auto
  show ?case
  proof (cases w)
    case False
    then have e: "ips = []" "ports = []" using Cons.prems(2) by auto
    obtain bs where "writePaths parseIP bo w ids ds [] [] = Inr bs"
      "\<forall>f r. parsePaths bo w (length ids) f (bs @ r) = Inr (f\<lparr>pf_PathIDs := pf_PathIDs f @ ids,
       pf_RemoteRTTs := pf_RemoteRTTs f @ map rttOnWire ds,
       pf_RemoteAddrsIP := pf_RemoteAddrsIP f @ [],
       pf_RemoteAddrsPort := pf_RemoteAddrsPort f @ []\<rparr>, r)"
      using Cons.IH [of ds "[]" "[]"] Cons.prems(1) d False by auto
    then show ?thesis using False e d by (simp add: rttOnWire_def)
  next
    case True
    obtain abcd ips' port ports' where a: "ips = ipv4String abcd # ips'" "length abcd = 4"
      and p: "ports = FormatUint (unat (port :: u16)) # ports'"
      using Cons.prems(2) True by (cases ips; cases ports) auto
    obtain bs where "writePaths parseIP bo w ids ds ips' ports' = Inr bs"
      "\<forall>f r. parsePaths bo w (length ids) f (bs @ r) = Inr (f\<lparr>pf_PathIDs := pf_PathIDs f @ ids,
       pf_RemoteRTTs := pf_RemoteRTTs f @ map rttOnWire ds,
       pf_RemoteAddrsIP := pf_RemoteAddrsIP f @ ips',
       pf_RemoteAddrsPort := pf_RemoteAddrsPort f @ ports'\<rparr>, r)"
      using Cons.IH [of ds ips' ports'] Cons.prems d a p True by auto
    then show ?thesis
      using True d a p writePathAddr_ok [OF assms(1) a(2)] by (simp add: rttOnWire_def)
  qed
qed

lemma PathsFrame_written:
  assumes "parses_ipv4 parseIP" "PathsFrame_ok f"
  shows "\<exists>bs. PathsFrame_Write parseIP f v = Inr bs \<and>
    (\<forall>r. ParsePathsFrame (bs @ r) v = Inr (PathsFrame_seen f, r))"
proof -
  let ?w = "pf_NumIPs f > 0"
  obtain bs where w: "writePaths parseIP (GetByteOrder v) ?w (pf_PathIDs f) (pf_RemoteRTTs f)
      (pf_RemoteAddrsIP f) (pf_RemoteAddrsPort f) = Inr bs"
    and p: "\<forall>g r. parsePaths (GetByteOrder v) ?w (length (pf_PathIDs f)) g (bs @ r) =
      Inr (g\<lparr>pf_PathIDs := pf_PathIDs g @ pf_PathIDs f,
       pf_RemoteRTTs := pf_RemoteRTTs g @ map rttOnWire (pf_RemoteRTTs f),
       pf_RemoteAddrsIP := pf_RemoteAddrsIP g @ pf_RemoteAddrsIP f,
       pf_RemoteAddrsPort := pf_RemoteAddrsPort g @ pf_RemoteAddrsPort f\<rparr>, r)"
    using paths_written [OF assms(1), of "pf_RemoteRTTs f" "pf_PathIDs f" ?w "pf_RemoteAddrsIP f"
        "pf_RemoteAddrsPort f" "GetByteOrder v"] assms(2)
    by (auto simp: PathsFrame_ok_def word_gt_0 split: if_splits)
  have "PathsFrame_Write parseIP f v
      = Inr ([0x12, pf_MaxNumPaths f, pf_NumPaths f, pf_NumIPs f] @ bs)"
    using assms(2) w by (auto simp: PathsFrame_Write_def PathsFrame_ok_def split: if_splits)
  moreover have "ParsePathsFrame ([0x12, pf_MaxNumPaths f, pf_NumPaths f, pf_NumIPs f] @ bs @ r) v
      = Inr (PathsFrame_seen f, r)" for r
    using assms(2) p
    by (cases f) (auto simp: ParsePathsFrame_def PathsFrame_ok_def PathsFrame_seen_def not_less
        split: if_splits)
  ultimately show ?thesis by auto
qed

text \<open>
  C37: PATHS frames can be read back.  A frame whose counts match its lists, with
  either no addresses or one IPv4 address and port per path, is written without
  error and read back by the peer: the same path ids, addresses and ports, the
  round-trip times rounded to the 16-bit float of the wire.
\<close>

theorem PathsFrame_roundtrip:
  assumes "parses_ipv4 parseIP" "PathsFrame_ok f"
  shows "\<exists>bs. PathsFrame_Write parseIP f v = Inr bs \<and>
    ParsePathsFrame (bs @ r) v = Inr (PathsFrame_seen f, r)"
  using PathsFrame_written [OF assms, of v] by blast

text \<open>A dotted-decimal parser that meets the contract.\<close>

function splitDots :: "string \<Rightarrow> string list" where
  "splitDots s = (case dropWhile isDigit s of
      [] \<Rightarrow> [takeWhile isDigit s] | _ # t \<Rightarrow> takeWhile isDigit s # splitDots t)"
  by pat_completeness auto
termination
  by (relation "measure length", simp)
    (metis Suc_le_lessD in_measure length_Cons length_dropWhile_le)

declare splitDots.simps [simp del]

definition parseDotted :: "string \<Rightarrow> byte list option" where
  "parseDotted s = (let fields = splitDots s
     in if length fields = 4 then Some (IPv4 (map (\<lambda>d. of_nat (digitsVal d)) fields)) else None)"

lemma splitDots_last: "list_all isDigit d \<Longrightarrow> splitDots d = [d]"
  by (subst splitDots.simps) (simp add: list_all_iff dropWhile_eq_Nil_conv [THEN iffD2]
      takeWhile_eq_all_conv [THEN iffD2])

lemma splitDots_field: "list_all isDigit d \<Longrightarrow> splitDots (d @ CHR ''.'' # t) = d # splitDots t"
  by (subst splitDots.simps) (simp add: list_all_iff isDigit_def)

lemma parses_ipv4_parseDotted: "parses_ipv4 parseDotted"
  unfolding parses_ipv4_def
proof (intro allI impI)
  fix abcd :: "byte list"
  assume "length abcd = 4"
  then obtain a b c d where abcd: "abcd = [a, b, c, d]"
    by (auto simp: numeral_eq_Suc length_Suc_conv)
  show "parseDotted (ipv4String abcd) = Some (IPv4 abcd)"
    by (simp add: abcd parseDotted_def ipv4String_def splitDots_last splitDots_field FormatUint_digits
        digitsVal_FormatUint)
qed

theorem PathsFrame_roundtrip_witness:
  "\<exists>bs. PathsFrame_Write parseDotted \<lparr>pf_MaxNumPaths = 4, pf_NumPaths = 1, pf_NumIPs = 1,
      pf_PathIDs = [3], pf_RemoteRTTs = [2000000], pf_RemoteAddrsIP = [ipv4String [10, 0, 0, 1]],
      pf_RemoteAddrsPort = [FormatUint 443]\<rparr> VersionMP = Inr bs \<and>
    (\<exists>f. ParsePathsFrame bs VersionMP = Inr (f, []) \<and> pf_PathIDs f = [3] \<and>
      pf_RemoteAddrsIP f = [ipv4String [10, 0, 0, 1]])"
proof -
  let ?f = "\<lparr>pf_MaxNumPaths = 4, pf_NumPaths = 1, pf_NumIPs = 1,
      pf_PathIDs = [3], pf_RemoteRTTs = [2000000], pf_RemoteAddrsIP = [ipv4String [10, 0, 0, 1]],
      pf_RemoteAddrsPort = [FormatUint 443]\<rparr>"
  have "\<exists>abcd. length abcd = 4 \<and> ipv4String [10, 0, 0, 1] = ipv4String abcd"
    by (rule exI [of _ "[10, 0, 0, 1]"]) simp
  moreover have "\<exists>port :: u16. FormatUint 443 = FormatUint (unat port)"
    by (rule exI [of _ 443]) simp
  ultimately have "PathsFrame_ok ?f" by (simp add: PathsFrame_ok_def)
  from PathsFrame_roundtrip [OF parses_ipv4_parseDotted this, of VersionMP "[]"] show ?thesis
    by (auto simp: PathsFrame_seen_def)
qed

lemma length_writeUfloat16 [simp]: "length (WriteUfloat16 bo d) = 2"
  by (simp add: Ufloat16_dispatch writeUfloat16_def)

lemma length_writePaths:
  "writePaths parseIP bo w ids rtts ips ports = Inr bs \<Longrightarrow> 3 * length ids \<le> length bs"
  by (induction ids arbitrary: rtts ips ports bs) (fastforce simp: wbind_eq_Inr split: if_splits)+

text \<open>
  C38: The announced length of a PATHS frame is wrong.  Whenever \<open>Write\<close> succeeds,
  it writes more bytes than \<open>MinLength\<close> announces: the count of addresses and the
  addresses themselves are left out, and the 8-bit arithmetic wraps around.
\<close>

theorem PathsFrame_MinLength_too_small:
  assumes "PathsFrame_Write parseIP f v = Inr bs"
  shows "\<exists>m. PathsFrame_MinLength f v = Inr m \<and> unat m < length bs"
proof -
  obtain ps where bs: "bs = [0x12, pf_MaxNumPaths f, pf_NumPaths f, pf_NumIPs f] @ ps"
    and n: "unat (pf_NumPaths f) = length (pf_PathIDs f)" "3 * length (pf_PathIDs f) \<le> length ps"
    using assms by (auto simp: PathsFrame_Write_def wbind_eq_Inr split: if_splits
        dest: length_writePaths)
  have "unat (ucast (1 + 1 + 1 + 3 * pf_NumPaths f) :: u64) \<le> 3 + 3 * unat (pf_NumPaths f)"
    by (simp add: unat_ucast_up unat_word_ariths)
  also have "\<dots> < length bs" using bs n by simp
  finally show ?thesis by (auto simp: PathsFrame_MinLength_def Let_def)
qed

theorem PathsFrame_MinLength_too_small_witness:
  "\<exists>bs m. PathsFrame_Write parseDotted \<lparr>pf_MaxNumPaths = 4, pf_NumPaths = 1, pf_NumIPs = 0,
      pf_PathIDs = [3], pf_RemoteRTTs = [0], pf_RemoteAddrsIP = [], pf_RemoteAddrsPort = []\<rparr> VersionMP
      = Inr bs \<and>
    PathsFrame_MinLength \<lparr>pf_MaxNumPaths = 4, pf_NumPaths = 1, pf_NumIPs = 0,
      pf_PathIDs = [3], pf_RemoteRTTs = [0], pf_RemoteAddrsIP = [], pf_RemoteAddrsPort = []\<rparr> VersionMP
      = Inr m \<and> unat m < length bs"
proof -
  let ?f = "\<lparr>pf_MaxNumPaths = 4, pf_NumPaths = 1, pf_NumIPs = 0,
      pf_PathIDs = [3], pf_RemoteRTTs = [0], pf_RemoteAddrsIP = [], pf_RemoteAddrsPort = []\<rparr>"
  obtain bs where "PathsFrame_Write parseDotted ?f VersionMP = Inr bs"
    by (simp add: PathsFrame_Write_def)
  from PathsFrame_MinLength_too_small [OF this] this show ?thesis by auto
qed

lemma leaves_parsePaths [leaves_intros]: "length b \<le> n \<Longrightarrow> leaves n (parsePaths bo w k f b)"
  by (induction k arbitrary: f b) (auto intro!: leaves_intros simp: Let_def)

lemma ParsePathsFrame_progress: "ParsePathsFrame b v = Inr (f, r) \<Longrightarrow> length r < length b"
  unfolding ParsePathsFrame_def by (erule type_byte_progress) (intro leaves_intros; simp)

end
