(* ===== verification/PublicHeaders.thy ===== *)
theory PublicHeaders
  imports Frames
begin

text \<open>
  The public header of a packet (\<open>internal/wire/public_header.go\<close>), with its
  optional connection id, version, diversification nonce, path id and truncated
  packet number, and the Version Negotiation packet
  (\<open>version_negotiation.go\<close>).

  Shown here: a header written by one side is read back by the other, with the
  length that \<open>GetLength\<close> announces; a receiver recovers the full packet number
  from a header whose packet number length was chosen by the sender;
  \<open>PeekConnectionID\<close> agrees with the full parser; and a Version Negotiation
  packet carries the offered versions.
\<close>

lemmas little_Inr = ReadUint32_Inr [of LittleEndian, simplified] ReadUint64_Inr [of LittleEndian, simplified]

section \<open>Definitions\<close>

abbreviation (input) ErrPacketWithUnknownVersion :: go_error where
  "ErrPacketWithUnknownVersion \<equiv> GoError ''PublicHeader: Received a packet without version number, that we don't know the version for''"
abbreviation (input) errResetAndVersionFlagSet :: go_error where
  "errResetAndVersionFlagSet \<equiv> GoError ''PublicHeader: Reset Flag and Version Flag should not be set at the same time''"
abbreviation (input) errReceivedTruncatedConnectionID :: go_error where
  "errReceivedTruncatedConnectionID \<equiv> QuicError InvalidPacketHeader ''receiving packets with truncated ConnectionID is not supported''"
abbreviation (input) errInvalidConnectionID :: go_error where
  "errInvalidConnectionID \<equiv> QuicError InvalidPacketHeader ''connection ID cannot be 0''"
abbreviation (input) errGetLengthNotForVersionNegotiation :: go_error where
  "errGetLengthNotForVersionNegotiation \<equiv> GoError ''PublicHeader: GetLength cannot be called for VersionNegotiation packets''"

record PublicHeader =
  ph_Raw :: "byte list"
  ph_ConnectionID :: ConnectionID
  ph_PathID :: PathID
  ph_VersionFlag :: bool
  ph_ResetFlag :: bool
  ph_TruncateConnectionID :: bool
  ph_MultipathFlag :: bool
  ph_PacketNumberLen :: PacketNumberLen
  ph_PacketNumber :: PacketNumber
  ph_VersionNumber :: VersionNumber
  ph_SupportedVersions :: "VersionNumber list"
  ph_DiversificationNonce :: "byte list"

text \<open>The zero value \<open>PublicHeader{}\<close>.\<close>

definition PublicHeader_zero :: PublicHeader where
  "PublicHeader_zero =
     \<lparr>ph_Raw = [], ph_ConnectionID = 0, ph_PathID = 0, ph_VersionFlag = False, ph_ResetFlag = False,
      ph_TruncateConnectionID = False, ph_MultipathFlag = False, ph_PacketNumberLen = 0,
      ph_PacketNumber = 0, ph_VersionNumber = 0, ph_SupportedVersions = [],
      ph_DiversificationNonce = []\<rparr>"

definition PublicHeader_hasPacketNumber :: "PublicHeader \<Rightarrow> Perspective \<Rightarrow> bool" where
  "PublicHeader_hasPacketNumber h packetSentBy =
     (if ph_ResetFlag h then False
      else if ph_VersionFlag h \<and> packetSentBy = PerspectiveServer then False
      else True)"

definition packetNumberLenBits :: "PacketNumberLen \<Rightarrow> byte" where
  "packetNumberLenBits len =
     (if len = PacketNumberLen1 then 0x00 else if len = PacketNumberLen2 then 0x10
      else if len = PacketNumberLen4 then 0x20 else if len = PacketNumberLen6 then 0x30 else 0)"

definition publicFlags :: "bool \<Rightarrow> bool \<Rightarrow> bool \<Rightarrow> bool \<Rightarrow> byte \<Rightarrow> bool \<Rightarrow> byte" where
  "publicFlags versionFlag resetFlag truncated nonce lenBits multipath =
     (let b = 0x00;
          b = (if versionFlag then b OR 0x01 else b);
          b = (if resetFlag then b OR 0x02 else b);
          b = (if \<not> truncated then b OR 0x08 else b);
          b = (if nonce then b OR 0x04 else b);
          b = b OR lenBits
      in if multipath then b OR 0x40 else b)"

definition writePacketNumber ::
    "ByteOrder \<Rightarrow> PacketNumberLen \<Rightarrow> PacketNumber \<Rightarrow> byte list result" where
  "writePacketNumber bo len pn =
     (if len = PacketNumberLen1 then Inr [ucast pn]
      else if len = PacketNumberLen2 then Inr (WriteUint16 bo (ucast pn))
      else if len = PacketNumberLen4 then Inr (WriteUint32 bo (ucast pn))
      else if len = PacketNumberLen6 then WriteUint48 bo (pn AND (push_bit 48 1 - 1))
      else Inl (GoError ''PublicHeader: PacketNumberLen not set''))"

definition PublicHeader_Write ::
    "PublicHeader \<Rightarrow> VersionNumber \<Rightarrow> Perspective \<Rightarrow> byte list result" where
  "PublicHeader_Write h version pers =
     (if ph_VersionFlag h \<and> ph_ResetFlag h then Inl errResetAndVersionFlagSet
      else if length (ph_DiversificationNonce h) > 0 \<and> length (ph_DiversificationNonce h) \<noteq> 32
      then Inl (GoError ''invalid diversification nonce length'')
      else
        let publicFlagByte = publicFlags (ph_VersionFlag h) (ph_ResetFlag h)
              (ph_TruncateConnectionID h) (length (ph_DiversificationNonce h) > 0)
              (if PublicHeader_hasPacketNumber h pers then packetNumberLenBits (ph_PacketNumberLen h) else 0)
              (ph_MultipathFlag h);
            b = [publicFlagByte]
              @ (if \<not> ph_TruncateConnectionID h then WriteUint64 LittleEndian (ph_ConnectionID h) else [])
              @ (if ph_VersionFlag h \<and> pers = PerspectiveClient
                 then WriteUint32 LittleEndian (VersionNumberToTag (ph_VersionNumber h)) else [])
              @ (if length (ph_DiversificationNonce h) > 0 then ph_DiversificationNonce h else [])
              @ (if ph_MultipathFlag h then [ph_PathID h] else [])
        in if \<not> PublicHeader_hasPacketNumber h pers then Inr b
           else wbind (writePacketNumber (GetByteOrder version) (ph_PacketNumberLen h) (ph_PacketNumber h))
             (\<lambda>pn. Inr (b @ pn)))"

text \<open>The connection id; the reader's position is restored, so only the value is returned.\<close>

definition PeekConnectionID :: "byte list \<Rightarrow> Perspective \<Rightarrow> ConnectionID result" where
  "PeekConnectionID b packetSentBy =
     rbind (ReadByte b) (\<lambda>publicFlagByte b.
       let truncateConnectionID = (publicFlagByte AND 0x08 = 0)
       in if truncateConnectionID \<and> packetSentBy = PerspectiveClient
          then Inl errReceivedTruncatedConnectionID
          else if \<not> truncateConnectionID
          then rbind (ReadUint64 LittleEndian b) (\<lambda>connID b. Inr connID)
          else Inr 0)"

text \<open>
  The loop over the tags of a Version Negotiation packet ends when a read fails;
  the failing read has consumed what was left.
\<close>

function readVersions :: "byte list \<Rightarrow> VersionNumber list" where
  "readVersions b =
     (case ReadUint32 LittleEndian b of
        Inl e \<Rightarrow> []
      | Inr (versionTag, b') \<Rightarrow> VersionTagToNumber versionTag # readVersions b')"
  by pat_completeness auto
termination
  by (relation "measure length") (auto simp: little_Inr)

declare readVersions.simps [simp del]

definition parsePacketNumberLen :: "byte \<Rightarrow> PacketNumberLen" where
  "parsePacketNumberLen publicFlagByte =
     (let bits = publicFlagByte AND 0x30
      in if bits = 0x30 then PacketNumberLen6 else if bits = 0x20 then PacketNumberLen4
         else if bits = 0x10 then PacketNumberLen2 else PacketNumberLen1)"

definition parseConnectionID :: "PublicHeader \<Rightarrow> byte list \<Rightarrow> PublicHeader parsed" where
  "parseConnectionID h b =
     (if ph_TruncateConnectionID h then Inr (h, b)
      else rbind (ReadUint64 LittleEndian b) (\<lambda>connID b.
        if connID = 0 then Inl errInvalidConnectionID
        else Inr (h\<lparr>ph_ConnectionID := connID\<rparr>, b)))"

definition parseNonce :: "Perspective \<Rightarrow> byte \<Rightarrow> PublicHeader \<Rightarrow> byte list \<Rightarrow> PublicHeader parsed" where
  "parseNonce packetSentBy publicFlagByte h b =
     (if packetSentBy = PerspectiveServer \<and> (publicFlagByte AND 0x04) > 0
        \<and> \<not> ph_VersionFlag h \<and> \<not> ph_ResetFlag h
      then rbind (ReadFull 32 b) (\<lambda>nonce b. Inr (h\<lparr>ph_DiversificationNonce := nonce\<rparr>, b))
      else Inr (h, b))"

definition parsePathAndNumber ::
    "Perspective \<Rightarrow> VersionNumber \<Rightarrow> PublicHeader \<Rightarrow> byte list \<Rightarrow> PublicHeader parsed" where
  "parsePathAndNumber packetSentBy version h b =
     rbind (if ph_MultipathFlag h then ReadByte b else Inr (0, b)) (\<lambda>pathID b.
       let h = h\<lparr>ph_PathID := pathID\<rparr>
       in if PublicHeader_hasPacketNumber h packetSentBy
          then rbind (ReadUintN (GetByteOrder version) b (ph_PacketNumberLen h)) (\<lambda>pn b.
            Inr (h\<lparr>ph_PacketNumber := pn\<rparr>, b))
          else Inr (h, b))"

definition parseVersion ::
    "Perspective \<Rightarrow> VersionNumber \<Rightarrow> PublicHeader \<Rightarrow> byte list \<Rightarrow> PublicHeader parsed" where
  "parseVersion packetSentBy version h b =
     (if \<not> ph_ResetFlag h \<and> ph_VersionFlag h
      then if packetSentBy = PerspectiveServer
           then if length b mod 4 \<noteq> 0 then Inl (ErrorCode InvalidVersionNegotiationPacket)
                else Inr (h\<lparr>ph_SupportedVersions := readVersions b\<rparr>, [])
           else rbind (ReadUint32 LittleEndian b) (\<lambda>versionTag b.
             let version = VersionTagToNumber versionTag
             in parsePathAndNumber packetSentBy version (h\<lparr>ph_VersionNumber := version\<rparr>) b)
      else parsePathAndNumber packetSentBy version h b)"

definition parsePublicFlags :: "byte \<Rightarrow> Perspective \<Rightarrow> PublicHeader" where
  "parsePublicFlags publicFlagByte packetSentBy =
     (let h = PublicHeader_zero\<lparr>ph_ResetFlag := (publicFlagByte AND 0x02) > 0,
                ph_VersionFlag := (publicFlagByte AND 0x01) > 0,
                ph_TruncateConnectionID := (publicFlagByte AND 0x08 = 0)\<rparr>;
          h = (if PublicHeader_hasPacketNumber h packetSentBy
               then h\<lparr>ph_PacketNumberLen := parsePacketNumberLen publicFlagByte\<rparr> else h)
      in h\<lparr>ph_MultipathFlag := (publicFlagByte AND 0x40) > 0\<rparr>)"

definition ParsePublicHeader ::
    "byte list \<Rightarrow> Perspective \<Rightarrow> VersionNumber \<Rightarrow> PublicHeader parsed" where
  "ParsePublicHeader b packetSentBy version =
     rbind (ReadByte b) (\<lambda>publicFlagByte b.
       let h = parsePublicFlags publicFlagByte packetSentBy
       in if version = VersionUnknown \<and> \<not> (ph_VersionFlag h \<or> ph_ResetFlag h)
          then Inl ErrPacketWithUnknownVersion
          else if ph_TruncateConnectionID h \<and> packetSentBy = PerspectiveClient
          then Inl errReceivedTruncatedConnectionID
          else rbind (parseConnectionID h b) (\<lambda>h b.
               rbind (parseNonce packetSentBy publicFlagByte h b) (\<lambda>h b.
                 parseVersion packetSentBy version h b)))"

definition validPacketNumberLen :: "PacketNumberLen \<Rightarrow> bool" where
  "validPacketNumberLen len \<longleftrightarrow>
     len = PacketNumberLen1 \<or> len = PacketNumberLen2 \<or> len = PacketNumberLen4 \<or> len = PacketNumberLen6"

definition PublicHeader_GetLength :: "PublicHeader \<Rightarrow> Perspective \<Rightarrow> ByteCount result" where
  "PublicHeader_GetLength h pers =
     (if ph_VersionFlag h \<and> ph_ResetFlag h then Inl errResetAndVersionFlagSet
      else if ph_VersionFlag h \<and> pers = PerspectiveServer then Inl errGetLengthNotForVersionNegotiation
      else if PublicHeader_hasPacketNumber h pers \<and> \<not> validPacketNumberLen (ph_PacketNumberLen h)
      then Inl errPacketNumberLenNotSet
      else
        let length = 1;
            length = (if PublicHeader_hasPacketNumber h pers
                      then length + ucast (ph_PacketNumberLen h) else length);
            length = (if \<not> ph_TruncateConnectionID h then length + 8 else length);
            length = (if ph_VersionFlag h then length + 4 else length);
            length = length + of_nat (List.length (ph_DiversificationNonce h))
        in Inr (if ph_MultipathFlag h then length + 1 else length))"

definition ComposeVersionNegotiation :: "ConnectionID \<Rightarrow> VersionNumber list \<Rightarrow> byte list" where
  "ComposeVersionNegotiation connectionID versions =
     (let responsePublicHeader = PublicHeader_zero\<lparr>ph_ConnectionID := connectionID,
            ph_PacketNumber := 1, ph_VersionFlag := True\<rparr>
      in (case PublicHeader_Write responsePublicHeader VersionWhatever PerspectiveServer of
            Inl err \<Rightarrow> [] | Inr b \<Rightarrow> b)
         @ concat (map (\<lambda>v. WriteUint32 LittleEndian (VersionNumberToTag v)) versions))"

section \<open>Reading back what was written\<close>

lemma flag_bits:
  assumes "p \<in> {0x00, 0x10, 0x20, 0x30}"
  shows "(publicFlags v r t n p m AND 0x02 > 0) = r"
    and "(publicFlags v r t n p m AND 0x01 > 0) = v"
    and "(publicFlags v r t n p m AND 0x08 = 0) = t"
    and "(publicFlags v r t n p m AND 0x04 > 0) = n"
    and "(publicFlags v r t n p m AND 0x40 > 0) = m"
    and "publicFlags v r t n p m AND 0x30 = p"
  using assms unfolding publicFlags_def
  by (cases v; cases r; cases t; cases n; cases m; auto)+

lemma lenBits_cases: "packetNumberLenBits len \<in> {0x00, 0x10, 0x20, 0x30}"
  by (simp add: packetNumberLenBits_def)

lemma parsePacketNumberLen_flags:
  assumes "validPacketNumberLen len"
  shows "parsePacketNumberLen (publicFlags v r t n (packetNumberLenBits len) m) = len"
  using assms flag_bits(6) [OF lenBits_cases, of v r t n len m]
  by (auto simp: parsePacketNumberLen_def validPacketNumberLen_def packetNumberLenBits_def
      packet_number_len_defs)

lemma writePacketNumber_enc:
  assumes "validPacketNumberLen len"
  shows "writePacketNumber bo len pn = Inr (bo_enc bo (unat len) (unat pn))"
  using assms
  by (auto simp: writePacketNumber_def validPacketNumberLen_def packet_number_len_defs
      write_fields write_field_1 [of _ bo])

lemma read_written_number:
  assumes "validPacketNumberLen len"
  shows "ReadUintN bo (bo_enc bo (unat len) (unat pn) @ r) len
    = Inr (take_bit (8 * unat len) pn, r)"
proof -
  have len: "unat len \<le> 8" and l6: "8 * unat len \<le> 48"
    using assms by (auto simp: validPacketNumberLen_def packet_number_len_defs)
  have u: "unat (take_bit (8 * unat len) pn) = unat pn mod 256 ^ unat len"
    by (simp only: unsigned_take_bit_eq) (simp add: take_bit_eq_mod power_2_8)
  have "bo_enc bo (unat len) (unat pn) = bo_enc bo (unat len) (unat (take_bit (8 * unat len) pn))"
    by (simp only: u bo.enc_mod)
  then show ?thesis using bo.rN_enc [OF len, of "take_bit (8 * unat len) pn" bo r] u by simp
qed

text \<open>
  What the peer is meant to see of a header: the packet number is truncated,
  absent fields have their zero values.
\<close>

definition PublicHeader_seen :: "PublicHeader \<Rightarrow> PublicHeader" where
  "PublicHeader_seen h = h\<lparr>
     ph_Raw := [],
     ph_ConnectionID := if ph_TruncateConnectionID h then 0 else ph_ConnectionID h,
     ph_PathID := if ph_MultipathFlag h then ph_PathID h else 0,
     ph_PacketNumber := take_bit (8 * unat (ph_PacketNumberLen h)) (ph_PacketNumber h),
     ph_VersionNumber := if ph_VersionFlag h then ph_VersionNumber h else 0,
     ph_SupportedVersions := []\<rparr>"

text \<open>
  The headers of regular packets: a client may announce the version it uses, only
  a server truncates the connection id or sends a nonce.
\<close>

definition PublicHeader_ok :: "PublicHeader \<Rightarrow> VersionNumber \<Rightarrow> Perspective \<Rightarrow> bool" where
  "PublicHeader_ok h version pers \<longleftrightarrow>
     \<not> ph_ResetFlag h \<and> validPacketNumberLen (ph_PacketNumberLen h) \<and>
     (\<not> ph_TruncateConnectionID h \<longrightarrow> ph_ConnectionID h \<noteq> 0) \<and>
     (pers = PerspectiveClient \<longrightarrow>
        \<not> ph_TruncateConnectionID h \<and> ph_DiversificationNonce h = []) \<and>
     (pers = PerspectiveServer \<longrightarrow>
        \<not> ph_VersionFlag h \<and> length (ph_DiversificationNonce h) \<in> {0, 32}) \<and>
     (ph_VersionFlag h \<longrightarrow> ph_VersionNumber h = version) \<and> 0 \<le> version \<and> version < 1000"

lemma PublicHeader_roundtrip_aux:
  assumes ok: "PublicHeader_ok h version pers" and v: "version' = version \<or> ph_VersionFlag h"
  shows "\<exists>bs. PublicHeader_Write h version pers = Inr bs \<and>
    PublicHeader_GetLength h pers = Inr (of_nat (length bs)) \<and>
    ParsePublicHeader (bs @ r) pers version' = Inr (PublicHeader_seen h, r)"
proof -
  have hpn: "PublicHeader_hasPacketNumber h pers"
    using ok by (auto simp: PublicHeader_ok_def PublicHeader_hasPacketNumber_def)
  have len: "validPacketNumberLen (ph_PacketNumberLen h)" using ok by (simp add: PublicHeader_ok_def)
  note fl = flag_bits(1-5) [OF lenBits_cases]
  show ?thesis
    using ok v hpn
    by (cases h; cases pers) (auto simp: little.r64_w64 little.r32_w32 PublicHeader_Write_def PublicHeader_GetLength_def ParsePublicHeader_def
      parsePublicFlags_def parseConnectionID_def parseNonce_def parseVersion_def parsePathAndNumber_def Let_def
      PublicHeader_ok_def PublicHeader_seen_def PublicHeader_hasPacketNumber_def PublicHeader_zero_def
      fl parsePacketNumberLen_flags writePacketNumber_enc read_written_number VersionTagToNumber_tag
      bo.length_enc VersionUnknown_def)
qed

text \<open>
  C21: Public headers can be read back.  For the header of a regular packet, \<open>Write\<close>
  succeeds, writes as many bytes as \<open>GetLength\<close> announces, and the peer's
  \<open>ParsePublicHeader\<close> returns every field that was written (the packet number
  truncated to its length) and stops exactly at the payload.
\<close>

theorem PublicHeader_roundtrip:
  assumes "PublicHeader_ok h version pers" and "version' = version \<or> ph_VersionFlag h"
  shows "\<exists>bs. PublicHeader_Write h version pers = Inr bs \<and>
    PublicHeader_GetLength h pers = Inr (of_nat (length bs)) \<and>
    ParsePublicHeader (bs @ r) pers version' = Inr (PublicHeader_seen h, r)"
  using assms by (rule PublicHeader_roundtrip_aux)

definition example_header :: PublicHeader where
  "example_header = PublicHeader_zero\<lparr>ph_ConnectionID := 0xdecafbad, ph_MultipathFlag := True,
     ph_PathID := 3, ph_PacketNumberLen := PacketNumberLen2, ph_PacketNumber := 70000,
     ph_VersionFlag := True, ph_VersionNumber := VersionMP\<rparr>"

lemma example_header_ok: "PublicHeader_ok example_header VersionMP PerspectiveClient"
  by (simp add: example_header_def PublicHeader_ok_def PublicHeader_zero_def VersionMP_def
      validPacketNumberLen_def)

theorem PublicHeader_roundtrip_witness:
  "\<exists>bs. PublicHeader_Write example_header VersionMP PerspectiveClient = Inr bs \<and>
    ParsePublicHeader (bs @ [1, 2]) PerspectiveClient VersionUnknown
      = Inr (PublicHeader_seen example_header, [1, 2])"
proof -
  have "ph_VersionFlag example_header" by (simp add: example_header_def)
  then show ?thesis
    using PublicHeader_roundtrip [OF example_header_ok, of VersionUnknown "[1, 2]"] by blast
qed

text \<open>
  C13: Packet numbers survive truncation end to end.  When the sender chooses the
  packet number length with \<open>GetPacketNumberLengthForPublicHeader\<close>, the receiver
  that has seen every packet below \<open>leastUnacked\<close> and none beyond this one
  recovers the full packet number from the parsed header with
  \<open>InferPacketNumber\<close>.
\<close>

theorem PublicHeader_packet_number:
  assumes "PublicHeader_ok h version pers"
    and "ph_PacketNumberLen h = GetPacketNumberLengthForPublicHeader (ph_PacketNumber h) leastUnacked"
    and "leastUnacked \<le> lastPN + 1" "lastPN < ph_PacketNumber h"
    and "uint (ph_PacketNumber h) < 2 ^ 62" "ph_PacketNumber h - leastUnacked < 2 ^ 47"
  shows "\<exists>bs hdr. PublicHeader_Write h version pers = Inr bs \<and>
    ParsePublicHeader (bs @ r) pers version = Inr (hdr, r) \<and>
    InferPacketNumber (ph_PacketNumberLen hdr) lastPN (ph_PacketNumber hdr) = ph_PacketNumber h"
  using PublicHeader_roundtrip_aux [OF assms(1), of version r]
    public_header_infers [OF assms(3-6,2)]
  by (auto simp: PublicHeader_seen_def)

theorem PublicHeader_packet_number_witness:
  "\<exists>bs hdr. PublicHeader_Write example_header VersionMP PerspectiveClient = Inr bs \<and>
    ParsePublicHeader bs PerspectiveClient VersionMP = Inr (hdr, []) \<and>
    InferPacketNumber (ph_PacketNumberLen hdr) 69990 (ph_PacketNumber hdr) = 70000"
  using PublicHeader_packet_number [OF example_header_ok, of 69000 69990 "[]"]
  by (simp add: example_header_def GetPacketNumberLengthForPublicHeader_def)

lemma parse_keeps_ConnectionID:
  "parsePathAndNumber p v h b = Inr (h', r) \<Longrightarrow> ph_ConnectionID h' = ph_ConnectionID h"
  "parseVersion p v h b = Inr (h', r) \<Longrightarrow> ph_ConnectionID h' = ph_ConnectionID h"
  "parseNonce p fb h b = Inr (h', r) \<Longrightarrow> ph_ConnectionID h' = ph_ConnectionID h"
proof -
  show path: "parsePathAndNumber p v h b = Inr (h', r) \<Longrightarrow> ph_ConnectionID h' = ph_ConnectionID h"
    for v and h :: PublicHeader and b
    by (auto simp: parsePathAndNumber_def rbind_eq_Inr Let_def split: if_splits)
  show "parseVersion p v h b = Inr (h', r) \<Longrightarrow> ph_ConnectionID h' = ph_ConnectionID h"
    by (auto simp: parseVersion_def rbind_eq_Inr Let_def split: if_splits dest!: path)
  show "parseNonce p fb h b = Inr (h', r) \<Longrightarrow> ph_ConnectionID h' = ph_ConnectionID h"
    by (auto simp: parseNonce_def rbind_eq_Inr split: if_splits)
qed

lemma parsePublicFlags_sel:
  "ph_TruncateConnectionID (parsePublicFlags fb p) \<longleftrightarrow> fb AND 0x08 = 0"
  "ph_ConnectionID (parsePublicFlags fb p) = 0"
  by (simp_all add: parsePublicFlags_def Let_def PublicHeader_zero_def)

lemma parseConnectionID_peek:
  assumes "parseConnectionID h b = Inr (h', r)" "ph_ConnectionID h = 0"
  shows "if ph_TruncateConnectionID h then ph_ConnectionID h' = 0
    else \<exists>r. ReadUint64 LittleEndian b = Inr (ph_ConnectionID h', r)"
  using assms by (auto simp: parseConnectionID_def rbind_eq_Inr split: if_splits)

text \<open>
  C34: The server's demultiplexer and the parser agree on the connection id:
  whenever a header parses, \<open>PeekConnectionID\<close> on the same bytes returns the
  connection id of the parsed header.
\<close>

theorem PeekConnectionID_agrees:
  assumes "ParsePublicHeader b p v = Inr (h, r)"
  shows "PeekConnectionID b p = Inr (ph_ConnectionID h)"
proof (cases b)
  case Nil
  then show ?thesis using assms by (simp add: ParsePublicHeader_def)
next
  case (Cons fb b1)
  let ?h0 = "parsePublicFlags fb p"
  obtain h1 b2 h2 b3 where trunc: "\<not> (ph_TruncateConnectionID ?h0 \<and> p = PerspectiveClient)"
    and conn: "parseConnectionID ?h0 b1 = Inr (h1, b2)"
    and rest: "parseNonce p fb h1 b2 = Inr (h2, b3)" "parseVersion p v h2 b3 = Inr (h, r)"
    using assms Cons
    by (auto simp: ParsePublicHeader_def Let_def rbind_eq_Inr split: if_splits)
  have "ph_ConnectionID h = ph_ConnectionID h1" using rest by (simp add: parse_keeps_ConnectionID)
  then show ?thesis
    using parseConnectionID_peek [OF conn] trunc Cons
    by (auto simp: parsePublicFlags_sel PeekConnectionID_def Let_def split: if_splits)
qed

theorem PeekConnectionID_agrees_witness:
  "\<exists>h. ParsePublicHeader [0x08, 1, 0, 0, 0, 0, 0, 0, 0, 42] PerspectiveClient Version39 = Inr (h, []) \<and>
     PeekConnectionID [0x08, 1, 0, 0, 0, 0, 0, 0, 0, 42] PerspectiveClient = Inr 1"
proof -
  let ?h = "PublicHeader_zero\<lparr>ph_ConnectionID := 1, ph_PacketNumberLen := 1, ph_PacketNumber := 42\<rparr>"
  have "ParsePublicHeader [0x08, 1, 0, 0, 0, 0, 0, 0, 0, 42] PerspectiveClient Version39 = Inr (?h, [])"
    by code_simp
  with PeekConnectionID_agrees [OF this] show ?thesis by (auto simp: PublicHeader_zero_def)
qed

lemma readVersions_tags:
  assumes "\<forall>v \<in> set vs. 0 \<le> v \<and> v < 1000"
  shows "readVersions (concat (map (\<lambda>v. WriteUint32 LittleEndian (VersionNumberToTag v)) vs)) = vs"
  using assms
proof (induction vs)
  case Nil
  then show ?case by (subst readVersions.simps) (simp add: little.reads_short [OF little.r32])
next
  case (Cons v vs)
  then show ?case
    by (subst readVersions.simps) (simp add: little.r32_w32 VersionTagToNumber_tag)
qed

lemma length_tags: "length (concat (map (\<lambda>v. WriteUint32 bo (f v)) vs)) = 4 * length vs"
  by (induction vs) simp_all

text \<open>
  C35: Version negotiation.  A client that parses a Version Negotiation packet
  composed by the server obtains the connection id and exactly the list of
  versions the server offered, in order.
\<close>

theorem VersionNegotiation_roundtrip:
  assumes "connectionID \<noteq> 0" "\<forall>v \<in> set versions. 0 \<le> v \<and> v < 1000"
  shows "\<exists>h. ParsePublicHeader (ComposeVersionNegotiation connectionID versions)
      PerspectiveServer version = Inr (h, []) \<and>
    ph_VersionFlag h \<and> ph_ConnectionID h = connectionID \<and> ph_SupportedVersions h = versions"
  using assms length_tags [of LittleEndian VersionNumberToTag versions]
    readVersions_tags [OF assms(2)]
  by (simp add: ComposeVersionNegotiation_def PublicHeader_zero_def PublicHeader_Write_def Let_def
      PublicHeader_hasPacketNumber_def ParsePublicHeader_def parsePublicFlags_def parseConnectionID_def parseNonce_def
      parseVersion_def flag_bits little.r64_w64)

theorem VersionNegotiation_roundtrip_witness:
  "\<exists>h. ParsePublicHeader (ComposeVersionNegotiation 7 SupportedVersions)
      PerspectiveServer VersionUnknown = Inr (h, []) \<and> ph_SupportedVersions h = SupportedVersions"
proof -
  have "\<forall>v \<in> set SupportedVersions. 0 \<le> v \<and> v < 1000"
    by (simp add: SupportedVersions_def version_defs)
  then show ?thesis
    using VersionNegotiation_roundtrip [of 7 SupportedVersions VersionUnknown] by auto
qed

end
