(* ===== verification/Unpacker.thy ===== *)
theory Unpacker
  imports StreamFrames AckFrames ClosePathFrames PathFrames PublicHeaders
begin

text \<open>
  The interface \<open>Frame\<close> of \<open>internal/wire/frame.go\<close> as the sum of the frame types,
  and the packet unpacker (\<open>packet_unpacker.go\<close>).  The AEAD of a session is the
  argument \<open>open\<close> of \<open>Unpack\<close>: from the ciphertext, the packet number and the
  public header it gives the plaintext and its encryption level, or an error.

  The loop over the frames of a packet ends because every parser consumes its type
  byte; this is the law \<open>progress\<close> of the locale \<open>frame_codec\<close>.  Shown here: the
  frames written into a packet are the frames unpacked from it, in order and
  unaffected by padding, and unencrypted packets carry no stream data but that of
  the crypto stream.
\<close>

section \<open>Frames\<close>

datatype Frame =
    FStream StreamFrame
  | FAck AckFrame
  | FRstStream RstStreamFrame
  | FConnectionClose ConnectionCloseFrame
  | FGoaway GoawayFrame
  | FWindowUpdate WindowUpdateFrame
  | FBlocked BlockedFrame
  | FStopWaiting StopWaitingFrame
  | FPing PingFrame
  | FAddAddress AddAddressFrame
  | FClosePath ClosePathFrame
  | FPaths PathsFrame

text \<open>
  A call of \<open>Write\<close> or \<open>MinLength\<close> goes to the method of the frame; the clock and
  \<open>net.ParseIP\<close> are arguments.
\<close>

fun Frame_Write ::
    "(string \<Rightarrow> byte list option) \<Rightarrow> time \<Rightarrow> Frame \<Rightarrow> VersionNumber \<Rightarrow> byte list result" where
  "Frame_Write parseIP now (FStream f) v = StreamFrame_Write f v"
| "Frame_Write parseIP now (FAck f) v = snd (AckFrame_Write f v now)"
| "Frame_Write parseIP now (FRstStream f) v = RstStreamFrame_Write f v"
| "Frame_Write parseIP now (FConnectionClose f) v = ConnectionCloseFrame_Write f v"
| "Frame_Write parseIP now (FGoaway f) v = GoawayFrame_Write f v"
| "Frame_Write parseIP now (FWindowUpdate f) v = WindowUpdateFrame_Write f v"
| "Frame_Write parseIP now (FBlocked f) v = BlockedFrame_Write f v"
| "Frame_Write parseIP now (FStopWaiting f) v = StopWaitingFrame_Write f v"
| "Frame_Write parseIP now (FPing f) v = PingFrame_Write f v"
| "Frame_Write parseIP now (FAddAddress f) v = AddAddressFrame_Write f v"
| "Frame_Write parseIP now (FClosePath f) v = ClosePathFrame_Write f v"
| "Frame_Write parseIP now (FPaths f) v = PathsFrame_Write parseIP f v"

fun Frame_MinLength :: "Frame \<Rightarrow> VersionNumber \<Rightarrow> ByteCount result" where
  "Frame_MinLength (FStream f) v = StreamFrame_MinLength f v"
| "Frame_MinLength (FAck f) v = AckFrame_MinLength f v"
| "Frame_MinLength (FRstStream f) v = RstStreamFrame_MinLength f v"
| "Frame_MinLength (FConnectionClose f) v = ConnectionCloseFrame_MinLength f v"
| "Frame_MinLength (FGoaway f) v = GoawayFrame_MinLength f v"
| "Frame_MinLength (FWindowUpdate f) v = WindowUpdateFrame_MinLength f v"
| "Frame_MinLength (FBlocked f) v = BlockedFrame_MinLength f v"
| "Frame_MinLength (FStopWaiting f) v = StopWaitingFrame_MinLength f v"
| "Frame_MinLength (FPing f) v = PingFrame_MinLength f v"
| "Frame_MinLength (FAddAddress f) v = AddAddressFrame_MinLength f v"
| "Frame_MinLength (FClosePath f) v = ClosePathFrame_MinLength f v"
| "Frame_MinLength (FPaths f) v = PathsFrame_MinLength f v"

section \<open>Unpacking\<close>

text \<open>Wrap a parsed frame, and its parser's error, as the branches of \<open>Unpack\<close> do.\<close>

definition asFrame :: "(go_error \<Rightarrow> go_error) \<Rightarrow> ('f \<Rightarrow> Frame) \<Rightarrow> 'f parsed \<Rightarrow> Frame parsed" where
  "asFrame wrap C m = (case m of Inl err \<Rightarrow> Inl (wrap err) | Inr (f, r) \<Rightarrow> Inr (C f, r))"

definition checkUnencrypted :: "EncryptionLevel \<Rightarrow> StreamFrame parsed \<Rightarrow> Frame parsed" where
  "checkUnencrypted encryptionLevel m =
     (case m of
        Inl err \<Rightarrow> Inl (QuicErrorOf InvalidStreamData err)
      | Inr (f, r) \<Rightarrow>
          if sf_StreamID f \<noteq> 1 \<and> encryptionLevel \<le> EncryptionUnencrypted
          then Inl (QuicError UnencryptedStreamData ''received unencrypted stream data on stream %d'')
          else Inr (FStream f, r))"

definition parseFrame ::
    "VersionNumber \<Rightarrow> PacketNumber \<Rightarrow> PacketNumberLen \<Rightarrow> EncryptionLevel \<Rightarrow> byte \<Rightarrow> byte list
     \<Rightarrow> Frame parsed" where
  "parseFrame version packetNumber packetNumberLen encryptionLevel typeByte r =
     (if typeByte AND 0x80 = 0x80 then checkUnencrypted encryptionLevel (ParseStreamFrame r version)
      else if typeByte AND 0xc0 = 0x40
      then asFrame (QuicErrorOf InvalidAckData) FAck (ParseAckFrame r version)
      else if typeByte AND 0xe0 = 0x20 then Inl (GoError ''unimplemented: CONGESTION_FEEDBACK'')
      else if typeByte = 0x01
      then asFrame (QuicErrorOf InvalidRstStreamData) FRstStream (ParseRstStreamFrame r version)
      else if typeByte = 0x02
      then asFrame (QuicErrorOf InvalidConnectionCloseData) FConnectionClose
        (ParseConnectionCloseFrame r version)
      else if typeByte = 0x03
      then asFrame (QuicErrorOf InvalidGoawayData) FGoaway (ParseGoawayFrame r version)
      else if typeByte = 0x04
      then asFrame (QuicErrorOf InvalidWindowUpdateData) FWindowUpdate (ParseWindowUpdateFrame r version)
      else if typeByte = 0x05
      then asFrame (QuicErrorOf InvalidBlockedData) FBlocked (ParseBlockedFrame r version)
      else if typeByte = 0x06
      then asFrame (QuicErrorOf InvalidStopWaitingData) FStopWaiting
        (ParseStopWaitingFrame r packetNumber packetNumberLen version)
      else if typeByte = 0x07 then asFrame id FPing (ParsePingFrame r version)
      else if typeByte = 0x10 then asFrame id FAddAddress (ParseAddAddressFrame r version)
      else if typeByte = 0x11 then asFrame id FClosePath (ParseClosePathFrame r version)
      else if typeByte = 0x12 then asFrame id FPaths (ParsePathsFrame r version)
      else Inl (QuicError InvalidFrameData ''unknown type byte 0x%x''))"

lemma asFrame_Inr: "asFrame w C m = Inr (f, r) \<longleftrightarrow> (\<exists>g. m = Inr (g, r) \<and> f = C g)"
  by (auto simp: asFrame_def split: sum.splits)

lemma checkUnencrypted_Inr: "checkUnencrypted l m = Inr (f, r) \<longleftrightarrow>
    (\<exists>g. m = Inr (g, r) \<and> f = FStream g \<and> (sf_StreamID g = 1 \<or> EncryptionUnencrypted < l))"
  by (auto simp: checkUnencrypted_def not_le split: sum.splits)

lemma parseFrame_progress:
  assumes "parseFrame v pn n l t b = Inr (f, r)"
  shows "length r < length b"
  using assms
  by (auto simp: parseFrame_def asFrame_Inr checkUnencrypted_Inr split: if_splits
      dest: stream.progress ack.progress rst.progress cc.progress goaway.progress wu.progress
        blocked.progress sw.progress ping.progress add_address.progress close_path.progress
        ParsePathsFrame_progress)

function unpackFrames ::
    "VersionNumber \<Rightarrow> PacketNumber \<Rightarrow> PacketNumberLen \<Rightarrow> EncryptionLevel \<Rightarrow> byte list
     \<Rightarrow> Frame list result" where
  "unpackFrames version packetNumber packetNumberLen encryptionLevel r =
     (case r of
        [] \<Rightarrow> Inr []
      | typeByte # r' \<Rightarrow>
          if typeByte = 0x0 then unpackFrames version packetNumber packetNumberLen encryptionLevel r'
          else case parseFrame version packetNumber packetNumberLen encryptionLevel typeByte r of
            Inl err \<Rightarrow> Inl err
          | Inr (frame, r'') \<Rightarrow>
              wbind (unpackFrames version packetNumber packetNumberLen encryptionLevel r'')
                (\<lambda>fs. Inr (frame # fs)))"
  by pat_completeness auto
termination
  by (relation "measure (\<lambda>(_, _, _, _, r). length r)") (auto dest: parseFrame_progress)

declare unpackFrames.simps [simp del]

record unpackedPacket =
  up_encryptionLevel :: EncryptionLevel
  up_frames :: "Frame list"

type_synonym aead_open =
  "byte list \<Rightarrow> PacketNumber \<Rightarrow> byte list \<Rightarrow> (byte list \<times> EncryptionLevel) result"

definition Unpack ::
    "aead_open \<Rightarrow> VersionNumber \<Rightarrow> byte list \<Rightarrow> PublicHeader \<Rightarrow> byte list \<Rightarrow> unpackedPacket result" where
  "Unpack open version publicHeaderBinary hdr data =
     (case open data (ph_PacketNumber hdr) publicHeaderBinary of
        Inl err \<Rightarrow> Inl (QuicErrorOf DecryptionFailure err)
      | Inr (decrypted, encryptionLevel) \<Rightarrow>
          if decrypted = [] then Inl (ErrorCode MissingPayload)
          else wbind (unpackFrames version (ph_PacketNumber hdr) (ph_PacketNumberLen hdr)
                 encryptionLevel decrypted) (\<lambda>fs.
                 Inr \<lparr>up_encryptionLevel = encryptionLevel, up_frames = fs\<rparr>))"

section \<open>Reading back a packet\<close>

fun Frame_ok ::
    "VersionNumber \<Rightarrow> PacketNumber \<Rightarrow> PacketNumberLen \<Rightarrow> EncryptionLevel \<Rightarrow> Frame \<Rightarrow> bool" where
  "Frame_ok v pn n l (FStream f) \<longleftrightarrow>
     StreamFrame_ok f v \<and> (sf_StreamID f = 1 \<or> EncryptionUnencrypted < l)"
| "Frame_ok v pn n l (FAck f) \<longleftrightarrow> AckFrame_ok f v"
| "Frame_ok v pn n l (FConnectionClose f) \<longleftrightarrow> phrase_ok (cc_ReasonPhrase f)"
| "Frame_ok v pn n l (FGoaway f) \<longleftrightarrow> phrase_ok (goaway_ReasonPhrase f)"
| "Frame_ok v pn n l (FStopWaiting f) \<longleftrightarrow> StopWaitingFrame_ok pn n f v"
| "Frame_ok v pn n l (FAddAddress f) \<longleftrightarrow> AddAddressFrame_ok f v"
| "Frame_ok v pn n l (FClosePath f) \<longleftrightarrow> ClosePathFrame_ok f v"
| "Frame_ok v pn n l (FPaths f) \<longleftrightarrow> PathsFrame_ok f"
| "Frame_ok v pn n l _ \<longleftrightarrow> True"

text \<open>What the receiver of a frame is meant to see of it.\<close>

fun Frame_seen :: "time \<Rightarrow> Frame \<Rightarrow> Frame" where
  "Frame_seen now (FAck f) = FAck (AckFrame_seen now f)"
| "Frame_seen now (FStopWaiting f) = FStopWaiting (StopWaitingFrame_seen f)"
| "Frame_seen now (FAddAddress f) = FAddAddress (AddAddressFrame_seen f)"
| "Frame_seen now (FClosePath f) = FClosePath (ClosePathFrame_seen f)"
| "Frame_seen now (FPaths f) = FPaths (PathsFrame_seen f)"
| "Frame_seen now f = f"

lemma top_bit: "(t :: byte) AND 0x80 > 0 \<longleftrightarrow> t AND 0x80 = 0x80"
proof -
  have b: "bit (0x80 :: byte) n \<longleftrightarrow> n = 7" if "n < 8" for n
  proof -
    from that have "n \<in> {0, 1, 2, 3, 4, 5, 6, 7}" by auto
    then show ?thesis by auto
  qed
  have "t AND 0x80 = 0x80" if "bit t 7"
    by (rule bit_word_eqI) (use that b in \<open>auto simp: bit_and_iff\<close>)
  moreover have "t AND 0x80 = 0" if "\<not> bit t 7"
    by (rule bit_word_eqI) (use that b in \<open>auto simp: bit_and_iff\<close>)
  ultimately show ?thesis by (cases "bit t 7") simp_all
qed

lemma ack_tag: "(t :: byte) AND 0xc0 = 0x40 \<Longrightarrow> t AND 0x80 \<noteq> 0x80 \<and> t \<noteq> 0"
proof
  assume t: "t AND 0xc0 = 0x40"
  have "(t AND 0xc0) AND 0x80 = t AND 0x80" by (simp add: and.assoc)
  then show "t AND 0x80 \<noteq> 0x80" using t by auto
  show "t \<noteq> 0" using t by auto
qed

text \<open>The type byte selects the parser.\<close>

lemma parseFrame_tags:
  "parseFrame v pn n l 0x01 r = asFrame (QuicErrorOf InvalidRstStreamData) FRstStream (ParseRstStreamFrame r v)"
  "parseFrame v pn n l 0x02 r = asFrame (QuicErrorOf InvalidConnectionCloseData) FConnectionClose (ParseConnectionCloseFrame r v)"
  "parseFrame v pn n l 0x03 r = asFrame (QuicErrorOf InvalidGoawayData) FGoaway (ParseGoawayFrame r v)"
  "parseFrame v pn n l 0x04 r = asFrame (QuicErrorOf InvalidWindowUpdateData) FWindowUpdate (ParseWindowUpdateFrame r v)"
  "parseFrame v pn n l 0x05 r = asFrame (QuicErrorOf InvalidBlockedData) FBlocked (ParseBlockedFrame r v)"
  "parseFrame v pn n l 0x06 r = asFrame (QuicErrorOf InvalidStopWaitingData) FStopWaiting (ParseStopWaitingFrame r pn n v)"
  "parseFrame v pn n l 0x07 r = asFrame id FPing (ParsePingFrame r v)"
  "parseFrame v pn n l 0x10 r = asFrame id FAddAddress (ParseAddAddressFrame r v)"
  "parseFrame v pn n l 0x11 r = asFrame id FClosePath (ParseClosePathFrame r v)"
  "parseFrame v pn n l 0x12 r = asFrame id FPaths (ParsePathsFrame r v)"
  by (simp_all add: parseFrame_def)

lemma parseFrame_stream:
  "t AND 0x80 = 0x80 \<Longrightarrow> parseFrame v pn n l t r = checkUnencrypted l (ParseStreamFrame r v)"
  by (simp add: parseFrame_def)

lemma parseFrame_ack:
  "t AND 0xc0 = 0x40 \<Longrightarrow> parseFrame v pn n l t r = asFrame (QuicErrorOf InvalidAckData) FAck (ParseAckFrame r v)"
  using ack_tag [of t] by (simp add: parseFrame_def)

lemma written_tagged:
  assumes "wr = Inr (t # bs)" "t \<noteq> 0"
    and "\<And>r. parseFrame v pn n l t r = asFrame w C (ps r)"
    and "\<And>r. ps ((t # bs) @ r) = Inr (g, r)"
  shows "\<exists>t bs. wr = Inr (t # bs) \<and> t \<noteq> 0 \<and> (\<forall>r. parseFrame v pn n l t (t # bs @ r) = Inr (C g, r))"
  using assms(1,2,4) by (auto simp: assms(3) asFrame_def)

text \<open>Every frame begins with a type byte that sends the unpacker to its own parser.\<close>

lemma written_frame:
  assumes "parses_ipv4 parseIP" "Frame_ok v pn n l f"
  shows "\<exists>t bs. Frame_Write parseIP now f v = Inr (t # bs) \<and> t \<noteq> 0 \<and>
    (\<forall>r. parseFrame v pn n l t (t # bs @ r) = Inr (Frame_seen now f, r))"
proof (cases f)
  case (FStream g)
  obtain t bs where w: "StreamFrame_Write g v = Inr (t # bs)" "t AND 0x80 = 0x80"
    using stream.written [of g v] assms FStream by (auto simp: top_bit)
  moreover from w(2) have "t \<noteq> 0" by auto
  moreover have "ParseStreamFrame ((t # bs) @ r) v = Inr (g, r)" for r
    using stream.parse_written [of g v "t # bs" r] w(1) assms(2) FStream by simp
  ultimately show ?thesis
    using assms(2) FStream by (simp add: parseFrame_stream checkUnencrypted_Inr not_le)
next
  case (FAck g)
  obtain t bs where w: "snd (AckFrame_Write g v now) = Inr (t # bs)" "t AND 0xc0 = 0x40"
    using ack.written [of g v now] assms FAck by auto
  have "\<exists>t bs. snd (AckFrame_Write g v now) = Inr (t # bs) \<and> t \<noteq> 0 \<and>
      (\<forall>r. parseFrame v pn n l t (t # bs @ r) = Inr (FAck (AckFrame_seen now g), r))"
    using w ack_tag [OF w(2)] ack.parse_written [of g v now "t # bs"] assms(2) FAck
    by (intro written_tagged [OF w(1) _ parseFrame_ack [OF w(2)]]) auto
  then show ?thesis using FAck by simp
next
  case (FPaths g)
  obtain bs where w: "PathsFrame_Write parseIP g v = Inr bs"
    and p: "\<And>r. ParsePathsFrame (bs @ r) v = Inr (PathsFrame_seen g, r)"
    using PathsFrame_written [OF assms(1), of g v] assms(2) FPaths by auto
  from w obtain ps where ps: "bs = 0x12 # ps"
    by (auto simp: PathsFrame_Write_def wbind_eq_Inr split: if_splits)
  show ?thesis
    using written_tagged [OF w [unfolded ps] _ parseFrame_tags(10) p [unfolded ps]] FPaths by simp
next
  case (FRstStream g)
  then obtain bs where w: "RstStreamFrame_Write g v = Inr (0x01 # bs)"
    using rst.written [of g v] assms(2) by auto
  show ?thesis
    using written_tagged [OF w _ parseFrame_tags(1) rst.parse_written [OF _ w]] assms(2) FRstStream by simp
next
  case (FConnectionClose g)
  then obtain bs where w: "ConnectionCloseFrame_Write g v = Inr (0x02 # bs)"
    using cc.written [of g v] assms(2) by auto
  show ?thesis
    using written_tagged [OF w _ parseFrame_tags(2) cc.parse_written [OF _ w]] assms(2) FConnectionClose by simp
next
  case (FGoaway g)
  then obtain bs where w: "GoawayFrame_Write g v = Inr (0x03 # bs)"
    using goaway.written [of g v] assms(2) by auto
  show ?thesis
    using written_tagged [OF w _ parseFrame_tags(3) goaway.parse_written [OF _ w]] assms(2) FGoaway by simp
next
  case (FWindowUpdate g)
  then obtain bs where w: "WindowUpdateFrame_Write g v = Inr (0x04 # bs)"
    using wu.written [of g v] assms(2) by auto
  show ?thesis
    using written_tagged [OF w _ parseFrame_tags(4) wu.parse_written [OF _ w]] assms(2) FWindowUpdate by simp
next
  case (FBlocked g)
  then obtain bs where w: "BlockedFrame_Write g v = Inr (0x05 # bs)"
    using blocked.written [of g v] assms(2) by auto
  show ?thesis
    using written_tagged [OF w _ parseFrame_tags(5) blocked.parse_written [OF _ w]] assms(2) FBlocked by simp
next
  case (FStopWaiting g)
  then obtain bs where w: "StopWaitingFrame_Write g v = Inr (0x06 # bs)"
    using sw.written [of pn n g v] assms(2) by auto
  show ?thesis
    using written_tagged [OF w _ parseFrame_tags(6) sw.parse_written [OF _ w]] assms(2) FStopWaiting by simp
next
  case (FPing g)
  then obtain bs where w: "PingFrame_Write g v = Inr (0x07 # bs)"
    using ping.written [of g v] assms(2) by auto
  show ?thesis
    using written_tagged [OF w _ parseFrame_tags(7) ping.parse_written [OF _ w]] assms(2) FPing by simp
next
  case (FAddAddress g)
  then obtain bs where w: "AddAddressFrame_Write g v = Inr (0x10 # bs)"
    using add_address.written [of g v] assms(2) by auto
  show ?thesis
    using written_tagged [OF w _ parseFrame_tags(8) add_address.parse_written [OF _ w]] assms(2) FAddAddress by simp
next
  case (FClosePath g)
  then obtain bs where w: "ClosePathFrame_Write g v = Inr (0x11 # bs)"
    using close_path.written [of g v] assms(2) by auto
  show ?thesis
    using written_tagged [OF w _ parseFrame_tags(9) close_path.parse_written [OF _ w]] assms(2) FClosePath by simp
qed

section \<open>Packets of frames\<close>

text \<open>The payload of a packet: its frames one after the other (\<open>packet_packer.go\<close>).\<close>

fun writeFrames ::
    "(string \<Rightarrow> byte list option) \<Rightarrow> time \<Rightarrow> VersionNumber \<Rightarrow> Frame list \<Rightarrow> byte list result" where
  "writeFrames parseIP now v [] = Inr []"
| "writeFrames parseIP now v (f # fs) =
     wbind (Frame_Write parseIP now f v) (\<lambda>b. wbind (writeFrames parseIP now v fs) (\<lambda>bs. Inr (b @ bs)))"

lemma unpack_Nil: "unpackFrames v pn n l [] = Inr []"
  by (subst unpackFrames.simps) simp

lemma unpack_padding: "unpackFrames v pn n l (replicate k 0 @ r) = unpackFrames v pn n l r"
proof (induction k)
  case (Suc k)
  then show ?case by (subst unpackFrames.simps) simp
qed simp

lemma unpack_frame:
  assumes "t \<noteq> 0" "parseFrame v pn n l t (t # bs @ r) = Inr (f, r)"
  shows "unpackFrames v pn n l (t # bs @ r) = wbind (unpackFrames v pn n l r) (\<lambda>fs. Inr (f # fs))"
  using assms by (subst unpackFrames.simps) simp

lemma unpack_written:
  assumes "parses_ipv4 parseIP" "\<forall>f \<in> set fs. Frame_ok v pn n l f"
  shows "\<exists>bs. writeFrames parseIP now v fs = Inr bs \<and> (\<forall>r. unpackFrames v pn n l (bs @ r)
    = wbind (unpackFrames v pn n l r) (\<lambda>gs. Inr (map (Frame_seen now) fs @ gs)))"
  using assms(2)
proof (induction fs)
  case Nil
  have "wbind m Inr = m" for m :: "Frame list result" by (cases m) simp_all
  then show ?case by simp
next
  case (Cons f fs)
  obtain t b where w: "Frame_Write parseIP now f v = Inr (t # b)" "t \<noteq> 0"
    and p: "\<And>r. parseFrame v pn n l t (t # b @ r) = Inr (Frame_seen now f, r)"
    using written_frame [OF assms(1), of v pn n l f now] Cons.prems by auto
  obtain bs where IH: "writeFrames parseIP now v fs = Inr bs" "\<And>r. unpackFrames v pn n l (bs @ r)
    = wbind (unpackFrames v pn n l r) (\<lambda>gs. Inr (map (Frame_seen now) fs @ gs))"
    using Cons by auto
  have "unpackFrames v pn n l ((t # b @ bs) @ r)
      = wbind (unpackFrames v pn n l r) (\<lambda>gs. Inr (map (Frame_seen now) (f # fs) @ gs))" for r
    using unpack_frame [OF w(2) p, of "bs @ r"] IH(2) [of r]
    by (cases "unpackFrames v pn n l r") simp_all
  then show ?case using w IH(1) by auto
qed

text \<open>The last frame of a packet may be a STREAM frame that extends to the end of the packet.\<close>

definition last_frame_ok :: "EncryptionLevel \<Rightarrow> Frame list \<Rightarrow> bool" where
  "last_frame_ok l fs \<longleftrightarrow> fs = [] \<or> (\<exists>f. fs = [FStream f] \<and> StreamFrame_valid (2 ^ 16 - 1) f \<and>
     \<not> sf_DataLenPresent f \<and> (sf_StreamID f = 1 \<or> EncryptionUnencrypted < l))"

lemma stream_type_byte:
  assumes "StreamFrame_valid m f"
  shows "\<exists>t bs. StreamFrame_Write f v = Inr (t # bs) \<and> t AND 0x80 = 0x80"
  using typeByte_fields(5) [OF Offset_length(3) [of f] StreamID_length(3) [of f]]
  by (simp add: StreamFrame_Write_valid [OF assms] top_bit)

lemma unpack_last:
  assumes "last_frame_ok l fs"
  shows "\<exists>bs. writeFrames parseIP now v fs = Inr bs \<and> unpackFrames v pn n l bs = Inr fs"
proof (cases fs)
  case Nil
  then show ?thesis by (simp add: unpack_Nil)
next
  case (Cons f' fs')
  then obtain f where f: "fs = [FStream f]" "StreamFrame_valid (2 ^ 16 - 1) f" "\<not> sf_DataLenPresent f"
    "sf_StreamID f = 1 \<or> EncryptionUnencrypted < l"
    using assms by (auto simp: last_frame_ok_def)
  obtain t bs where w: "StreamFrame_Write f v = Inr (t # bs)" "t AND 0x80 = 0x80"
    using stream_type_byte [OF f(2)] by blast
  have t: "t \<noteq> 0" using w(2) by auto
  have "ParseStreamFrame ((t # bs) @ []) v = Inr (f, [])"
    using f by (intro parse_StreamFrame [OF f(2) w(1)]) simp
  then have "parseFrame v pn n l t (t # bs @ []) = Inr (FStream f, [])"
    using f(4) w(2) by (simp add: parseFrame_stream checkUnencrypted_Inr)
  then have "unpackFrames v pn n l (t # bs @ []) = Inr [FStream f]"
    using unpack_frame [of t v pn n l bs "[]" "FStream f"] t by (simp add: unpack_Nil)
  then show ?thesis using f w by simp
qed

lemma writeFrames_append:
  "writeFrames parseIP now v (fs @ gs) =
     wbind (writeFrames parseIP now v fs) (\<lambda>b. wbind (writeFrames parseIP now v gs) (\<lambda>c. Inr (b @ c)))"
proof (induction fs)
  case Nil
  then show ?case by (cases "writeFrames parseIP now v gs") simp_all
next
  case (Cons f fs)
  then show ?case
    by (cases "Frame_Write parseIP now f v"; cases "writeFrames parseIP now v fs";
        cases "writeFrames parseIP now v gs") simp_all
qed

text \<open>
  C12: A packet carries its frames.  Writing a sequence of well-formed frames, of
  which the last may be a STREAM frame without length field, succeeds, and when the
  AEAD opens the received data to the bytes written, possibly after padding, then
  \<open>Unpack\<close> returns exactly these frames, in order, as the receiver is meant to see
  them.
\<close>

theorem Unpack_written:
  assumes "parses_ipv4 parseIP" "fs @ ls \<noteq> []" "last_frame_ok l ls"
    and "\<forall>f \<in> set fs. Frame_ok v (ph_PacketNumber hdr) (ph_PacketNumberLen hdr) l f"
  shows "\<exists>bs. writeFrames parseIP now v (fs @ ls) = Inr bs \<and>
    (\<forall>open k data. open data (ph_PacketNumber hdr) hdrBytes = Inr (replicate k 0 @ bs, l) \<longrightarrow>
       Unpack open v hdrBytes hdr data
         = Inr \<lparr>up_encryptionLevel = l, up_frames = map (Frame_seen now) fs @ ls\<rparr>)"
proof -
  let ?pn = "ph_PacketNumber hdr" and ?n = "ph_PacketNumberLen hdr"
  obtain b where b: "writeFrames parseIP now v fs = Inr b" "\<And>r. unpackFrames v ?pn ?n l (b @ r)
      = wbind (unpackFrames v ?pn ?n l r) (\<lambda>gs. Inr (map (Frame_seen now) fs @ gs))"
    using unpack_written [OF assms(1,4)] by blast
  obtain c where c: "writeFrames parseIP now v ls = Inr c" "unpackFrames v ?pn ?n l c = Inr ls"
    using unpack_last [OF assms(3)] by blast
  have "b @ c \<noteq> []"
    using b(2) [of "[]"] c(2) assms(2) by (auto simp: unpack_Nil)
  then show ?thesis
    using b c by (auto simp: writeFrames_append Unpack_def unpack_padding)
qed

theorem Unpack_written_witness:
  "\<exists>bs. writeFrames parseDotted 0 Version39 [FWindowUpdate \<lparr>wu_StreamID = 5, wu_ByteOffset = 9\<rparr>] = Inr bs \<and>
    Unpack (\<lambda>data pn hdr. Inr (data, EncryptionForwardSecure)) Version39 [] PublicHeader_zero (0 # bs)
      = Inr \<lparr>up_encryptionLevel = EncryptionForwardSecure,
             up_frames = [FWindowUpdate \<lparr>wu_StreamID = 5, wu_ByteOffset = 9\<rparr>]\<rparr>"
proof -
  let ?f = "FWindowUpdate \<lparr>wu_StreamID = 5, wu_ByteOffset = 9\<rparr>"
  obtain bs where w: "writeFrames parseDotted 0 Version39 [?f] = Inr bs"
    and u: "\<forall>open k data. open data (ph_PacketNumber PublicHeader_zero) []
        = Inr (replicate k 0 @ bs, EncryptionForwardSecure) \<longrightarrow>
       Unpack open Version39 [] PublicHeader_zero data
         = Inr \<lparr>up_encryptionLevel = EncryptionForwardSecure, up_frames = [?f]\<rparr>"
    using Unpack_written [OF parses_ipv4_parseDotted, of "[?f]" "[]" EncryptionForwardSecure
        Version39 PublicHeader_zero 0 "[]"] by (auto simp: last_frame_ok_def)
  have "Unpack (\<lambda>data pn hdr. Inr (data, EncryptionForwardSecure)) Version39 [] PublicHeader_zero (0 # bs)
      = Inr \<lparr>up_encryptionLevel = EncryptionForwardSecure, up_frames = [?f]\<rparr>"
    by (rule u [rule_format, where k = 1]) simp
  with w show ?thesis by blast
qed

lemma unpackFrames_unencrypted:
  assumes "unpackFrames v pn n l r = Inr fs" "l \<le> EncryptionUnencrypted" "FStream f \<in> set fs"
  shows "sf_StreamID f = 1"
  using assms
proof (induction v pn n l r arbitrary: fs rule: unpackFrames.induct)
  case (1 v pn n l r)
  show ?case
  proof (cases r)
    case Nil
    then show ?thesis using 1(3,5) by (simp add: unpack_Nil)
  next
    case (Cons t r')
    show ?thesis
    proof (cases "t = 0")
      case True
      then have "unpackFrames v pn n l r' = Inr fs"
        using 1(3) Cons by (subst (asm) unpackFrames.simps) simp
      then show ?thesis using 1(1) [OF Cons True] 1(4,5) by blast
    next
      case False
      then obtain g r'' gs where g: "parseFrame v pn n l t r = Inr (g, r'')"
        "unpackFrames v pn n l r'' = Inr gs" "fs = g # gs"
        using 1(3) Cons
        by (subst (asm) unpackFrames.simps) (auto simp: wbind_eq_Inr split: sum.splits)
      show ?thesis
      proof (cases "FStream f = g")
        case True
        then show ?thesis using g(1) 1(4)
          by (auto simp: parseFrame_def asFrame_Inr checkUnencrypted_Inr split: if_splits)
      next
        case False
        then show ?thesis using 1(2) [OF Cons \<open>t \<noteq> 0\<close> g(1) refl g(2) 1(4)] 1(5) g(3) by auto
      qed
    qed
  qed
qed

text \<open>
  C39: No unencrypted application data.  Whatever the payload of a packet contains,
  if \<open>Unpack\<close> accepts a packet that was not encrypted, all its STREAM frames belong
  to the crypto stream 1.
\<close>

theorem Unpack_unencrypted:
  assumes "Unpack open v hdrBytes hdr data = Inr p" "up_encryptionLevel p \<le> EncryptionUnencrypted"
    and "FStream f \<in> set (up_frames p)"
  shows "sf_StreamID f = 1"
  using assms unpackFrames_unencrypted
  by (auto simp: Unpack_def wbind_eq_Inr split: sum.splits if_splits)

theorem Unpack_unencrypted_witness:
  "\<exists>p f. Unpack (\<lambda>data pn hdr. Inr (data, EncryptionUnencrypted)) Version39 [] PublicHeader_zero
      [0xa0, 1, 0, 1, 0x2a] = Inr p \<and> FStream f \<in> set (up_frames p) \<and> sf_StreamID f = 1"
proof -
  let ?f = "\<lparr>sf_StreamID = 1, sf_FinBit = False, sf_DataLenPresent = True, sf_Offset = 0,
    sf_Data = [0x2a]\<rparr>"
  let ?p = "\<lparr>up_encryptionLevel = EncryptionUnencrypted, up_frames = [FStream ?f]\<rparr>"
  have u: "Unpack (\<lambda>data pn hdr. Inr (data, EncryptionUnencrypted)) Version39 [] PublicHeader_zero
      [0xa0, 1, 0, 1, 0x2a] = Inr ?p"
    by code_simp
  have "sf_StreamID ?f = 1"
    by (rule Unpack_unencrypted [OF u]) simp_all
  with u show ?thesis by auto
qed

end
