(* ===== verification/SentPackets.thy ===== *)
theory SentPackets
  imports Congestion Unpacker
begin

text \<open>
  Sent packets (\<open>ackhandler/packet.go\<close>), which frames are worth retransmitting
  (\<open>retransmittable.go\<close>), the manager of STOP_WAITING frames
  (\<open>stop_waiting_manager.go\<close>), and the merge of the packets in flight with the ranges
  of an ACK or CLOSE_PATH frame, which \<open>sent_packet_handler.go\<close> contains twice.  The
  list of packets is the generated linked list \<open>PacketList\<close>, front first.
\<close>

section \<open>Packets and frames\<close>

record Packet =
  pk_PacketNumber :: PacketNumber
  pk_Frames :: "Frame list"
  pk_Length :: ByteCount
  pk_EncryptionLevel :: EncryptionLevel
  pk_SendTime :: time

fun IsFrameRetransmittable :: "Frame \<Rightarrow> bool" where
  "IsFrameRetransmittable (FStopWaiting _) = False"
| "IsFrameRetransmittable (FAck _) = False"
| "IsFrameRetransmittable _ = True"

fun stripNonRetransmittableFrames :: "Frame list \<Rightarrow> Frame list" where
  "stripNonRetransmittableFrames [] = []"
| "stripNonRetransmittableFrames (f # fs) =
     (if IsFrameRetransmittable f then f # stripNonRetransmittableFrames fs
      else stripNonRetransmittableFrames fs)"

fun HasRetransmittableFrames :: "Frame list \<Rightarrow> bool" where
  "HasRetransmittableFrames [] = False"
| "HasRetransmittableFrames (f # fs) = (if IsFrameRetransmittable f then True else HasRetransmittableFrames fs)"

fun framesForRetransmission :: "Frame list \<Rightarrow> Frame list" where
  "framesForRetransmission [] = []"
| "framesForRetransmission (FAck _ # fs) = framesForRetransmission fs"
| "framesForRetransmission (FStopWaiting _ # fs) = framesForRetransmission fs"
| "framesForRetransmission (f # fs) = f # framesForRetransmission fs"

definition GetFramesForRetransmission :: "Packet \<Rightarrow> Frame list" where
  "GetFramesForRetransmission p = framesForRetransmission (pk_Frames p)"

fun instigatesRetransmission :: "Frame \<Rightarrow> bool" where
  "instigatesRetransmission (FStream _) = True"
| "instigatesRetransmission (FRstStream _) = True"
| "instigatesRetransmission (FWindowUpdate _) = True"
| "instigatesRetransmission (FBlocked _) = True"
| "instigatesRetransmission (FPing _) = True"
| "instigatesRetransmission (FGoaway _) = True"
| "instigatesRetransmission (FAddAddress _) = True"
| "instigatesRetransmission (FPaths _) = True"
| "instigatesRetransmission _ = False"

definition IsRetransmittable :: "Packet \<Rightarrow> bool" where
  "IsRetransmittable p = list_ex instigatesRetransmission (pk_Frames p)"

lemma strip_filter: "stripNonRetransmittableFrames fs = filter IsFrameRetransmittable fs"
  by (induction fs) auto

lemma forRetransmission_filter: "framesForRetransmission fs = filter IsFrameRetransmittable fs"
  by (induction fs rule: framesForRetransmission.induct) auto

section \<open>STOP_WAITING frames\<close>

record stopWaitingManager =
  sw_largestLeastUnackedSent :: PacketNumber
  sw_nextLeastUnacked :: PacketNumber
  sw_lastStopWaitingFrame :: "StopWaitingFrame option"

definition newStopWaitingManager :: stopWaitingManager where
  "newStopWaitingManager =
     \<lparr>sw_largestLeastUnackedSent = 0, sw_nextLeastUnacked = 0, sw_lastStopWaitingFrame = None\<rparr>"

definition stopWaitingFor :: "PacketNumber \<Rightarrow> StopWaitingFrame" where
  "stopWaitingFor p = \<lparr>sw_LeastUnacked = p, sw_PacketNumberLen = 0, sw_PacketNumber = 0\<rparr>"

definition swm_GetStopWaitingFrame ::
    "bool \<Rightarrow> stopWaitingManager \<Rightarrow> stopWaitingManager \<times> StopWaitingFrame option" where
  "swm_GetStopWaitingFrame force s =
     (if sw_nextLeastUnacked s \<le> sw_largestLeastUnackedSent s
      then if force
           then let s' = (if sw_lastStopWaitingFrame s = None \<and> sw_largestLeastUnackedSent s > 0
                          then s\<lparr>sw_lastStopWaitingFrame := Some (stopWaitingFor (sw_nextLeastUnacked s))\<rparr>
                          else s)
                in (s', sw_lastStopWaitingFrame s')
           else (s, None)
      else let swf = stopWaitingFor (sw_nextLeastUnacked s)
           in (s\<lparr>sw_largestLeastUnackedSent := sw_nextLeastUnacked s, sw_lastStopWaitingFrame := Some swf\<rparr>,
               Some swf))"

definition swm_ReceivedAck :: "AckFrame \<Rightarrow> stopWaitingManager \<Rightarrow> stopWaitingManager" where
  "swm_ReceivedAck ack s =
     (if af_LargestAcked ack \<ge> sw_nextLeastUnacked s
      then s\<lparr>sw_nextLeastUnacked := af_LargestAcked ack + 1\<rparr> else s)"

definition QueuedRetransmissionForPacketNumber :: "PacketNumber \<Rightarrow> stopWaitingManager \<Rightarrow> stopWaitingManager" where
  "QueuedRetransmissionForPacketNumber p s =
     (if p \<ge> sw_nextLeastUnacked s then s\<lparr>sw_nextLeastUnacked := p + 1\<rparr> else s)"

section \<open>Newly acknowledged packets\<close>

text \<open>
  The inner loop moves on to the first range, counted from the lowest, that does not end
  below the packet.
\<close>

function advanceRange :: "AckRange list \<Rightarrow> PacketNumber \<Rightarrow> nat \<Rightarrow> nat" where
  "advanceRange ackRanges packetNumber ackRangeIndex =
     (if packetNumber > Last (ackRanges ! (length ackRanges - 1 - ackRangeIndex)) \<and>
         ackRangeIndex < length ackRanges - 1
      then advanceRange ackRanges packetNumber (ackRangeIndex + 1)
      else ackRangeIndex)"
  by auto
termination by (relation "measure (\<lambda>(rs, p, i). length rs - i)") auto

declare advanceRange.simps [simp del]

fun newlyAckedFrom ::
    "string \<Rightarrow> PacketNumber \<Rightarrow> PacketNumber \<Rightarrow> AckRange list \<Rightarrow> nat \<Rightarrow> Packet list \<Rightarrow> Packet list result" where
  "newlyAckedFrom bug largestAcked lowestAcked ackRanges ackRangeIndex [] = Inr []"
| "newlyAckedFrom bug largestAcked lowestAcked ackRanges ackRangeIndex (packet # ps) =
     (if pk_PacketNumber packet < lowestAcked
      then newlyAckedFrom bug largestAcked lowestAcked ackRanges ackRangeIndex ps
      else if pk_PacketNumber packet > largestAcked then Inr []
      else if hasMissingRanges ackRanges
      then let i = advanceRange ackRanges (pk_PacketNumber packet) ackRangeIndex;
               ackRange = ackRanges ! (length ackRanges - 1 - i)
           in if pk_PacketNumber packet \<ge> First ackRange
              then if pk_PacketNumber packet > Last ackRange then Inl (GoError bug)
                   else wbind (newlyAckedFrom bug largestAcked lowestAcked ackRanges i ps)
                          (\<lambda>acked. Inr (packet # acked))
              else newlyAckedFrom bug largestAcked lowestAcked ackRanges i ps
      else wbind (newlyAckedFrom bug largestAcked lowestAcked ackRanges ackRangeIndex ps)
             (\<lambda>acked. Inr (packet # acked)))"

definition sorted_packets :: "Packet list \<Rightarrow> bool" where
  "sorted_packets ps \<longleftrightarrow> sorted_wrt (\<lambda>p q. pk_PacketNumber p < pk_PacketNumber q) ps"

text \<open>The ranges as a frame that was accepted or built by the receiver has them.\<close>

definition ack_ok :: "PacketNumber \<Rightarrow> PacketNumber \<Rightarrow> AckRange list \<Rightarrow> bool" where
  "ack_ok lg lo rs \<longleftrightarrow> rs \<noteq> [] \<longrightarrow> wf_ranges rs \<and> Last (hd rs) = lg \<and> First (last rs) = lo"

lemma wf_ranges_nth_mono:
  assumes "wf_ranges rs" "i < j" "j < length rs"
  shows "Last (rs ! j) < First (rs ! i)"
proof -
  have "unat (Last (rs ! j)) + 1 < unat (First (rs ! i))"
    using assms unfolding wf_ranges_def by (auto intro: sorted_wrt_nth_less)
  then show ?thesis by (simp add: word_less_nat_alt)
qed

lemma advanceRange_spec:
  assumes "i < length rs" "\<forall>j<i. Last (rs ! (length rs - 1 - j)) < p"
  shows "i \<le> advanceRange rs p i \<and> advanceRange rs p i < length rs \<and>
     (\<forall>j<advanceRange rs p i. Last (rs ! (length rs - 1 - j)) < p) \<and>
     (p \<le> Last (rs ! (length rs - 1 - advanceRange rs p i)) \<or> advanceRange rs p i = length rs - 1)"
  using assms
proof (induction rs p i rule: advanceRange.induct)
  case (1 rs p i)
  show ?case
  proof (cases "Last (rs ! (length rs - 1 - i)) < p \<and> i < length rs - 1")
    case True
    then have "\<forall>j<i + 1. Last (rs ! (length rs - 1 - j)) < p" using 1(3) by (auto simp: less_Suc_eq)
    moreover have "i + 1 < length rs" using True by linarith
    ultimately have "i + 1 \<le> advanceRange rs p (i + 1) \<and> advanceRange rs p (i + 1) < length rs \<and>
       (\<forall>j<advanceRange rs p (i + 1). Last (rs ! (length rs - 1 - j)) < p) \<and>
       (p \<le> Last (rs ! (length rs - 1 - advanceRange rs p (i + 1))) \<or> advanceRange rs p (i + 1) = length rs - 1)"
      using 1(1) True by blast
    moreover have "advanceRange rs p i = advanceRange rs p (i + 1)" using True by (simp add: advanceRange.simps [of rs p i])
    ultimately show ?thesis by auto
  next
    case False
    then show ?thesis using 1(2,3) by (auto simp: advanceRange.simps [of rs p i] not_less)
  qed
qed

text \<open>The range found is the only one that can contain the packet.\<close>

lemma advanceRange_contains:
  assumes "wf_ranges rs" "i < length rs" "\<forall>j<i. Last (rs ! (length rs - 1 - j)) < p" "p \<le> Last (hd rs)"
  defines "r \<equiv> rs ! (length rs - 1 - advanceRange rs p i)"
  shows "p \<le> Last r" "(\<exists>q\<in>set rs. First q \<le> p \<and> p \<le> Last q) \<longleftrightarrow> First r \<le> p"
proof -
  let ?k = "advanceRange rs p i"
  have k: "?k < length rs" "\<forall>j<?k. Last (rs ! (length rs - 1 - j)) < p"
    "p \<le> Last r \<or> ?k = length rs - 1"
    using advanceRange_spec [OF assms(2,3)] by (auto simp: r_def)
  show le: "p \<le> Last r"
  proof (cases "?k = length rs - 1")
    case True
    then have "r = hd rs" using assms(2) by (cases rs) (auto simp: r_def)
    then show ?thesis using assms(4) by simp
  qed (use k(3) in auto)
  have r: "r \<in> set rs" using k(1) by (auto simp: r_def)
  show "(\<exists>q\<in>set rs. First q \<le> p \<and> p \<le> Last q) \<longleftrightarrow> First r \<le> p"
  proof
    assume "\<exists>q\<in>set rs. First q \<le> p \<and> p \<le> Last q"
    then obtain n where n: "n < length rs" "First (rs ! n) \<le> p" "p \<le> Last (rs ! n)"
      by (auto simp: in_set_conv_nth)
    define m where "m = length rs - 1 - ?k"
    have m: "m < length rs" "r = rs ! m" using k(1) by (auto simp: m_def r_def)
    consider "n < m" | "n = m" | "m < n" by linarith
    then show "First r \<le> p"
    proof cases
      case 1
      then show ?thesis using wf_ranges_nth_mono [OF assms(1) 1 m(1)] n(2) le m(2) by simp
    next
      case 3
      then have "length rs - 1 - n < ?k" using n(1) k(1) by (simp add: m_def)
      moreover have "length rs - 1 - (length rs - 1 - n) = n" using n(1) by simp
      ultimately show ?thesis using k(2) n(3) by (metis leD)
    qed (use n m in simp)
  qed (use r le in blast)
qed

lemma newlyAckedFrom_filter:
  assumes "ack_ok lg lo rs" "sorted_packets ps" "rs \<noteq> [] \<Longrightarrow> i < length rs"
    "\<forall>p\<in>set ps. \<forall>j<i. Last (rs ! (length rs - 1 - j)) < pk_PacketNumber p"
  shows "newlyAckedFrom bug lg lo rs i ps = Inr (filter (\<lambda>p. acksPacket lg lo rs (pk_PacketNumber p)) ps)"
  using assms(2-4)
proof (induction ps arbitrary: i)
  case (Cons p ps)
  let ?n = "pk_PacketNumber p"
  have s: "sorted_packets ps" "\<forall>q\<in>set ps. ?n < pk_PacketNumber q"
    using Cons.prems(1) by (auto simp: sorted_packets_def)
  note IH = Cons.IH [OF s(1)]
  show ?case
  proof (cases "lo \<le> ?n \<and> ?n \<le> lg")
    case out: False
    then have f: "\<not> acksPacket lg lo rs ?n" by (auto simp: acksPacket_def)
    show ?thesis
    proof (cases "?n < lo")
      case True
      then show ?thesis using f IH [of i] Cons.prems(2,3) by simp
    next
      case False
      then have "\<forall>q\<in>set ps. lg < pk_PacketNumber q" using out s(2) by fastforce
      then have "filter (\<lambda>p. acksPacket lg lo rs (pk_PacketNumber p)) ps = []"
        by (auto simp: filter_empty_conv acksPacket_def)
      moreover have "lg < ?n" using out False by auto
      ultimately show ?thesis using f False by simp
    qed
  next
    case inside: True
    then have nl: "\<not> ?n < lo" "\<not> ?n > lg" by auto
    show ?thesis
    proof (cases "rs = []")
      case True
      then show ?thesis using inside IH [of i] Cons.prems(2,3) nl
        by (simp add: hasMissingRanges_def acksPacket_def)
    next
      case False
      let ?k = "advanceRange rs ?n i" and ?r = "rs ! (length rs - 1 - advanceRange rs ?n i)"
      have wf: "wf_ranges rs" "?n \<le> Last (hd rs)" using assms(1) False inside by (auto simp: ack_ok_def)
      have i: "i < length rs" "\<forall>j<i. Last (rs ! (length rs - 1 - j)) < ?n" using Cons.prems(2,3) False by auto
      note c = advanceRange_contains [OF wf(1) i wf(2)]
      note k = advanceRange_spec [OF i]
      have "\<forall>q\<in>set ps. \<forall>j<?k. Last (rs ! (length rs - 1 - j)) < pk_PacketNumber q"
        using k s(2) by (meson less_trans)
      then have e: "newlyAckedFrom bug lg lo rs ?k ps =
          Inr (filter (\<lambda>p. acksPacket lg lo rs (pk_PacketNumber p)) ps)"
        using IH [of ?k] k by simp
      have a: "acksPacket lg lo rs ?n \<longleftrightarrow> First ?r \<le> ?n" using False inside c(2) by (simp add: acksPacket_ranges)
      show ?thesis using nl False a leD [OF c(1)] e by (simp add: hasMissingRanges_def Let_def)
    qed
  qed
qed simp

end
