(* ===== verification/SentHandler.thy ===== *)
theory SentHandler
  imports SentPackets "HOL-Library.Multiset"
begin

text \<open>
  The sent packet handler of a path (\<open>ackhandler/sent_packet_handler.go\<close>): packets in
  flight, acknowledgements, loss detection, tail loss probes and retransmission
  timeouts.  The congestion controller is an argument \<open>alg\<close>, the method table of the
  interface \<open>SendAlgorithm\<close>, over the controller state that the handler carries; the
  time-out callback of the path is an argument too.  One event is one instant: the
  clock is read once per operation and passed as \<open>now\<close>.
\<close>

section \<open>State\<close>

abbreviation (input) defaultRTOTimeout :: duration where "defaultRTOTimeout \<equiv> 500 * Millisecond"
abbreviation (input) minRTOTimeout :: duration where "minRTOTimeout \<equiv> 200 * Millisecond"
abbreviation (input) maxRTOTimeout :: duration where "maxRTOTimeout \<equiv> 60 * Second"
abbreviation (input) maxTailLossProbes :: u32 where "maxTailLossProbes \<equiv> 2"
abbreviation (input) minRetransmissionTime :: duration where "minRetransmissionTime \<equiv> 200 * Millisecond"
abbreviation (input) minTailLossProbeTimeout :: duration where "minTailLossProbeTimeout \<equiv> 10 * Millisecond"
abbreviation (input) timeReorderingFraction :: rat where "timeReorderingFraction \<equiv> 1 / 8"

abbreviation (input) ErrDuplicateOrOutOfOrderAck :: go_error where
  "ErrDuplicateOrOutOfOrderAck \<equiv> GoError ''SentPacketHandler: Duplicate or out-of-order ACK''"
abbreviation (input) ErrTooManyTrackedSentPackets :: go_error where
  "ErrTooManyTrackedSentPackets \<equiv> GoError ''Too many outstanding non-acked and non-retransmitted packets''"
abbreviation (input) ErrAckForSkippedPacket :: go_error where
  "ErrAckForSkippedPacket \<equiv> QuicError InvalidAckData ''Received an ACK for a skipped packet number''"
abbreviation (input) errAckForUnsentPacket :: go_error where
  "errAckForUnsentPacket \<equiv> QuicError InvalidAckData ''Received ACK for an unsent package''"
abbreviation (input) errPacketNumberNotIncreasing :: go_error where
  "errPacketNumberNotIncreasing \<equiv> GoError ''Already sent a packet with a higher packet number''"

record 'c sentPacketHandler =
  sph_lastSentPacketNumber :: PacketNumber
  sph_skippedPackets :: "PacketNumber list"
  sph_pathID :: PathID
  sph_numNonRetransmittablePackets :: int
  sph_LargestAcked :: PacketNumber
  sph_largestReceivedPacketWithAck :: PacketNumber
  sph_packetHistory :: "Packet list"
  sph_stopWaitingManager :: stopWaitingManager
  sph_retransmissionQueue :: "Packet list"
  sph_bytesInFlight :: ByteCount
  sph_congestion :: 'c
  sph_rttStats :: RTTStats
  sph_bdwStats :: BDWStats
  sph_rtoCount :: u32
  sph_tlpCount :: u32
  sph_lossTime :: time
  sph_lastSentTime :: time
  sph_alarm :: time
  sph_packets :: u64
  sph_retransmissions :: u64
  sph_losses :: u64

definition NewSentPacketHandler ::
    "PathID \<Rightarrow> RTTStats \<Rightarrow> BDWStats \<Rightarrow> 'c \<Rightarrow> 'c sentPacketHandler" where
  "NewSentPacketHandler pathID rttStats bdwStats cong =
     \<lparr>sph_lastSentPacketNumber = 0, sph_skippedPackets = [], sph_pathID = pathID,
      sph_numNonRetransmittablePackets = 0, sph_LargestAcked = 0,
      sph_largestReceivedPacketWithAck = 0, sph_packetHistory = [],
      sph_stopWaitingManager = newStopWaitingManager, sph_retransmissionQueue = [],
      sph_bytesInFlight = 0, sph_congestion = cong, sph_rttStats = rttStats,
      sph_bdwStats = bdwStats, sph_rtoCount = 0, sph_tlpCount = 0, sph_lossTime = 0,
      sph_lastSentTime = 0, sph_alarm = 0, sph_packets = 0, sph_retransmissions = 0, sph_losses = 0\<rparr>"

definition sph_GetStatistics :: "'c sentPacketHandler \<Rightarrow> u64 \<times> u64 \<times> u64" where
  "sph_GetStatistics h = (sph_packets h, sph_retransmissions h, sph_losses h)"

definition largestInOrderAcked :: "'c sentPacketHandler \<Rightarrow> PacketNumber" where
  "largestInOrderAcked h =
     (case sph_packetHistory h of f # _ \<Rightarrow> pk_PacketNumber f - 1 | [] \<Rightarrow> sph_LargestAcked h)"

definition ShouldSendRetransmittablePacket :: "'c sentPacketHandler \<Rightarrow> bool" where
  "ShouldSendRetransmittablePacket h \<longleftrightarrow> sph_numNonRetransmittablePackets h \<ge> MaxNonRetransmittablePackets"

section \<open>The alarm\<close>

definition hasOutstandingRetransmittablePacket :: "'c sentPacketHandler \<Rightarrow> bool" where
  "hasOutstandingRetransmittablePacket h = list_ex IsRetransmittable (sph_packetHistory h)"

definition computeRTOTimeout :: "'c SendAlgorithm \<Rightarrow> 'c sentPacketHandler \<Rightarrow> duration" where
  "computeRTOTimeout alg h =
     (let rto = alg_RetransmissionDelay alg (sph_rttStats h) (sph_congestion h);
          rto = (if rto = 0 then defaultRTOTimeout else rto);
          rto = MaxDuration rto minRTOTimeout;
          rto = (if sph_rtoCount h \<ge> 64 then 0 else wrapInt64 (rto * 2 ^ unat (sph_rtoCount h)))
      in MinDuration rto maxRTOTimeout)"

definition hasMultipleOutstandingRetransmittablePackets :: "'c sentPacketHandler \<Rightarrow> bool" where
  "hasMultipleOutstandingRetransmittablePackets h \<longleftrightarrow>
     (case sph_packetHistory h of _ # _ # _ \<Rightarrow> True | _ \<Rightarrow> False)"

definition computeTLPTimeout :: "'c SendAlgorithm \<Rightarrow> 'c sentPacketHandler \<Rightarrow> duration" where
  "computeTLPTimeout alg h =
     (let rtt = alg_SmoothedRTT alg (sph_rttStats h) (sph_congestion h)
      in if hasMultipleOutstandingRetransmittablePackets h
         then MaxDuration (2 * rtt) (go_quot (rtt * 3) 2 + go_quot minRetransmissionTime 2)
         else MaxDuration (2 * rtt) minTailLossProbeTimeout)"

definition updateLossDetectionAlarm :: "'c SendAlgorithm \<Rightarrow> 'c sentPacketHandler \<Rightarrow> 'c sentPacketHandler" where
  "updateLossDetectionAlarm alg h =
     h\<lparr>sph_alarm :=
         (if sph_packetHistory h = [] then 0
          else if sph_lossTime h \<noteq> 0 then sph_lossTime h
          else if SmoothedRTT (sph_rttStats h) \<noteq> 0 \<and> sph_tlpCount h < maxTailLossProbes
          then sph_lastSentTime h + computeTLPTimeout alg h
          else sph_lastSentTime h + MaxDuration (computeRTOTimeout alg h) minRetransmissionTime)\<rparr>"

definition sph_GetAlarmTimeout :: "'c sentPacketHandler \<Rightarrow> time" where
  "sph_GetAlarmTimeout h = sph_alarm h"

section \<open>Sending\<close>

lemma unat_next: "(p::u64) < q \<Longrightarrow> unat (p + 1) = unat p + 1"
  using unsigned_less [of q, where 'a = nat] by (simp add: word_less_nat_alt unat_word_ariths)

function trackSkipped :: "PacketNumber \<Rightarrow> PacketNumber \<Rightarrow> PacketNumber list \<Rightarrow> PacketNumber list" where
  "trackSkipped p packetNumber skippedPackets =
     (if p < packetNumber
      then let skippedPackets = skippedPackets @ [p]
           in trackSkipped (p + 1) packetNumber
                (if length skippedPackets > MaxTrackedSkippedPackets then tl skippedPackets else skippedPackets)
      else skippedPackets)"
  by auto
termination
  by (relation "measure (\<lambda>(p, q, _). unat q - unat p)") (auto simp: word_less_nat_alt unat_next)

declare trackSkipped.simps [simp del]

definition sph_recordSent :: "Packet \<Rightarrow> 'c sentPacketHandler \<Rightarrow> 'c sentPacketHandler" where
  "sph_recordSent packet h =
     (if pk_Frames packet \<noteq> []
      then h\<lparr>sph_bytesInFlight := sph_bytesInFlight h + pk_Length packet,
             sph_packetHistory := sph_packetHistory h @ [packet],
             sph_numNonRetransmittablePackets := 0\<rparr>
      else h\<lparr>sph_numNonRetransmittablePackets := sph_numNonRetransmittablePackets h + 1\<rparr>)"

text \<open>\<open>SentPacket\<close> changes the packet it gets; the result has the changed packet.\<close>

definition SentPacket ::
    "'c SendAlgorithm \<Rightarrow> Packet \<Rightarrow> time \<Rightarrow> 'c sentPacketHandler \<Rightarrow>
     'c sentPacketHandler \<times> Packet \<times> go_error option" where
  "SentPacket alg packet now h =
     (if pk_PacketNumber packet \<le> sph_lastSentPacketNumber h
      then (h, packet, Some errPacketNumberNotIncreasing)
      else if length (sph_retransmissionQueue h) + length (sph_packetHistory h) + 1 > MaxTrackedSentPackets
      then (h, packet, Some ErrTooManyTrackedSentPackets)
      else
        let h = h\<lparr>sph_skippedPackets := trackSkipped (sph_lastSentPacketNumber h + 1)
                    (pk_PacketNumber packet) (sph_skippedPackets h),
                  sph_lastSentPacketNumber := pk_PacketNumber packet,
                  sph_packets := sph_packets h + 1, sph_lastSentTime := now\<rparr>;
            packet = packet\<lparr>pk_Frames := stripNonRetransmittableFrames (pk_Frames packet)\<rparr>;
            packet = (if pk_Frames packet \<noteq> [] then packet\<lparr>pk_SendTime := now\<rparr> else packet);
            h = sph_recordSent packet h;
            h = h\<lparr>sph_congestion := fst (alg_OnPacketSent alg now (sph_bytesInFlight h)
                    (pk_PacketNumber packet) (pk_Length packet) (pk_Frames packet \<noteq> []) (sph_congestion h))\<rparr>
        in (updateLossDetectionAlarm alg h, packet, None))"

definition SendingAllowed :: "'c SendAlgorithm \<Rightarrow> 'c sentPacketHandler \<Rightarrow> bool" where
  "SendingAllowed alg h =
     (let congestionLimited = sph_bytesInFlight h > alg_GetCongestionWindow alg (sph_congestion h);
          maxTrackedLimited =
            length (sph_retransmissionQueue h) + length (sph_packetHistory h) \<ge> MaxTrackedSentPackets;
          haveRetransmissions = length (sph_retransmissionQueue h) > 0
      in \<not> maxTrackedLimited \<and> (\<not> congestionLimited \<or> haveRetransmissions))"

section \<open>Acknowledgements and losses\<close>

definition determineNewlyAckedPackets :: "AckFrame \<Rightarrow> 'c sentPacketHandler \<Rightarrow> Packet list result" where
  "determineNewlyAckedPackets ackFrame h =
     newlyAckedFrom
       ''BUG: ackhandler would have acked wrong packet 0x%x, while evaluating range 0x%x -> 0x%x''
       (af_LargestAcked ackFrame) (af_LowestAcked ackFrame) (af_AckRanges ackFrame) 0 (sph_packetHistory h)"

definition determineNewlyAckedPacketsClosePath ::
    "ClosePathFrame \<Rightarrow> 'c sentPacketHandler \<Rightarrow> Packet list result" where
  "determineNewlyAckedPacketsClosePath f h =
     newlyAckedFrom
       ''BUG: ackhandler would have acked wrong packet 0x%x, while evaluating range 0x%x -> 0x%x with ClosePath frame''
       (cp_LargestAcked f) (cp_LowestAcked f) (cp_AckRanges f) 0 (sph_packetHistory h)"

fun findSent :: "PacketNumber \<Rightarrow> Packet list \<Rightarrow> Packet option" where
  "findSent largestAcked [] = None"
| "findSent largestAcked (packet # ps) =
     (if pk_PacketNumber packet = largestAcked then Some packet
      else if pk_PacketNumber packet > largestAcked then None
      else findSent largestAcked ps)"

definition maybeUpdateRTT ::
    "PacketNumber \<Rightarrow> duration \<Rightarrow> time \<Rightarrow> time \<Rightarrow> 'c sentPacketHandler \<Rightarrow> 'c sentPacketHandler \<times> bool" where
  "maybeUpdateRTT largestAcked delayTime rcvTime now h =
     (case findSent largestAcked (sph_packetHistory h) of
        Some packet \<Rightarrow>
          (h\<lparr>sph_rttStats := UpdateRTT (timeSub rcvTime (pk_SendTime packet)) delayTime now (sph_rttStats h)\<rparr>, True)
      | None \<Rightarrow> (h, False))"

definition onPacketAcked :: "Packet \<Rightarrow> 'c sentPacketHandler \<Rightarrow> 'c sentPacketHandler" where
  "onPacketAcked p h =
     h\<lparr>sph_bytesInFlight := sph_bytesInFlight h - pk_Length p, sph_rtoCount := 0, sph_tlpCount := 0,
       sph_packetHistory := remove1 p (sph_packetHistory h)\<rparr>"

definition queuePacketForRetransmission :: "Packet \<Rightarrow> 'c sentPacketHandler \<Rightarrow> 'c sentPacketHandler" where
  "queuePacketForRetransmission p h =
     h\<lparr>sph_bytesInFlight := sph_bytesInFlight h - pk_Length p,
       sph_retransmissionQueue := sph_retransmissionQueue h @ [p],
       sph_packetHistory := remove1 p (sph_packetHistory h),
       sph_stopWaitingManager :=
         QueuedRetransmissionForPacketNumber (pk_PacketNumber p) (sph_stopWaitingManager h)\<rparr>"

definition ackPacket :: "'c SendAlgorithm \<Rightarrow> time \<Rightarrow> Packet \<Rightarrow> 'c sentPacketHandler \<Rightarrow> 'c sentPacketHandler" where
  "ackPacket alg now p h =
     (let h = onPacketAcked p h
      in h\<lparr>sph_congestion := alg_OnPacketAcked alg (sph_rttStats h) now (pk_PacketNumber p) (pk_Length p)
             (sph_bytesInFlight h) (sph_congestion h)\<rparr>)"

definition losePacket :: "'c SendAlgorithm \<Rightarrow> Packet \<Rightarrow> 'c sentPacketHandler \<Rightarrow> 'c sentPacketHandler" where
  "losePacket alg p h =
     (let h = queuePacketForRetransmission p h
      in h\<lparr>sph_congestion := alg_OnPacketLost alg (pk_PacketNumber p) (pk_Length p)
             (sph_bytesInFlight h) (sph_congestion h)\<rparr>)"

text \<open>The scan for lost packets: the loss time, the number of losses, the lost packets.\<close>

fun scanLost ::
    "time \<Rightarrow> duration \<Rightarrow> PacketNumber \<Rightarrow> time \<Rightarrow> u64 \<Rightarrow> Packet list \<Rightarrow> time \<times> u64 \<times> Packet list" where
  "scanLost now delayUntilLost largestAcked lossTime losses [] = (lossTime, losses, [])"
| "scanLost now delayUntilLost largestAcked lossTime losses (packet # ps) =
     (if pk_PacketNumber packet > largestAcked then (lossTime, losses, [])
      else let timeSinceSent = timeSub now (pk_SendTime packet)
           in if timeSinceSent > delayUntilLost
              then case scanLost now delayUntilLost largestAcked lossTime (losses + 1) ps of
                     (t, n, lost) \<Rightarrow> (t, n, packet # lost)
              else scanLost now delayUntilLost largestAcked
                     (if lossTime = 0 then now + (delayUntilLost - timeSinceSent) else lossTime) losses ps)"

definition delayUntilLost :: "RTTStats \<Rightarrow> duration" where
  "delayUntilLost r =
     truncInt (f64 ((1 + timeReorderingFraction) * f64 (of_int (MaxDuration (LatestRTT r) (SmoothedRTT r)))))"

definition detectLostPackets :: "'c SendAlgorithm \<Rightarrow> time \<Rightarrow> 'c sentPacketHandler \<Rightarrow> 'c sentPacketHandler" where
  "detectLostPackets alg now h =
     (case scanLost now (delayUntilLost (sph_rttStats h)) (sph_LargestAcked h) 0 (sph_losses h)
             (sph_packetHistory h) of
        (lossTime, losses, lostPackets) \<Rightarrow>
          fold (losePacket alg) lostPackets (h\<lparr>sph_lossTime := lossTime, sph_losses := losses\<rparr>))"

fun inflightUpTo :: "PacketNumber \<Rightarrow> Packet list \<Rightarrow> Packet list" where
  "inflightUpTo largestAcked [] = []"
| "inflightUpTo largestAcked (packet # ps) =
     (if pk_PacketNumber packet > largestAcked then [] else packet # inflightUpTo largestAcked ps)"

definition SetInflightAsLost :: "'c SendAlgorithm \<Rightarrow> 'c sentPacketHandler \<Rightarrow> 'c sentPacketHandler" where
  "SetInflightAsLost alg h =
     (let lostPackets = inflightUpTo (sph_LargestAcked h) (sph_packetHistory h)
      in fold (losePacket alg) lostPackets
           (h\<lparr>sph_losses := sph_losses h + word_of_nat (length lostPackets)\<rparr>))"

definition skippedPacketsAcked :: "AckFrame \<Rightarrow> 'c sentPacketHandler \<Rightarrow> bool" where
  "skippedPacketsAcked ackFrame h = list_ex (AckFrame_AcksPacket ackFrame) (sph_skippedPackets h)"

definition skippedPacketsAckedClosePath :: "ClosePathFrame \<Rightarrow> 'c sentPacketHandler \<Rightarrow> bool" where
  "skippedPacketsAckedClosePath f h = list_ex (ClosePathFrame_AcksPacket f) (sph_skippedPackets h)"

fun gcIndex :: "PacketNumber \<Rightarrow> nat \<Rightarrow> nat \<Rightarrow> PacketNumber list \<Rightarrow> nat" where
  "gcIndex lioa i deleteIndex [] = deleteIndex"
| "gcIndex lioa i deleteIndex (p # ps) = gcIndex lioa (i + 1) (if p \<le> lioa then i + 1 else deleteIndex) ps"

definition garbageCollectSkippedPackets :: "'c sentPacketHandler \<Rightarrow> 'c sentPacketHandler" where
  "garbageCollectSkippedPackets h =
     h\<lparr>sph_skippedPackets :=
         drop (gcIndex (largestInOrderAcked h) 0 0 (sph_skippedPackets h)) (sph_skippedPackets h)\<rparr>"

text \<open>The delay of the largest acknowledged packet, for the bandwidth statistics.\<close>

definition sentDelayOf :: "AckFrame \<Rightarrow> time \<Rightarrow> Packet list \<Rightarrow> duration option" where
  "sentDelayOf ackFrame rcvTime acked =
     fold (\<lambda>packet acc.
        if pk_PacketNumber packet = af_LargestAcked ackFrame
        then let sentDelay = timeSub rcvTime (pk_SendTime packet)
             in Some (if sentDelay > af_DelayTime ackFrame then sentDelay - af_DelayTime ackFrame else sentDelay)
        else acc) acked None"

definition updateBandwidth ::
    "ByteCount \<Rightarrow> duration option \<Rightarrow> 'c sentPacketHandler \<Rightarrow> 'c sentPacketHandler" where
  "updateBandwidth preInflight sentDelay h =
     (case sentDelay of
        Some d \<Rightarrow> h\<lparr>sph_bdwStats := UpdateBDW (preInflight - sph_bytesInFlight h) d (sph_bdwStats h)\<rparr>
      | None \<Rightarrow> h)"

text \<open>What \<open>ReceivedAck\<close> does after the checks.\<close>

definition processAck ::
    "'c SendAlgorithm \<Rightarrow> AckFrame \<Rightarrow> time \<Rightarrow> time \<Rightarrow> 'c sentPacketHandler \<Rightarrow>
     'c sentPacketHandler \<times> go_error option" where
  "processAck alg ackFrame rcvTime now h =
     (let (h, rttUpdated) = maybeUpdateRTT (af_LargestAcked ackFrame) (af_DelayTime ackFrame) rcvTime now h;
          h = (if rttUpdated
               then h\<lparr>sph_congestion := alg_MaybeExitSlowStart alg (sph_rttStats h) (sph_congestion h)\<rparr> else h)
      in case determineNewlyAckedPackets ackFrame h of
           Inl e \<Rightarrow> (h, Some e)
         | Inr ackedPackets \<Rightarrow>
             let h' = fold (ackPacket alg now) ackedPackets h;
                 h' = updateBandwidth (sph_bytesInFlight h) (sentDelayOf ackFrame rcvTime ackedPackets) h';
                 h' = detectLostPackets alg now h';
                 h' = updateLossDetectionAlarm alg h';
                 h' = garbageCollectSkippedPackets h'
             in (h'\<lparr>sph_stopWaitingManager := swm_ReceivedAck ackFrame (sph_stopWaitingManager h')\<rparr>, None))"

definition ReceivedAck ::
    "'c SendAlgorithm \<Rightarrow> AckFrame \<Rightarrow> PacketNumber \<Rightarrow> time \<Rightarrow> time \<Rightarrow> 'c sentPacketHandler \<Rightarrow>
     'c sentPacketHandler \<times> go_error option" where
  "ReceivedAck alg ackFrame withPacketNumber rcvTime now h =
     (if af_LargestAcked ackFrame > sph_lastSentPacketNumber h then (h, Some errAckForUnsentPacket)
      else if withPacketNumber \<le> sph_largestReceivedPacketWithAck h then (h, Some ErrDuplicateOrOutOfOrderAck)
      else
        let h = h\<lparr>sph_largestReceivedPacketWithAck := withPacketNumber\<rparr>
        in if af_LargestAcked ackFrame \<le> largestInOrderAcked h then (h, None)
           else
             let h = h\<lparr>sph_LargestAcked := af_LargestAcked ackFrame\<rparr>
             in if skippedPacketsAcked ackFrame h then (h, Some ErrAckForSkippedPacket)
                else processAck alg ackFrame rcvTime now h)"

definition ReceivedClosePath ::
    "'c SendAlgorithm \<Rightarrow> ClosePathFrame \<Rightarrow> PacketNumber \<Rightarrow> time \<Rightarrow> 'c sentPacketHandler \<Rightarrow>
     'c sentPacketHandler \<times> go_error option" where
  "ReceivedClosePath alg f withPacketNumber now h =
     (if cp_LargestAcked f > sph_lastSentPacketNumber h then (h, Some errAckForUnsentPacket)
      else if withPacketNumber \<le> sph_largestReceivedPacketWithAck h then (h, Some ErrDuplicateOrOutOfOrderAck)
      else
        let h = h\<lparr>sph_largestReceivedPacketWithAck := withPacketNumber\<rparr>
        in if skippedPacketsAckedClosePath f h then (h, Some ErrAckForSkippedPacket)
           else case determineNewlyAckedPacketsClosePath f h of
             Inl e \<Rightarrow> (h, Some e)
           | Inr ackedPackets \<Rightarrow>
               let h = fold (ackPacket alg now) ackedPackets h
               in (garbageCollectSkippedPackets (SetInflightAsLost alg h), None))"

section \<open>Time-outs and retransmissions\<close>

definition retransmitTLP :: "'c sentPacketHandler \<Rightarrow> 'c sentPacketHandler" where
  "retransmitTLP h =
     (if sph_packetHistory h = [] then h else queuePacketForRetransmission (last (sph_packetHistory h)) h)"

definition queueRTO :: "'c SendAlgorithm \<Rightarrow> Packet \<Rightarrow> 'c sentPacketHandler \<Rightarrow> 'c sentPacketHandler" where
  "queueRTO alg packet h =
     (let h = queuePacketForRetransmission packet h;
          h = h\<lparr>sph_losses := sph_losses h + 1\<rparr>
      in h\<lparr>sph_congestion := alg_OnPacketLost alg (pk_PacketNumber packet) (pk_Length packet)
             (sph_bytesInFlight h) (sph_congestion h)\<rparr>)"

definition retransmissionTimeout :: "'c SendAlgorithm \<Rightarrow> 'c sentPacketHandler \<Rightarrow> 'c sentPacketHandler" where
  "retransmissionTimeout alg h =
     h\<lparr>sph_congestion := alg_OnRetransmissionTimeout alg True (sph_congestion h)\<rparr>"

text \<open>The loop that empties the history: every turn removes its front.\<close>

function queueAll :: "'c SendAlgorithm \<Rightarrow> 'c sentPacketHandler \<Rightarrow> 'c sentPacketHandler" where
  "queueAll alg h =
     (case sph_packetHistory h of [] \<Rightarrow> h | p # _ \<Rightarrow> queueAll alg (queueRTO alg p h))"
  by auto
termination
  by (relation "measure (\<lambda>(_, h). length (sph_packetHistory h))")
    (auto simp: queueRTO_def queuePacketForRetransmission_def Let_def)

declare queueAll.simps [simp del]

definition retransmitAllPackets :: "'c SendAlgorithm \<Rightarrow> 'c sentPacketHandler \<Rightarrow> 'c sentPacketHandler" where
  "retransmitAllPackets alg h = retransmissionTimeout alg (queueAll alg h)"

definition retransmitOldestPacket :: "'c SendAlgorithm \<Rightarrow> 'c sentPacketHandler \<Rightarrow> 'c sentPacketHandler" where
  "retransmitOldestPacket alg h = (case sph_packetHistory h of p # _ \<Rightarrow> queueRTO alg p h | [] \<Rightarrow> h)"

definition retransmitOldestTwoPackets :: "'c SendAlgorithm \<Rightarrow> 'c sentPacketHandler \<Rightarrow> 'c sentPacketHandler" where
  "retransmitOldestTwoPackets alg h =
     retransmissionTimeout alg (retransmitOldestPacket alg (retransmitOldestPacket alg h))"

definition OnAlarm ::
    "'c SendAlgorithm \<Rightarrow> (time \<Rightarrow> bool) option \<Rightarrow> time \<Rightarrow> 'c sentPacketHandler \<Rightarrow> 'c sentPacketHandler" where
  "OnAlarm alg onRTOCallback now h =
     (if \<not> hasOutstandingRetransmittablePacket h then h\<lparr>sph_alarm := 0\<rparr>
      else updateLossDetectionAlarm alg
        (if sph_lossTime h \<noteq> 0 then detectLostPackets alg now h
         else if sph_tlpCount h < maxTailLossProbes
         then let h = retransmitTLP h in h\<lparr>sph_tlpCount := sph_tlpCount h + 1\<rparr>
         else let potentiallyFailed =
                    (case onRTOCallback of Some cb \<Rightarrow> cb (sph_lastSentTime h) | None \<Rightarrow> False);
                  h = (if potentiallyFailed then retransmitAllPackets alg h
                       else retransmitOldestTwoPackets alg h)
              in h\<lparr>sph_rtoCount := sph_rtoCount h + 1\<rparr>))"

definition DequeuePacketForRetransmission ::
    "'c sentPacketHandler \<Rightarrow> 'c sentPacketHandler \<times> Packet option" where
  "DequeuePacketForRetransmission h =
     (case sph_retransmissionQueue h of
        [] \<Rightarrow> (h, None)
      | p # ps \<Rightarrow> (h\<lparr>sph_retransmissionQueue := ps, sph_retransmissions := sph_retransmissions h + 1\<rparr>, Some p))"

definition GetLeastUnacked :: "'c sentPacketHandler \<Rightarrow> PacketNumber" where
  "GetLeastUnacked h = largestInOrderAcked h + 1"

definition GetStopWaitingFrame ::
    "bool \<Rightarrow> 'c sentPacketHandler \<Rightarrow> 'c sentPacketHandler \<times> StopWaitingFrame option" where
  "GetStopWaitingFrame force h =
     (case swm_GetStopWaitingFrame force (sph_stopWaitingManager h) of
        (s, f) \<Rightarrow> (h\<lparr>sph_stopWaitingManager := s\<rparr>, f))"

definition DuplicatePacket :: "Packet \<Rightarrow> 'c sentPacketHandler \<Rightarrow> 'c sentPacketHandler" where
  "DuplicatePacket packet h = h\<lparr>sph_retransmissionQueue := sph_retransmissionQueue h @ [packet]\<rparr>"

end
