(* ===== verification/SentInvariant.thy ===== *)
theory SentInvariant
  imports SentHandler
begin

text \<open>
  What the sent packet handler keeps.  A locale states the contract of the operations
  that take one packet out of the history, for an acknowledgement or a loss; the
  invariant, the equivalence of the range merge with \<open>AcksPacket\<close>, the conservation of
  packets by an ACK and the behaviour of the alarm rest on it.
\<close>

section \<open>The invariant\<close>

definition hist_inv :: "PacketNumber \<Rightarrow> PacketNumber list \<Rightarrow> Packet list \<Rightarrow> ByteCount \<Rightarrow> bool" where
  "hist_inv lastSent skipped hist bytes \<longleftrightarrow>
     sorted_packets hist \<and> bytes = sum_list (map pk_Length hist) \<and>
     (\<forall>p\<in>set hist. pk_PacketNumber p \<le> lastSent \<and> pk_Frames p \<noteq> [] \<and>
        list_all IsFrameRetransmittable (pk_Frames p)) \<and>
     sorted_wrt (<) skipped \<and> length skipped \<le> MaxTrackedSkippedPackets \<and>
     (\<forall>s\<in>set skipped. s < lastSent \<and> s \<notin> pk_PacketNumber ` set hist)"

definition sph_inv :: "'c sentPacketHandler \<Rightarrow> bool" where
  "sph_inv h = hist_inv (sph_lastSentPacketNumber h) (sph_skippedPackets h)
     (sph_packetHistory h) (sph_bytesInFlight h)"

lemma sorted_packets_distinct: "sorted_packets ps \<Longrightarrow> distinct ps"
  by (induction ps) (auto simp: sorted_packets_def)

lemma sorted_packets_filter: "sorted_packets ps \<Longrightarrow> sorted_packets (filter P ps)"
  by (simp add: sorted_packets_def sorted_wrt_filter)

lemma remove1_filter: "distinct xs \<Longrightarrow> remove1 x xs = filter (\<lambda>y. y \<noteq> x) xs"
  by (induction xs) (auto intro!: filter_True [symmetric])

lemma sum_list_remove1:
  fixes f :: "'a \<Rightarrow> 'b :: ab_group_add"
  shows "x \<in> set xs \<Longrightarrow> sum_list (map f (remove1 x xs)) = sum_list (map f xs) - f x"
  by (induction xs) auto

lemma hist_inv_remove1:
  assumes "hist_inv n sk hist b" "p \<in> set hist"
  shows "hist_inv n sk (remove1 p hist) (b - pk_Length p)"
proof -
  have d: "distinct hist" using assms(1) by (simp add: hist_inv_def sorted_packets_distinct)
  have "sum_list (map pk_Length (remove1 p hist)) = b - pk_Length p"
    using assms by (simp add: hist_inv_def sum_list_remove1)
  moreover have "sorted_packets (remove1 p hist)"
    using assms(1) by (simp add: hist_inv_def remove1_filter [OF d] sorted_packets_filter)
  moreover have sub: "x \<in> set hist" if "x \<in> set (remove1 p hist)" for x
    using that set_remove1_subset [of p hist] by (rule rev_subsetD)
  ultimately show ?thesis using assms(1) by (auto simp: hist_inv_def dest!: sub)
qed

locale packet_remover =
  fixes rm :: "Packet \<Rightarrow> 'c sentPacketHandler \<Rightarrow> 'c sentPacketHandler"
  assumes history: "sph_packetHistory (rm p h) = remove1 p (sph_packetHistory h)"
    and bytes: "sph_bytesInFlight (rm p h) = sph_bytesInFlight h - pk_Length p"
    and last_sent: "sph_lastSentPacketNumber (rm p h) = sph_lastSentPacketNumber h"
    and skipped: "sph_skippedPackets (rm p h) = sph_skippedPackets h"
    and rtt: "sph_rttStats (rm p h) = sph_rttStats h"
    and largest: "sph_LargestAcked (rm p h) = sph_LargestAcked h"
begin

lemma inv: "sph_inv h \<Longrightarrow> p \<in> set (sph_packetHistory h) \<Longrightarrow> sph_inv (rm p h)"
  by (simp add: sph_inv_def history bytes last_sent skipped hist_inv_remove1)

lemma fold_inv:
  "sph_inv h \<Longrightarrow> distinct ps \<Longrightarrow> set ps \<subseteq> set (sph_packetHistory h) \<Longrightarrow> sph_inv (fold rm ps h)"
proof (induction ps arbitrary: h)
  case (Cons p ps)
  have "set ps \<subseteq> set (sph_packetHistory (rm p h))"
    using Cons.prems(2,3) by (auto simp: history in_set_remove1 intro: in_set_remove1 [THEN iffD2])
  then show ?case using Cons inv by simp
qed simp

lemma fold_history:
  "distinct (sph_packetHistory h) \<Longrightarrow>
   sph_packetHistory (fold rm ps h) = filter (\<lambda>p. p \<notin> set ps) (sph_packetHistory h)"
proof (induction ps arbitrary: h)
  case (Cons p ps)
  have "distinct (sph_packetHistory (rm p h))" using Cons.prems by (simp add: history)
  from Cons.IH [OF this] show ?case
    using Cons.prems by (simp add: history remove1_filter conj_commute)
qed simp

lemma fold_keeps:
  "sph_lastSentPacketNumber (fold rm ps h) = sph_lastSentPacketNumber h"
  "sph_skippedPackets (fold rm ps h) = sph_skippedPackets h"
  "sph_rttStats (fold rm ps h) = sph_rttStats h"
  "sph_LargestAcked (fold rm ps h) = sph_LargestAcked h"
  by (induction ps arbitrary: h) (simp_all add: last_sent skipped rtt largest)

end

text \<open>Losing a packet also queues it.\<close>

locale packet_queuer = packet_remover +
  assumes queue: "sph_retransmissionQueue (rm p h) = sph_retransmissionQueue h @ [p]"
begin

lemma fold_queue: "sph_retransmissionQueue (fold rm ps h) = sph_retransmissionQueue h @ ps"
  by (induction ps arbitrary: h) (simp_all add: queue)

end

locale packet_acker = packet_remover +
  assumes queue: "sph_retransmissionQueue (rm p h) = sph_retransmissionQueue h"
begin

lemma fold_queue: "sph_retransmissionQueue (fold rm ps h) = sph_retransmissionQueue h"
  by (induction ps arbitrary: h) (simp_all add: queue)

end

interpretation ack: packet_acker "ackPacket alg now" for alg :: "'c SendAlgorithm" and now
  by unfold_locales (simp_all add: ackPacket_def onPacketAcked_def Let_def)

interpretation lose: packet_queuer "losePacket alg" for alg :: "'c SendAlgorithm"
  by unfold_locales (simp_all add: losePacket_def queuePacketForRetransmission_def Let_def)

interpretation rto: packet_queuer "queueRTO alg" for alg :: "'c SendAlgorithm"
  by unfold_locales (simp_all add: queueRTO_def queuePacketForRetransmission_def Let_def)

interpretation tlp: packet_queuer queuePacketForRetransmission
  by unfold_locales (simp_all add: queuePacketForRetransmission_def)

section \<open>Every operation keeps it\<close>

lemma scanLost_lost:
  "sorted_packets ps \<Longrightarrow>
   snd (snd (scanLost now d lg t n ps)) =
     filter (\<lambda>p. pk_PacketNumber p \<le> lg \<and> d < timeSub now (pk_SendTime p)) ps"
proof (induction ps arbitrary: t n)
  case (Cons p ps)
  have s: "sorted_packets ps" "\<forall>q\<in>set ps. pk_PacketNumber p < pk_PacketNumber q"
    using Cons.prems by (auto simp: sorted_packets_def)
  show ?case
  proof (cases "lg < pk_PacketNumber p")
    case True
    then have "filter (\<lambda>p. pk_PacketNumber p \<le> lg \<and> d < timeSub now (pk_SendTime p)) ps = []"
      using s(2) by (fastforce simp: filter_empty_conv)
    then show ?thesis using True by (simp add: not_le)
  next
    case False
    then show ?thesis using Cons.IH [OF s(1)] by (simp add: Let_def case_prod_unfold)
  qed
qed simp

lemma inflightUpTo_filter:
  "sorted_packets ps \<Longrightarrow> inflightUpTo lg ps = filter (\<lambda>p. pk_PacketNumber p \<le> lg) ps"
proof (induction ps)
  case (Cons p ps)
  then have s: "sorted_packets ps" "\<forall>q\<in>set ps. pk_PacketNumber p < pk_PacketNumber q"
    by (auto simp: sorted_packets_def)
  show ?case
  proof (cases "lg < pk_PacketNumber p")
    case True
    then have "filter (\<lambda>p. pk_PacketNumber p \<le> lg) ps = []" using s(2) by (fastforce simp: filter_empty_conv)
    then show ?thesis using True by (simp add: not_le)
  qed (use Cons.IH s in auto)
qed simp

lemma newlyAckedFrom_subseq:
  "newlyAckedFrom bug lg lo rs i ps = Inr acked \<Longrightarrow> set acked \<subseteq> set ps \<and> (distinct ps \<longrightarrow> distinct acked)"
proof (induction ps arbitrary: i acked)
  case (Cons p ps)
  have "acked = [] \<or> (\<exists>j acked'. newlyAckedFrom bug lg lo rs j ps = Inr acked' \<and> (acked = acked' \<or> acked = p # acked'))"
    using Cons.prems by (simp add: Let_def wbind_eq_Inr split: if_splits) blast+
  then show ?case using Cons.IH by fastforce
qed simp

lemma inv_sorted: "sph_inv h \<Longrightarrow> sorted_packets (sph_packetHistory h)"
  by (simp add: sph_inv_def hist_inv_def)

lemma inv_distinct: "sph_inv h \<Longrightarrow> distinct (sph_packetHistory h)"
  by (simp add: inv_sorted sorted_packets_distinct)

text \<open>Updates that leave the invariant's fields alone.\<close>

lemma inv_cong:
  assumes "sph_inv h" "sph_lastSentPacketNumber h' = sph_lastSentPacketNumber h"
    "sph_skippedPackets h' = sph_skippedPackets h" "sph_packetHistory h' = sph_packetHistory h"
    "sph_bytesInFlight h' = sph_bytesInFlight h"
  shows "sph_inv h'"
  using assms by (simp add: sph_inv_def)

lemma inv_detectLost: "sph_inv h \<Longrightarrow> sph_inv (detectLostPackets alg now h)"
proof -
  assume i: "sph_inv h"
  obtain t n lost where s: "scanLost now (delayUntilLost (sph_rttStats h)) (sph_LargestAcked h) 0 (sph_losses h)
      (sph_packetHistory h) = (t, n, lost)" by (metis prod_cases3)
  have "lost = filter (\<lambda>p. pk_PacketNumber p \<le> sph_LargestAcked h \<and>
      delayUntilLost (sph_rttStats h) < timeSub now (pk_SendTime p)) (sph_packetHistory h)"
    using scanLost_lost [OF inv_sorted [OF i], of now "delayUntilLost (sph_rttStats h)" "sph_LargestAcked h" 0
      "sph_losses h"] by (simp add: s)
  then have "set lost \<subseteq> set (sph_packetHistory h)" "distinct lost" using inv_distinct [OF i] by auto
  moreover have "sph_inv (h\<lparr>sph_lossTime := t, sph_losses := n\<rparr>)" by (rule inv_cong [OF i]) simp_all
  ultimately show ?thesis by (simp add: detectLostPackets_def s lose.fold_inv)
qed

lemma inv_SetInflightAsLost: "sph_inv h \<Longrightarrow> sph_inv (SetInflightAsLost alg h)"
proof -
  assume i: "sph_inv h"
  have "sph_inv (h\<lparr>sph_losses := n\<rparr>)" for n by (rule inv_cong [OF i]) simp_all
  then show ?thesis using inv_distinct [OF i] unfolding SetInflightAsLost_def Let_def
    by (intro lose.fold_inv) (auto simp: inflightUpTo_filter [OF inv_sorted [OF i]])
qed

lemma inv_alarm: "sph_inv h \<Longrightarrow> sph_inv (updateLossDetectionAlarm alg h)"
  by (erule inv_cong) (simp_all add: updateLossDetectionAlarm_def)

lemma inv_skipped_drop: "sph_inv h \<Longrightarrow> sph_inv (h\<lparr>sph_skippedPackets := drop n (sph_skippedPackets h)\<rparr>)"
  by (auto simp: sph_inv_def hist_inv_def sorted_wrt_drop dest: in_set_dropD)

lemma inv_gc: "sph_inv h \<Longrightarrow> sph_inv (garbageCollectSkippedPackets h)"
  by (simp add: garbageCollectSkippedPackets_def inv_skipped_drop)

lemma inv_queueAll: "sph_inv h \<Longrightarrow> sph_inv (queueAll alg h)"
proof (induction alg h rule: queueAll.induct)
  case (1 alg h)
  show ?case
  proof (cases "sph_packetHistory h")
    case (Cons p ps)
    then show ?thesis using 1 rto.inv [of h p alg] by (simp add: queueAll.simps [of alg h])
  qed (use 1 in \<open>simp add: queueAll.simps [of alg h]\<close>)
qed

lemma inv_oldest: "sph_inv h \<Longrightarrow> sph_inv (retransmitOldestPacket alg h)"
  using rto.inv [of h _ alg] by (auto simp: retransmitOldestPacket_def split: list.split)

lemma inv_timeout: "sph_inv h \<Longrightarrow> sph_inv (retransmissionTimeout alg h)"
  by (erule inv_cong) (simp_all add: retransmissionTimeout_def)

lemma inv_OnAlarm: "sph_inv h \<Longrightarrow> sph_inv (OnAlarm alg cb now h)"
proof -
  assume i: "sph_inv h"
  have tlp: "sph_inv (retransmitTLP h)" using i tlp.inv [of h] by (simp add: retransmitTLP_def)
  have c: "sph_inv (g\<lparr>sph_tlpCount := n\<rparr>)" "sph_inv (g\<lparr>sph_rtoCount := n\<rparr>)" "sph_inv (g\<lparr>sph_alarm := t\<rparr>)"
    if "sph_inv g" for n t and g :: "'a sentPacketHandler" by (rule inv_cong [OF that]; simp)+
  have all: "sph_inv (retransmitAllPackets alg h)" "sph_inv (retransmitOldestTwoPackets alg h)"
    using i by (simp_all add: retransmitAllPackets_def retransmitOldestTwoPackets_def inv_timeout inv_queueAll inv_oldest)
  show ?thesis unfolding OnAlarm_def Let_def using i tlp all
    by (auto intro!: inv_alarm inv_detectLost c)
qed

lemma inv_ackAll:
  assumes "sph_inv h" "newlyAckedFrom bug lg lo rs i (sph_packetHistory h) = Inr acked"
  shows "sph_inv (fold (ackPacket alg now) acked h)"
  using newlyAckedFrom_subseq [OF assms(2)] inv_distinct [OF assms(1)] assms(1) by (simp add: ack.fold_inv)

lemma inv_maybeUpdateRTT: "sph_inv h \<Longrightarrow> sph_inv (fst (maybeUpdateRTT lg d rcv now h))"
  by (erule inv_cong) (simp_all add: maybeUpdateRTT_def split: option.split)

lemma inv_processAck:
  assumes "sph_inv h"
  shows "sph_inv (fst (processAck alg f rcv now h))"
proof -
  obtain g u where m: "maybeUpdateRTT (af_LargestAcked f) (af_DelayTime f) rcv now h = (g, u)" by force
  have g: "sph_inv g" using inv_maybeUpdateRTT [OF assms] m by (metis fst_conv)
  let ?g = "if u then g\<lparr>sph_congestion := alg_MaybeExitSlowStart alg (sph_rttStats g) (sph_congestion g)\<rparr> else g"
  have g': "sph_inv ?g" by (rule inv_cong [OF g]) simp_all
  show ?thesis
  proof (cases "determineNewlyAckedPackets f ?g")
    case (Inr acked)
    have "sph_inv (fold (ackPacket alg now) acked ?g)"
      using inv_ackAll [OF g'] Inr by (simp add: determineNewlyAckedPackets_def)
    then have "sph_inv (updateBandwidth b d (fold (ackPacket alg now) acked ?g))" for b d
      by (rule inv_cong) (simp_all add: updateBandwidth_def split: option.split)
    then have "sph_inv (garbageCollectSkippedPackets (updateLossDetectionAlarm alg (detectLostPackets alg now
        (updateBandwidth b d (fold (ackPacket alg now) acked ?g)))))" for b d
      by (intro inv_gc inv_alarm inv_detectLost)
    then show ?thesis using m Inr by (simp add: processAck_def Let_def sph_inv_def del: if_split)
  qed (use m g' in \<open>simp add: processAck_def Let_def del: if_split\<close>)
qed

lemma inv_ReceivedAck:
  assumes "sph_inv h"
  shows "sph_inv (fst (ReceivedAck alg f pn rcv now h))"
proof -
  have "sph_inv (h\<lparr>sph_largestReceivedPacketWithAck := a\<rparr>)"
    "sph_inv (h\<lparr>sph_largestReceivedPacketWithAck := a, sph_LargestAcked := b\<rparr>)" for a b
    by (rule inv_cong [OF assms]; simp)+
  then show ?thesis using assms by (simp add: ReceivedAck_def Let_def inv_processAck)
qed

lemma inv_ReceivedClosePath:
  assumes "sph_inv h"
  shows "sph_inv (fst (ReceivedClosePath alg f pn now h))"
proof -
  let ?h = "h\<lparr>sph_largestReceivedPacketWithAck := pn\<rparr>"
  have i: "sph_inv ?h" by (rule inv_cong [OF assms]; simp)
  have "sph_inv (fold (ackPacket alg now) acked ?h)" if "determineNewlyAckedPacketsClosePath f ?h = Inr acked" for acked
    using inv_ackAll [OF i] that by (simp add: determineNewlyAckedPacketsClosePath_def)
  then show ?thesis using assms i
    by (auto simp: ReceivedClosePath_def Let_def inv_gc inv_SetInflightAsLost split: sum.split)
qed

lemma trackSkipped_spec:
  assumes "sorted_wrt (<) sk" "length sk \<le> MaxTrackedSkippedPackets" "\<forall>x\<in>set sk. x < p" "p \<le> q"
  defines "r \<equiv> trackSkipped p q sk"
  shows "sorted_wrt (<) r \<and> length r \<le> MaxTrackedSkippedPackets \<and> (\<forall>x\<in>set r. x < q \<and> (x \<in> set sk \<or> p \<le> x))"
  using assms(1-4) unfolding r_def
proof (induction p q sk rule: trackSkipped.induct)
  case (1 p q sk)
  show ?case
  proof (cases "p < q")
    case True
    let ?sk = "sk @ [p]"
    let ?t = "if length ?sk > MaxTrackedSkippedPackets then tl ?sk else ?sk"
    have n: "p + 1 \<le> q" "p < p + 1" using True unat_next [OF True]
      by (auto simp: word_le_nat_alt word_less_nat_alt)
    have t: "set ?t \<subseteq> insert p (set sk)" by (auto dest: list.set_sel(2) [rotated])
    have a: "sorted_wrt (<) ?sk" using 1(2,4) by (auto simp: sorted_wrt_append)
    then have "sorted_wrt (<) ?t" by (cases ?sk) auto
    moreover have "length ?t \<le> MaxTrackedSkippedPackets" using 1(3) by simp
    moreover have "x < p + 1" if "x \<in> set ?t" for x
    proof -
      have "x = p \<or> x < p" using subsetD [OF t that] 1(4) by auto
      then show ?thesis using n(2) by (auto intro: less_trans)
    qed
    ultimately have "sorted_wrt (<) (trackSkipped (p + 1) q ?t) \<and>
        length (trackSkipped (p + 1) q ?t) \<le> MaxTrackedSkippedPackets \<and>
        (\<forall>x\<in>set (trackSkipped (p + 1) q ?t). x < q \<and> (x \<in> set ?t \<or> p + 1 \<le> x))"
      using 1(1) [OF True refl] n(1) by blast
    moreover have "trackSkipped p q sk = trackSkipped (p + 1) q ?t"
      using True by (simp add: trackSkipped.simps [of p q sk] Let_def)
    moreover have "x \<in> set sk \<or> p \<le> x" if "x \<in> set ?t \<or> p + 1 \<le> x" for x
      using that t n(2) by (auto simp: subset_iff simp del: set_append)
    ultimately show ?thesis by (simp only:) blast
  next
    case False
    then have "trackSkipped p q sk = sk" by (simp add: trackSkipped.simps [of p q sk])
    then show ?thesis using 1(2-5) False by auto
  qed
qed

lemma inv_SentPacket:
  assumes "sph_inv h"
  shows "sph_inv (fst (SentPacket alg packet now h))"
proof (cases "pk_PacketNumber packet \<le> sph_lastSentPacketNumber h \<or>
    length (sph_retransmissionQueue h) + length (sph_packetHistory h) + 1 > MaxTrackedSentPackets")
  case False
  let ?n = "pk_PacketNumber packet" and ?last = "sph_lastSentPacketNumber h"
  let ?sk = "trackSkipped (?last + 1) ?n (sph_skippedPackets h)"
  let ?p = "packet\<lparr>pk_Frames := stripNonRetransmittableFrames (pk_Frames packet)\<rparr>"
  have new: "?last < ?n" using False by (auto simp: not_le)
  note nx = unat_next [OF new]
  have le: "?last + 1 \<le> ?n" "?last < ?last + 1" using new nx by (auto simp: word_le_nat_alt word_less_nat_alt)
  have i: "sorted_packets (sph_packetHistory h)" "sorted_wrt (<) (sph_skippedPackets h)"
    "length (sph_skippedPackets h) \<le> MaxTrackedSkippedPackets"
    "\<forall>s\<in>set (sph_skippedPackets h). s < ?last \<and> s \<notin> pk_PacketNumber ` set (sph_packetHistory h)"
    "\<forall>p\<in>set (sph_packetHistory h). pk_PacketNumber p \<le> ?last"
    using assms by (auto simp: sph_inv_def hist_inv_def)
  have sk: "sorted_wrt (<) ?sk" "length ?sk \<le> MaxTrackedSkippedPackets"
    "\<forall>x\<in>set ?sk. x < ?n \<and> (x \<in> set (sph_skippedPackets h) \<or> ?last + 1 \<le> x)"
    using trackSkipped_spec [OF i(2,3) _ le(1)] i(4) le(2) by (meson less_trans)+
  have out: "\<forall>x\<in>set ?sk. x \<notin> pk_PacketNumber ` set (sph_packetHistory h)"
    using sk(3) i(4,5) le(2) by (metis (no_types, lifting) imageE leD less_le_trans)
  let ?g = "h\<lparr>sph_skippedPackets := ?sk, sph_lastSentPacketNumber := ?n,
      sph_packets := sph_packets h + 1, sph_lastSentTime := now\<rparr>"
  let ?q = "if pk_Frames ?p \<noteq> [] then ?p\<lparr>pk_SendTime := now\<rparr> else ?p"
  have old: "\<forall>p\<in>set (sph_packetHistory h). pk_PacketNumber p < ?n" using i(5) new by (meson le_less_trans)
  have "hist_inv ?n ?sk (sph_packetHistory h) (sph_bytesInFlight h)"
    using assms sk out old by (simp add: sph_inv_def hist_inv_def less_imp_le)
  then have "sph_inv (sph_recordSent ?q ?g)"
    using old sk(3) by (auto simp: sph_recordSent_def sph_inv_def hist_inv_def sorted_packets_def sorted_wrt_append
        strip_filter list_all_iff add.commute)
  then have "sph_inv (updateLossDetectionAlarm alg ((sph_recordSent ?q ?g)\<lparr>sph_congestion := c\<rparr>))" for c
    by (intro inv_alarm) (erule inv_cong, simp_all)
  then show ?thesis using False by (simp add: SentPacket_def Let_def del: if_split)
qed (use assms in \<open>auto simp: SentPacket_def\<close>)

section \<open>Reachable states\<close>

text \<open>
  The states that a path can bring its handler to.  The round-trip statistics belong to
  the path, which may also change them on its own.
\<close>

inductive sph_reachable :: "'c SendAlgorithm \<Rightarrow> 'c sentPacketHandler \<Rightarrow> bool" for alg where
  new: "sph_reachable alg (NewSentPacketHandler pathID rtt bdw cong)"
| sent: "sph_reachable alg h \<Longrightarrow> sph_reachable alg (fst (SentPacket alg packet now h))"
| ack: "sph_reachable alg h \<Longrightarrow> sph_reachable alg (fst (ReceivedAck alg f pn rcv now h))"
| close: "sph_reachable alg h \<Longrightarrow> sph_reachable alg (fst (ReceivedClosePath alg cf pn now h))"
| inflight: "sph_reachable alg h \<Longrightarrow> sph_reachable alg (SetInflightAsLost alg h)"
| alarm: "sph_reachable alg h \<Longrightarrow> sph_reachable alg (OnAlarm alg cb now h)"
| dequeue: "sph_reachable alg h \<Longrightarrow> sph_reachable alg (fst (DequeuePacketForRetransmission h))"
| duplicate: "sph_reachable alg h \<Longrightarrow> sph_reachable alg (DuplicatePacket packet h)"
| stop: "sph_reachable alg h \<Longrightarrow> sph_reachable alg (fst (GetStopWaitingFrame force h))"
| rtt: "sph_reachable alg h \<Longrightarrow> sph_reachable alg (h\<lparr>sph_rttStats := r\<rparr>)"

lemma reachable_inv: "sph_reachable alg h \<Longrightarrow> sph_inv h"
proof (induction rule: sph_reachable.induct)
  case (new pathID rtt bdw cong)
  then show ?case by (simp add: sph_inv_def hist_inv_def NewSentPacketHandler_def sorted_packets_def)
next
  case (dequeue h)
  then show ?case by (elim inv_cong) (simp_all add: DequeuePacketForRetransmission_def split: list.split)
next
  case (duplicate h packet)
  then show ?case by (elim inv_cong) (simp_all add: DuplicatePacket_def)
next
  case (stop h force)
  then show ?case by (elim inv_cong) (simp_all add: GetStopWaitingFrame_def split: prod.split)
next
  case (rtt h r)
  then show ?case by (elim inv_cong) simp_all
qed (simp_all add: inv_SentPacket inv_ReceivedAck inv_ReceivedClosePath inv_SetInflightAsLost inv_OnAlarm)

text \<open>A controller that never limits, for the concrete runs of the witnesses.\<close>

definition openAlgorithm :: "unit SendAlgorithm" where
  "openAlgorithm =
     \<lparr>alg_TimeUntilSend = (\<lambda>_ _ _. 0), alg_OnPacketSent = (\<lambda>_ _ _ _ r c. (c, r)),
      alg_GetCongestionWindow = (\<lambda>_. 46720), alg_MaybeExitSlowStart = (\<lambda>_ c. c),
      alg_OnPacketAcked = (\<lambda>_ _ _ _ _ c. c), alg_OnPacketLost = (\<lambda>_ _ _ c. c),
      alg_SetNumEmulatedConnections = (\<lambda>_ c. c), alg_OnRetransmissionTimeout = (\<lambda>_ c. c),
      alg_OnConnectionMigration = (\<lambda>c. c),
      alg_RetransmissionDelay = (\<lambda>r _. if SmoothedRTT r = 0 then 0 else SmoothedRTT r + MeanDeviation r * 4),
      alg_SmoothedRTT = (\<lambda>r _. SmoothedRTT r), alg_SetSlowStartLargeReduction = (\<lambda>_ c. c)\<rparr>"

definition pingPacket :: "PacketNumber \<Rightarrow> Packet" where
  "pingPacket n = \<lparr>pk_PacketNumber = n, pk_Frames = [FPing PingFrame], pk_Length = 100,
     pk_EncryptionLevel = EncryptionForwardSecure, pk_SendTime = 0\<rparr>"

definition sentTwo :: "unit sentPacketHandler" where
  "sentTwo = fst (SentPacket openAlgorithm (pingPacket 3) 20
     (fst (SentPacket openAlgorithm (pingPacket 1) 10 (NewSentPacketHandler 0 NewRTTStats (NewBDWStats 0) ()))))"

lemma sentTwo_reachable: "sph_reachable openAlgorithm sentTwo"
  unfolding sentTwo_def by (intro sph_reachable.sent sph_reachable.new)

lemma sentTwo_fields:
  "sph_packetHistory sentTwo = [(pingPacket 1)\<lparr>pk_SendTime := 10\<rparr>, (pingPacket 3)\<lparr>pk_SendTime := 20\<rparr>]"
  "sph_skippedPackets sentTwo = [2]" "sph_bytesInFlight sentTwo = 200" "sph_lastSentPacketNumber sentTwo = 3"
  "sph_largestReceivedPacketWithAck sentTwo = 0" "sph_retransmissionQueue sentTwo = []"
  by (simp_all add: sentTwo_def SentPacket_def NewSentPacketHandler_def pingPacket_def sph_recordSent_def
      updateLossDetectionAlarm_def trackSkipped.simps MaxTrackedSkippedPackets_def MaxTrackedSentPackets_def
      DefaultMaxCongestionWindow_def Let_def word_le_nat_alt word_less_nat_alt)

text \<open>
  C4: The bytes in flight are always right.  Whatever packets are sent, whatever ACK and
  CLOSE_PATH frames arrive, well formed or not, and whenever alarms fire, the byte count
  that congestion control relies on is the sum of the lengths of the tracked packets;
  these have strictly increasing numbers that were really sent, they carry at least one
  frame and only frames to retransmit, and no tracked packet has a number that is
  recorded as skipped, of which at most ten are kept.
\<close>

theorem bytesInFlight_correct:
  assumes "sph_reachable alg h"
  shows "sph_bytesInFlight h = sum_list (map pk_Length (sph_packetHistory h)) \<and>
    sorted_wrt (\<lambda>p q. pk_PacketNumber p < pk_PacketNumber q) (sph_packetHistory h) \<and>
    (\<forall>p\<in>set (sph_packetHistory h). pk_PacketNumber p \<le> sph_lastSentPacketNumber h \<and>
       pk_Frames p \<noteq> [] \<and> list_all IsFrameRetransmittable (pk_Frames p) \<and>
       pk_PacketNumber p \<notin> set (sph_skippedPackets h)) \<and>
    length (sph_skippedPackets h) \<le> MaxTrackedSkippedPackets"
  using reachable_inv [OF assms] by (auto simp: sph_inv_def hist_inv_def sorted_packets_def)

theorem bytesInFlight_correct_witness:
  "sph_bytesInFlight sentTwo = 200 \<and> sph_skippedPackets sentTwo = [2] \<and>
   sph_bytesInFlight sentTwo = sum_list (map pk_Length (sph_packetHistory sentTwo))"
  using bytesInFlight_correct [OF sentTwo_reachable] by (simp add: sentTwo_fields)

section \<open>Acknowledgements\<close>

text \<open>
  C8: The merge of the packets in flight with the ACK ranges finds exactly the packets
  that the frame acknowledges.  In every reachable state and for every frame with
  descending disjoint ranges, such as every frame that the parser accepts, the
  single pass of \<open>determineNewlyAckedPackets\<close> over both lists, which never goes back
  to an earlier range, returns the packets for which \<open>AcksPacket\<close> holds, in order, and
  never its internal error; \<open>determineNewlyAckedPacketsClosePath\<close> does the same.
\<close>

theorem newly_acked_packets:
  assumes "sph_reachable alg h"
    "ack_ok (af_LargestAcked f) (af_LowestAcked f) (af_AckRanges f)"
    "ack_ok (cp_LargestAcked cf) (cp_LowestAcked cf) (cp_AckRanges cf)"
  shows "determineNewlyAckedPackets f h =
           Inr (filter (\<lambda>p. AckFrame_AcksPacket f (pk_PacketNumber p)) (sph_packetHistory h)) \<and>
         determineNewlyAckedPacketsClosePath cf h =
           Inr (filter (\<lambda>p. ClosePathFrame_AcksPacket cf (pk_PacketNumber p)) (sph_packetHistory h))"
  using newlyAckedFrom_filter [OF _ inv_sorted [OF reachable_inv [OF assms(1)]], where i = 0] assms(2,3)
  by (simp add: determineNewlyAckedPackets_def determineNewlyAckedPacketsClosePath_def
      AckFrame_AcksPacket_def ClosePathFrame_AcksPacket_def)

definition ackOf :: "PacketNumber \<Rightarrow> PacketNumber \<Rightarrow> AckRange list \<Rightarrow> AckFrame" where
  "ackOf lg lo rs = \<lparr>af_PathID = 0, af_LargestAcked = lg, af_LowestAcked = lo, af_AckRanges = rs,
     af_PacketReceivedTime = 0, af_DelayTime = 0\<rparr>"

theorem newly_acked_packets_witness:
  "determineNewlyAckedPackets (ackOf 3 1 [\<lparr>First = 3, Last = 3\<rparr>, \<lparr>First = 1, Last = 1\<rparr>]) sentTwo =
     Inr (sph_packetHistory sentTwo) \<and>
   determineNewlyAckedPackets (ackOf 1 1 []) sentTwo = Inr [(pingPacket 1)\<lparr>pk_SendTime := 10\<rparr>]"
  using newly_acked_packets [OF sentTwo_reachable, of "ackOf 3 1 [\<lparr>First = 3, Last = 3\<rparr>, \<lparr>First = 1, Last = 1\<rparr>]"
      "\<lparr>cp_PathID = 0, cp_LargestAcked = 3, cp_LowestAcked = 1, cp_AckRanges = []\<rparr>"]
    newly_acked_packets [OF sentTwo_reachable, of "ackOf 1 1 []"
      "\<lparr>cp_PathID = 0, cp_LargestAcked = 3, cp_LowestAcked = 1, cp_AckRanges = []\<rparr>"]
  by (simp add: ackOf_def ack_ok_def wf_ranges_def sentTwo_fields pingPacket_def AckFrame_AcksPacket_def
      acksPacket_def hasMissingRanges_def)

lemma detectLost_fields:
  fixes now :: time
  assumes "sorted_packets (sph_packetHistory h)"
  defines "lost \<equiv> filter (\<lambda>p. pk_PacketNumber p \<le> sph_LargestAcked h \<and>
      delayUntilLost (sph_rttStats h) < timeSub now (pk_SendTime p)) (sph_packetHistory h)"
  shows "sph_packetHistory (detectLostPackets alg now h) = filter (\<lambda>p. p \<notin> set lost) (sph_packetHistory h)"
    "sph_retransmissionQueue (detectLostPackets alg now h) = sph_retransmissionQueue h @ lost"
    "sph_rttStats (detectLostPackets alg now h) = sph_rttStats h"
proof -
  obtain t n ps where s: "scanLost now (delayUntilLost (sph_rttStats h)) (sph_LargestAcked h) 0 (sph_losses h)
      (sph_packetHistory h) = (t, n, ps)" by (rule prod_cases3)
  have ps: "ps = lost"
    using scanLost_lost [OF assms(1), of now "delayUntilLost (sph_rttStats h)" "sph_LargestAcked h" 0 "sph_losses h"]
    unfolding s lost_def by simp
  show "sph_packetHistory (detectLostPackets alg now h) = filter (\<lambda>p. p \<notin> set lost) (sph_packetHistory h)"
    "sph_retransmissionQueue (detectLostPackets alg now h) = sph_retransmissionQueue h @ lost"
    "sph_rttStats (detectLostPackets alg now h) = sph_rttStats h"
    using sorted_packets_distinct [OF assms(1)]
    by (simp_all add: detectLostPackets_def s ps lose.fold_history lose.fold_queue lose.fold_keeps)
qed

lemma updateBandwidth_keeps [simp]:
  "sph_packetHistory (updateBandwidth b d h) = sph_packetHistory h"
  "sph_retransmissionQueue (updateBandwidth b d h) = sph_retransmissionQueue h"
  "sph_rttStats (updateBandwidth b d h) = sph_rttStats h"
  "sph_LargestAcked (updateBandwidth b d h) = sph_LargestAcked h"
  by (simp_all add: updateBandwidth_def split: option.split)

lemma filter_notin_filter: "filter (\<lambda>p. p \<notin> set (filter P xs)) xs = filter (\<lambda>p. \<not> P p) xs"
  by (rule filter_cong) auto

lemma processAck_fields:
  assumes "sph_inv h" "ack_ok (af_LargestAcked f) (af_LowestAcked f) (af_AckRanges f)"
    "processAck alg f rcv now h = (h', e)"
  defines "flight \<equiv> filter (\<lambda>p. \<not> AckFrame_AcksPacket f (pk_PacketNumber p)) (sph_packetHistory h)"
  defines "lost \<equiv> filter (\<lambda>p. pk_PacketNumber p \<le> sph_LargestAcked h \<and>
      delayUntilLost (sph_rttStats h') < timeSub now (pk_SendTime p)) flight"
  shows "e = None" "sph_packetHistory h' = filter (\<lambda>p. p \<notin> set lost) flight"
    "sph_retransmissionQueue h' = sph_retransmissionQueue h @ lost"
proof -
  let ?P = "\<lambda>p. AckFrame_AcksPacket f (pk_PacketNumber p)"
  obtain g u where m: "maybeUpdateRTT (af_LargestAcked f) (af_DelayTime f) rcv now h = (g, u)" by force
  let ?g = "if u then g\<lparr>sph_congestion := alg_MaybeExitSlowStart alg (sph_rttStats g) (sph_congestion g)\<rparr> else g"
  have g: "sph_packetHistory ?g = sph_packetHistory h" "sph_retransmissionQueue ?g = sph_retransmissionQueue h"
    "sph_LargestAcked ?g = sph_LargestAcked h"
    using m by (auto simp: maybeUpdateRTT_def split: option.splits)
  let ?a = "filter ?P (sph_packetHistory h)"
  have d: "determineNewlyAckedPackets f ?g = Inr ?a"
    using newlyAckedFrom_filter [OF assms(2) inv_sorted [OF assms(1)], where i = 0]
    by (simp add: determineNewlyAckedPackets_def g AckFrame_AcksPacket_def del: if_split)
  define k where "k = updateBandwidth (sph_bytesInFlight ?g) (sentDelayOf f rcv ?a) (fold (ackPacket alg now) ?a ?g)"
  have "sph_packetHistory k = filter (\<lambda>p. p \<notin> set ?a) (sph_packetHistory ?g)"
    using ack.fold_history [where h = ?g and ps = ?a] inv_distinct [OF assms(1)] unfolding g k_def updateBandwidth_keeps by blast
  then have k: "sph_packetHistory k = flight" unfolding g filter_notin_filter flight_def .
  have k': "sph_retransmissionQueue k = sph_retransmissionQueue h" "sph_LargestAcked k = sph_LargestAcked h"
    by (simp_all add: k_def ack.fold_queue ack.fold_keeps g del: if_split)
  have h': "h' = (let h' = garbageCollectSkippedPackets (updateLossDetectionAlarm alg (detectLostPackets alg now k))
      in h'\<lparr>sph_stopWaitingManager := swm_ReceivedAck f (sph_stopWaitingManager h')\<rparr>)" and e: "e = None"
    using assms(3) m d by (simp_all add: processAck_def Let_def k_def del: if_split)
  have s: "sorted_packets (sph_packetHistory k)"
    unfolding k flight_def by (rule sorted_packets_filter [OF inv_sorted [OF assms(1)]])
  note l = detectLost_fields [OF s, where alg = alg and now = now]
  have e': "sph_packetHistory h' = sph_packetHistory (detectLostPackets alg now k)"
    "sph_retransmissionQueue h' = sph_retransmissionQueue (detectLostPackets alg now k)"
    "sph_rttStats h' = sph_rttStats (detectLostPackets alg now k)"
    by (simp_all add: h' Let_def garbageCollectSkippedPackets_def updateLossDetectionAlarm_def)
  show "e = None" by (rule e)
  show "sph_packetHistory h' = filter (\<lambda>p. p \<notin> set lost) flight"
    "sph_retransmissionQueue h' = sph_retransmissionQueue h @ lost"
    unfolding lost_def e' l k k' by (rule refl)+
qed

lemma mset_filter_split: "mset xs = mset (filter P xs) + mset (filter (\<lambda>x. \<not> P x) xs)"
  by (induction xs) auto

lemma mset_notin_split: "mset xs = mset (filter P xs) + mset (filter (\<lambda>p. p \<notin> set (filter P xs)) xs)"
  unfolding filter_notin_filter by (rule mset_filter_split)

text \<open>
  C5: An ACK conserves the packets.  When a reachable handler processes an ACK frame
  with new information, every packet that was in flight has exactly one fate: it was
  acknowledged by the frame, it was declared lost and appended to the retransmission
  queue, in order, or it is still in flight.  Lost are exactly the packets below the
  largest acknowledged one that the frame does not acknowledge and that were sent longer
  ago than 9/8 of the round-trip time.  The only error is the one for acknowledging a
  skipped packet number.
\<close>

theorem ReceivedAck_conserves:
  assumes "sph_reachable alg h" "ack_ok (af_LargestAcked f) (af_LowestAcked f) (af_AckRanges f)"
    "af_LargestAcked f \<le> sph_lastSentPacketNumber h" "sph_largestReceivedPacketWithAck h < pn"
    "largestInOrderAcked h < af_LargestAcked f" "ReceivedAck alg f pn rcv now h = (h', e)"
  defines "acked \<equiv> filter (\<lambda>p. AckFrame_AcksPacket f (pk_PacketNumber p)) (sph_packetHistory h)"
    and "lost \<equiv> filter (\<lambda>p. \<not> AckFrame_AcksPacket f (pk_PacketNumber p) \<and>
      pk_PacketNumber p \<le> af_LargestAcked f \<and>
      delayUntilLost (sph_rttStats h') < timeSub now (pk_SendTime p)) (sph_packetHistory h)"
  shows "if \<exists>s\<in>set (sph_skippedPackets h). AckFrame_AcksPacket f s then e = Some ErrAckForSkippedPacket
         else e = None \<and> sph_retransmissionQueue h' = sph_retransmissionQueue h @ lost \<and>
           mset (sph_packetHistory h) = mset acked + mset lost + mset (sph_packetHistory h')"
proof -
  let ?h = "h\<lparr>sph_largestReceivedPacketWithAck := pn, sph_LargestAcked := af_LargestAcked f\<rparr>"
  have i: "sph_inv ?h" by (rule inv_cong [OF reachable_inv [OF assms(1)]]) simp_all
  have r: "ReceivedAck alg f pn rcv now h =
      (if \<exists>s\<in>set (sph_skippedPackets h). AckFrame_AcksPacket f s
       then (?h, Some ErrAckForSkippedPacket) else processAck alg f rcv now ?h)"
  proof -
    have "largestInOrderAcked (h\<lparr>sph_largestReceivedPacketWithAck := pn\<rparr>) = largestInOrderAcked h"
      by (simp add: largestInOrderAcked_def split: list.split)
    then show ?thesis using leD [OF assms(3)] assms(4,5)
      by (simp add: ReceivedAck_def Let_def skippedPacketsAcked_def list_ex_iff not_le [symmetric] del: not_le)
  qed
  show ?thesis
  proof (cases "\<exists>s\<in>set (sph_skippedPackets h). AckFrame_AcksPacket f s")
    case True
    then show ?thesis using assms(6) r by simp
  next
    case False
    then have p: "processAck alg f rcv now ?h = (h', e)" using assms(6) r by simp
    let ?flight = "filter (\<lambda>p. \<not> AckFrame_AcksPacket f (pk_PacketNumber p)) (sph_packetHistory h)"
    have lost: "lost = filter (\<lambda>p. pk_PacketNumber p \<le> af_LargestAcked f \<and>
        delayUntilLost (sph_rttStats h') < timeSub now (pk_SendTime p)) ?flight"
      by (simp add: lost_def conj_commute conj_left_commute)
    have f: "e = None" "sph_packetHistory h' = filter (\<lambda>p. p \<notin> set lost) ?flight"
      "sph_retransmissionQueue h' = sph_retransmissionQueue h @ lost"
      using processAck_fields [OF i assms(2) p] unfolding lost by simp_all
    have "mset (sph_packetHistory h) = mset acked + mset ?flight"
      unfolding acked_def by (rule mset_filter_split)
    moreover have "mset ?flight = mset lost + mset (sph_packetHistory h')"
      unfolding f(2) lost by (rule mset_notin_split)
    ultimately have "mset (sph_packetHistory h) = mset acked + mset lost + mset (sph_packetHistory h')"
      by (simp only: add.assoc)
    then show ?thesis unfolding if_not_P [OF False] using f(1,3) by blast
  qed
qed

theorem ReceivedAck_conserves_witness:
  "\<exists>h' e. ReceivedAck openAlgorithm (ackOf 1 1 []) 7 1000 1000 sentTwo = (h', e) \<and> e = None \<and>
     mset (sph_packetHistory h') + {# (pingPacket 1)\<lparr>pk_SendTime := 10\<rparr> #} = mset (sph_packetHistory sentTwo)"
proof -
  obtain h' e where r: "ReceivedAck openAlgorithm (ackOf 1 1 []) 7 1000 1000 sentTwo = (h', e)" by force
  have "ack_ok (af_LargestAcked (ackOf 1 1 [])) (af_LowestAcked (ackOf 1 1 [])) (af_AckRanges (ackOf 1 1 []))"
    by (simp add: ack_ok_def ackOf_def)
  from ReceivedAck_conserves [OF sentTwo_reachable this _ _ _ r]
  have "e = None \<and> mset (sph_packetHistory h') + {# (pingPacket 1)\<lparr>pk_SendTime := 10\<rparr> #} = mset (sph_packetHistory sentTwo)"
    by (simp add: sentTwo_fields largestInOrderAcked_def ackOf_def pingPacket_def AckFrame_AcksPacket_def
        acksPacket_def hasMissingRanges_def word_le_nat_alt word_less_nat_alt)
  then show ?thesis using r by blast
qed

section \<open>Time-outs\<close>

definition baseRTO :: "'c SendAlgorithm \<Rightarrow> 'c sentPacketHandler \<Rightarrow> duration" where
  "baseRTO alg h =
     (let rto = alg_RetransmissionDelay alg (sph_rttStats h) (sph_congestion h)
      in max (if rto = 0 then 500000000 else rto) 200000000)"

lemma computeRTOTimeout_base:
  "computeRTOTimeout alg h =
     min (if sph_rtoCount h \<ge> 64 then 0 else wrapInt64 (baseRTO alg h * 2 ^ unat (sph_rtoCount h))) 60000000000"
  by (simp add: computeRTOTimeout_def baseRTO_def Let_def MaxDuration_def MinDuration_def max_def min_def
      Millisecond_def Second_def Microsecond_def)

lemma wrapInt64_negative: "2 ^ 63 \<le> x \<Longrightarrow> x < 2 ^ 64 \<Longrightarrow> wrapInt64 x = x - 2 ^ 64"
  by (simp add: wrapInt64_def mod_pos_geq mod_pos_pos_trivial)

text \<open>
  C40: The exponential backoff of the retransmission timeout and where it breaks.  As long
  as the base timeout, doubled once per timeout, fits into 63 bits, \<open>computeRTOTimeout\<close>
  is that value, capped at 60 seconds and never below 200 milliseconds.  One doubling
  further the shift overflows: the timeout is negative, and the alarm that is set with
  it, the maximum with 200 milliseconds, falls back from 60 seconds to 200 milliseconds.
\<close>

theorem computeRTOTimeout_backoff:
  fixes alg :: "'c SendAlgorithm" and h :: "'c sentPacketHandler"
  assumes "sph_rtoCount h < 64"
  defines "rto \<equiv> baseRTO alg h * 2 ^ unat (sph_rtoCount h)"
  shows "(rto < 2 ^ 63 \<longrightarrow>
       computeRTOTimeout alg h = min rto 60000000000 \<and> 200000000 \<le> computeRTOTimeout alg h) \<and>
    (2 ^ 63 \<le> rto \<and> rto < 2 ^ 64 \<longrightarrow>
       computeRTOTimeout alg h < 0 \<and> MaxDuration (computeRTOTimeout alg h) minRetransmissionTime = 200000000)"
proof -
  have b: "200000000 \<le> baseRTO alg h" by (simp add: baseRTO_def Let_def)
  have x: "200000000 \<le> rto"
    using mult_mono [of 200000000 "baseRTO alg h" 1 "2 ^ unat (sph_rtoCount h)"] b by (simp add: rto_def)
  have c: "computeRTOTimeout alg h = min (wrapInt64 rto) 60000000000"
    using leD [OF assms(1) [THEN less_imp_le]] leD assms(1) by (auto simp: computeRTOTimeout_base rto_def)
  have "computeRTOTimeout alg h < 0" if "2 ^ 63 \<le> rto" "rto < 2 ^ 64"
    using that wrapInt64_negative [OF that] by (simp add: c)
  then show ?thesis using x
    by (auto simp: c wrapInt64_id MaxDuration_def Millisecond_def Microsecond_def)
qed

theorem computeRTOTimeout_backoff_witness:
  "computeRTOTimeout openAlgorithm (sentTwo\<lparr>sph_rtoCount := 3\<rparr>) = 4000000000 \<and>
   computeRTOTimeout openAlgorithm (sentTwo\<lparr>sph_rtoCount := 35\<rparr>) < 0"
proof -
  have b: "baseRTO openAlgorithm (sentTwo\<lparr>sph_rtoCount := n\<rparr>) = 500000000" for n
    by (simp add: baseRTO_def openAlgorithm_def sentTwo_def SentPacket_def NewSentPacketHandler_def pingPacket_def
        sph_recordSent_def updateLossDetectionAlarm_def NewRTTStats_def NewRTTStatsWithSmoothedRTT_def SmoothedRTT_def
        MaxTrackedSentPackets_def DefaultMaxCongestionWindow_def Let_def)
  show ?thesis
    using computeRTOTimeout_backoff [of "sentTwo\<lparr>sph_rtoCount := 3\<rparr>" openAlgorithm]
      computeRTOTimeout_backoff [of "sentTwo\<lparr>sph_rtoCount := 35\<rparr>" openAlgorithm]
    by (simp add: b)
qed

lemma queueAll_fields:
  "sph_packetHistory (queueAll alg h) = []"
  "sph_retransmissionQueue (queueAll alg h) = sph_retransmissionQueue h @ sph_packetHistory h"
proof (induction alg h rule: queueAll.induct)
  case (1 alg h)
  { case 1
    show ?case using "1.IH"(1) by (simp add: queueAll.simps [of alg h] split: list.split)
  next
    case 2
    show ?case using "1.IH"(2)
      by (auto simp: queueAll.simps [of alg h] rto.queue rto.history split: list.split)
  }
qed

lemma oldestTwo_fields:
  assumes "distinct (sph_packetHistory h)"
  shows "sph_packetHistory (retransmitOldestTwoPackets alg h) =
      filter (\<lambda>p. p \<notin> set (take 2 (sph_packetHistory h))) (sph_packetHistory h)"
    "sph_retransmissionQueue (retransmitOldestTwoPackets alg h) =
      sph_retransmissionQueue h @ take 2 (sph_packetHistory h)"
proof -
  have f: "filter (\<lambda>r. r \<noteq> p \<and> r \<noteq> q) ps = ps" if "p \<notin> set ps" "q \<notin> set ps" for p q and ps :: "Packet list"
    using that by (auto simp: filter_id_conv)
  consider "sph_packetHistory h = []" | p where "sph_packetHistory h = [p]"
    | p q ps where "sph_packetHistory h = p # q # ps" by (cases "sph_packetHistory h" rule: remdups_adj.cases) auto
  then show "sph_packetHistory (retransmitOldestTwoPackets alg h) =
      filter (\<lambda>p. p \<notin> set (take 2 (sph_packetHistory h))) (sph_packetHistory h)"
    "sph_retransmissionQueue (retransmitOldestTwoPackets alg h) =
      sph_retransmissionQueue h @ take 2 (sph_packetHistory h)"
    using assms
    by (cases; auto simp: retransmitOldestTwoPackets_def retransmitOldestPacket_def retransmissionTimeout_def
        rto.history rto.queue numeral_2_eq_2 f)+
qed

text \<open>
  C16: What the retransmission alarm does.  When no early-retransmit timer runs, the alarm
  moves packets from flight to the retransmission queue: the newest packet for the first
  two tail loss probes, then everything if the path reports itself as potentially failed,
  and the two oldest packets otherwise.  So at least one packet is retransmitted on each
  alarm.  The condition is that some packet in flight is retransmittable for
  \<open>Packet.IsRetransmittable\<close>; packets that only carry CLOSE_PATH or CONNECTION_CLOSE
  frames do not count, and when only such packets are in flight the alarm is cancelled
  and nothing is retransmitted, although the handler tracks them as retransmittable.
\<close>

theorem OnAlarm_retransmits:
  fixes alg :: "'c SendAlgorithm" and h :: "'c sentPacketHandler" and now :: time
    and onRTOCallback :: "(time \<Rightarrow> bool) option"
  assumes "sph_reachable alg h" "sph_lossTime h = 0"
  defines "h' \<equiv> OnAlarm alg onRTOCallback now h"
    and "moved \<equiv> (if sph_tlpCount h < 2 then [last (sph_packetHistory h)]
      else if (case onRTOCallback of Some cb \<Rightarrow> cb (sph_lastSentTime h) | None \<Rightarrow> False)
      then sph_packetHistory h else take 2 (sph_packetHistory h))"
  shows "if list_ex IsRetransmittable (sph_packetHistory h)
         then sph_retransmissionQueue h' = sph_retransmissionQueue h @ moved \<and> moved \<noteq> [] \<and>
           sph_packetHistory h' = filter (\<lambda>p. p \<notin> set moved) (sph_packetHistory h)
         else h' = h\<lparr>sph_alarm := 0\<rparr>"
proof (cases "list_ex IsRetransmittable (sph_packetHistory h)")
  case True
  have ne: "sph_packetHistory h \<noteq> []" using True by auto
  have d: "distinct (sph_packetHistory h)" by (rule inv_distinct [OF reachable_inv [OF assms(1)]])
  let ?failed = "case onRTOCallback of Some cb \<Rightarrow> cb (sph_lastSentTime h) | None \<Rightarrow> False"
  have t: "sph_packetHistory (retransmitTLP h) = filter (\<lambda>p. p \<notin> {last (sph_packetHistory h)}) (sph_packetHistory h)"
    "sph_retransmissionQueue (retransmitTLP h) = sph_retransmissionQueue h @ [last (sph_packetHistory h)]"
    using ne d by (simp_all add: retransmitTLP_def tlp.history tlp.queue remove1_filter)
  have a: "sph_packetHistory (retransmitAllPackets alg h) = filter (\<lambda>p. p \<notin> set (sph_packetHistory h)) (sph_packetHistory h)"
    "sph_retransmissionQueue (retransmitAllPackets alg h) = sph_retransmissionQueue h @ sph_packetHistory h"
    by (simp_all add: retransmitAllPackets_def retransmissionTimeout_def queueAll_fields)
  have h': "h' = updateLossDetectionAlarm alg
      (if sph_tlpCount h < 2 then (retransmitTLP h)\<lparr>sph_tlpCount := sph_tlpCount (retransmitTLP h) + 1\<rparr>
       else let h = (if ?failed then retransmitAllPackets alg h else retransmitOldestTwoPackets alg h)
            in h\<lparr>sph_rtoCount := sph_rtoCount h + 1\<rparr>)"
    using True assms(2) by (simp add: h'_def OnAlarm_def hasOutstandingRetransmittablePacket_def Let_def)
  show ?thesis unfolding if_P [OF True] h' moved_def using ne
    by (simp add: updateLossDetectionAlarm_def Let_def t a oldestTwo_fields [OF d])
next
  case False
  then show ?thesis by (simp add: h'_def OnAlarm_def hasOutstandingRetransmittablePacket_def)
qed

theorem OnAlarm_retransmits_witness:
  "sph_retransmissionQueue (OnAlarm openAlgorithm None 500 sentTwo) = [(pingPacket 3)\<lparr>pk_SendTime := 20\<rparr>]"
proof -
  have "sph_lossTime sentTwo = 0" "sph_tlpCount sentTwo = 0"
    by (simp_all add: sentTwo_def SentPacket_def NewSentPacketHandler_def sph_recordSent_def
        updateLossDetectionAlarm_def Let_def)
  then show ?thesis
    using OnAlarm_retransmits [OF sentTwo_reachable, of None 500]
    by (simp add: sentTwo_fields pingPacket_def IsRetransmittable_def)
qed

end
