(* ===== verification/PacketNumbers.thy ===== *)
theory PacketNumbers
  imports Protocol
begin

text \<open>
  The packet number generator of a path (\<open>packet_number_generator.go\<close>).  The two bytes
  that \<open>crypto/rand\<close> returns, or its error, are an argument.
\<close>

record packetNumberGenerator =
  png_averagePeriod :: PacketNumber
  png_next :: PacketNumber
  png_nextToSkip :: PacketNumber

definition newPacketNumberGenerator :: "PacketNumber \<Rightarrow> packetNumberGenerator" where
  "newPacketNumberGenerator averagePeriod =
     \<lparr>png_averagePeriod = averagePeriod, png_next = 1, png_nextToSkip = 0\<rparr>"

definition png_Peek :: "packetNumberGenerator \<Rightarrow> PacketNumber" where
  "png_Peek p = png_next p"

definition getRandomNumber :: "(byte \<times> byte) result \<Rightarrow> u16 result" where
  "getRandomNumber rand = wbind rand (\<lambda>(b0, b1). Inr (push_bit 8 (ucast b0) + ucast b1))"

definition generateNewSkip ::
    "(byte \<times> byte) result \<Rightarrow> packetNumberGenerator \<Rightarrow> packetNumberGenerator \<times> go_error option" where
  "generateNewSkip rand p =
     (case getRandomNumber rand of
        Inl e \<Rightarrow> (p, Some e)
      | Inr num \<Rightarrow>
          let skip = ucast num * (png_averagePeriod p - 1) div (65535 div 2)
          in (p\<lparr>png_nextToSkip := png_next p + 2 + skip\<rparr>, None))"

definition png_Pop :: "(byte \<times> byte) result \<Rightarrow> packetNumberGenerator \<Rightarrow> packetNumberGenerator \<times> PacketNumber" where
  "png_Pop rand p =
     (let next = png_next p;
          p = p\<lparr>png_next := png_next p + 1\<rparr>
      in if png_next p = png_nextToSkip p
         then (fst (generateNewSkip rand (p\<lparr>png_next := png_next p + 1\<rparr>)), next)
         else (p, next))"

text \<open>A sequence of packets, with the random bytes that each call would get.\<close>

fun png_run :: "(byte \<times> byte) result list \<Rightarrow> packetNumberGenerator \<Rightarrow> packetNumberGenerator \<times> PacketNumber list" where
  "png_run [] p = (p, [])"
| "png_run (rand # rs) p =
     (case png_Pop rand p of (p, n) \<Rightarrow> (case png_run rs p of (p, ns) \<Rightarrow> (p, n # ns)))"

lemma word_of_nat_neq_0: "0 < k \<Longrightarrow> k < 2 ^ 64 \<Longrightarrow> (word_of_nat k :: PacketNumber) \<noteq> 0"
  by (simp add: word_of_nat_eq_0_iff nat_dvd_not_less)

lemma png_run_no_skip:
  assumes "png_nextToSkip p = 0" "png_next p = word_of_nat k" "k + length rs < 2 ^ 64"
  shows "snd (png_run rs p) = map word_of_nat [k..<k + length rs]"
  using assms
proof (induction rs arbitrary: p k)
  case (Cons rand rs)
  let ?p = "p\<lparr>png_next := png_next p + 1\<rparr>"
  have nz: "(word_of_nat (Suc k) :: PacketNumber) \<noteq> 0" using Cons.prems(3) by (intro word_of_nat_neq_0) auto
  have nx: "png_next ?p = word_of_nat (Suc k)" using Cons.prems(2) by simp
  have pop: "png_Pop rand p = (?p, word_of_nat k)"
    using nz nx Cons.prems(1,2) by (simp add: png_Pop_def Let_def add.commute)
  have "snd (png_run rs ?p) = map word_of_nat [Suc k..<Suc k + length rs]"
    by (rule Cons.IH) (use Cons.prems nx in simp_all)
  moreover have "[k..<k + length (rand # rs)] = k # [Suc k..<Suc k + length rs]" by (simp add: upt_conv_Cons del: upt_Suc)
  ultimately show ?case by (simp add: pop case_prod_unfold)
qed simp

text \<open>A drawn number lies at least two above the next one.\<close>

lemma generateNewSkip_gap:
  assumes "generateNewSkip rand p = (p', None)" "0 < png_averagePeriod p" "unat (png_averagePeriod p) < 2 ^ 32"
    "unat (png_next p) < 2 ^ 63"
  shows "unat (png_next p) + 2 \<le> unat (png_nextToSkip p')"
proof -
  obtain num :: u16 where p': "png_nextToSkip p' = png_next p + 2 + ucast num * (png_averagePeriod p - 1) div (65535 div 2)"
    using assms(1) by (auto simp: generateNewSkip_def Let_def split: sum.splits)
  define skip where "skip = ucast num * (png_averagePeriod p - 1) div (65535 div 2)"
  have n: "unat (ucast num :: u64) < 2 ^ 16" using unsigned_less [of num, where 'a = nat] by (simp add: unat_ucast_up)
  have q: "unat (png_averagePeriod p - 1) < 2 ^ 32" using assms(2,3) by (simp add: unat_sub_if' word_less_nat_alt)
  have b: "unat (ucast num :: u64) * unat (png_averagePeriod p - 1) < 2 ^ 16 * 2 ^ 32"
    using n q by (intro mult_strict_mono') auto
  then have "unat (ucast num * (png_averagePeriod p - 1)) < 2 ^ 48" by (simp add: unat_word_ariths)
  then have "unat skip < 2 ^ 48" unfolding skip_def unat_div by (meson div_le_dividend le_less_trans)
  then have "unat (png_next p + 2 + skip) = unat (png_next p) + 2 + unat skip"
    using assms(4) by (simp add: unat_word_ariths)
  then show ?thesis by (simp add: p' skip_def)
qed

text \<open>
  C28: A path never skips a packet number.  From a new generator, whatever the random
  source returns, the first \<open>n\<close> packets get the numbers 1 to \<open>n\<close>: the number to skip is
  zero in a new generator and is only drawn after a skip, which therefore never happens
  before the numbers wrap around.  Where a number to skip is drawn, it is at least two
  above the next number, so that two consecutive numbers would never be skipped.
\<close>

theorem generator_never_skips:
  assumes "length rs < 2 ^ 64 - 1"
  shows "snd (png_run rs (newPacketNumberGenerator period)) = map word_of_nat [1..<length rs + 1] \<and>
    (\<forall>rand p p'. generateNewSkip rand p = (p', None) \<and> 0 < png_averagePeriod p \<and>
       unat (png_averagePeriod p) < 2 ^ 32 \<and> unat (png_next p) < 2 ^ 63 \<longrightarrow>
       unat (png_next p) + 2 \<le> unat (png_nextToSkip p'))"
proof -
  have "snd (png_run rs (newPacketNumberGenerator period)) = map word_of_nat [1..<1 + length rs]"
    by (rule png_run_no_skip) (use assms in \<open>simp_all add: newPacketNumberGenerator_def\<close>)
  then show ?thesis using generateNewSkip_gap by auto
qed

theorem generator_never_skips_witness:
  "snd (png_run [Inr (1, 2), Inl (GoError ''EOF''), Inr (255, 255)] (newPacketNumberGenerator 500)) = [1, 2, 3]"
  using generator_never_skips [of "[Inr (1, 2), Inl (GoError ''EOF''), Inr (255, 255)]" 500] by (simp add: upt_rec)

end
