(* ===== verification/StreamSorter.thy ===== *)
theory StreamSorter
  imports StreamFrames Utils
begin

text \<open>
  Reassembly of the data of a stream (\<open>stream_frame_sorter.go\<close>): frames arrive in any
  order, repeated and overlapping; the sorter keeps the frames it will hand out, keyed
  by their offset, and the list of the byte intervals that are still missing.  The
  generated linked list of gaps is a list; the loops walk it from the front.  The
  second half states the invariant of gaps and queued frames and shows what the search for
  gaps and their filling do to it.
\<close>

section \<open>The sorter\<close>

type_synonym queued_frames = "ByteCount \<rightharpoonup> StreamFrame"

record streamFrameSorter =
  ss_queuedFrames :: queued_frames
  ss_readPosition :: ByteCount
  ss_gaps :: "ByteInterval list"

definition errTooManyGapsInReceivedStreamData :: go_error where
  "errTooManyGapsInReceivedStreamData = GoError ''Too many gaps in received StreamFrame data''"
definition errDuplicateStreamData :: go_error where
  "errDuplicateStreamData = GoError ''Duplicate Stream Data''"
abbreviation (input) errEmptyStreamData :: go_error where
  "errEmptyStreamData \<equiv> GoError ''Stream Data empty''"

definition newStreamFrameSorter :: streamFrameSorter where
  "newStreamFrameSorter =
     \<lparr>ss_queuedFrames = Map.empty, ss_readPosition = 0,
      ss_gaps = [\<lparr>bi_Start = 0, bi_End = MaxByteCount\<rparr>]\<rparr>"

definition cutFront :: "ByteCount \<Rightarrow> StreamFrame \<Rightarrow> StreamFrame" where
  "cutFront n frame = frame\<lparr>sf_Data := drop (unat n) (sf_Data frame), sf_Offset := sf_Offset frame + n\<rparr>"

definition cutBack :: "ByteCount \<Rightarrow> StreamFrame \<Rightarrow> StreamFrame" where
  "cutBack cutLen frame =
     frame\<lparr>sf_Data := take (unat (StreamFrame_DataLen frame - cutLen)) (sf_Data frame)\<rparr>"

text \<open>The first gap that the frame can touch, with the gaps before and after it.\<close>

fun findGap :: "ByteCount \<Rightarrow> ByteCount \<Rightarrow> ByteInterval list \<Rightarrow>
    (ByteInterval list \<times> ByteInterval \<times> ByteInterval list) result" where
  "findGap start end [] = Inl (GoError ''StreamFrameSorter BUG: no gap found'')"
| "findGap start end (gap # gaps) =
     (if end \<le> bi_Start gap then Inl errDuplicateStreamData
      else if end > bi_Start gap \<and> start \<le> bi_End gap then Inr ([], gap, gaps)
      else wbind (findGap start end gaps) (\<lambda>(pre, g, post). Inr (gap # pre, g, post)))"

text \<open>
  The search for the gap in which the frame ends: whether it was found, whether it is the
  gap where the frame starts, whether it is still in the list, the gap, the gaps behind
  it, and the queued frames without those that were deleted on the way.
\<close>

fun findEndGap :: "ByteCount \<Rightarrow> bool \<Rightarrow> ByteInterval \<Rightarrow> ByteInterval list \<Rightarrow> queued_frames \<Rightarrow>
    bool \<times> bool \<times> bool \<times> ByteInterval \<times> ByteInterval list \<times> queued_frames" where
  "findEndGap end same endGap [] q =
     (if end \<ge> bi_End endGap then (False, same, True, endGap, [], q)
      else (True, same, True, endGap, [], q))"
| "findEndGap end same endGap (nextEndGap # gaps) q =
     (if end \<ge> bi_End endGap
      then if end \<le> bi_Start nextEndGap then (True, same, same, endGap, nextEndGap # gaps, q)
           else findEndGap end False nextEndGap gaps (q(bi_End endGap := None))
      else (True, same, True, endGap, nextEndGap # gaps, q))"

text \<open>What is left of the two gaps when the bytes from \<open>start\<close> to \<open>end\<close> are filled.\<close>

definition fillGaps :: "ByteCount \<Rightarrow> ByteCount \<Rightarrow> ByteInterval \<Rightarrow> bool \<Rightarrow> bool \<Rightarrow> ByteInterval \<Rightarrow> ByteInterval list" where
  "fillGaps start end gap same inList endGap =
     (if start = bi_Start gap
      then if same then if end \<ge> bi_End gap then [] else [gap\<lparr>bi_Start := end\<rparr>]
           else (if end \<ge> bi_End gap then [] else [gap]) @
                (if inList then [if end < bi_End endGap then endGap\<lparr>bi_Start := end\<rparr> else endGap] else [])
      else if end = bi_End endGap
      then gap\<lparr>bi_End := start\<rparr> # (if \<not> same \<and> inList then [endGap] else [])
      else if same then [gap\<lparr>bi_End := start\<rparr>, \<lparr>bi_Start = end, bi_End = bi_End gap\<rparr>]
      else gap\<lparr>bi_End := start\<rparr> # (if inList then [endGap\<lparr>bi_Start := end\<rparr>] else []))"

text \<open>The part of \<open>Push\<close> behind the search for the first gap.\<close>

definition insertFrame :: "StreamFrame \<Rightarrow> ByteCount \<Rightarrow> ByteInterval list \<Rightarrow> ByteInterval \<Rightarrow> ByteInterval list \<Rightarrow>
    streamFrameSorter \<Rightarrow> streamFrameSorter \<times> go_error option" where
  "insertFrame frame end pre gap post s =
     (let frame = (if sf_Offset frame < bi_Start gap then cutFront (bi_Start gap - sf_Offset frame) frame else frame);
          start = sf_Offset frame
      in case findEndGap end True gap post (ss_queuedFrames s) of
           (False, same, inList, endGap, rest, q) \<Rightarrow>
             (s\<lparr>ss_queuedFrames := q, ss_gaps := pre @ gap # (if same then [] else [endGap])\<rparr>,
              Some (GoError ''StreamFrameSorter BUG: no end gap found''))
         | (True, same, inList, endGap, rest, q) \<Rightarrow>
             let cut = end > bi_End endGap;
                 frame = (if cut then cutBack (end - bi_End endGap) frame else frame);
                 end = (if cut then bi_End endGap else end);
                 gaps = pre @ fillGaps start end gap same inList endGap @ rest
             in if length gaps > MaxStreamFrameSorterGaps
                then (s\<lparr>ss_queuedFrames := q, ss_gaps := gaps\<rparr>, Some errTooManyGapsInReceivedStreamData)
                else (s\<lparr>ss_queuedFrames := q(start \<mapsto> frame), ss_gaps := gaps\<rparr>, None))"

definition pushData :: "StreamFrame \<Rightarrow> streamFrameSorter \<Rightarrow> streamFrameSorter \<times> go_error option" where
  "pushData frame s =
     (let end = sf_Offset frame + StreamFrame_DataLen frame
      in case findGap (sf_Offset frame) end (ss_gaps s) of
           Inl e \<Rightarrow> (s, Some e)
         | Inr (pre, gap, post) \<Rightarrow> insertFrame frame end pre gap post s)"

definition sorter_Push :: "StreamFrame \<Rightarrow> streamFrameSorter \<Rightarrow> streamFrameSorter \<times> go_error option" where
  "sorter_Push frame s =
     (if StreamFrame_DataLen frame = 0
      then if sf_FinBit frame
           then (s\<lparr>ss_queuedFrames := (ss_queuedFrames s)(sf_Offset frame \<mapsto> frame)\<rparr>, None)
           else (s, Some errEmptyStreamData)
      else case ss_queuedFrames s (sf_Offset frame) of
             Some oldFrame \<Rightarrow>
               if StreamFrame_DataLen frame \<le> StreamFrame_DataLen oldFrame
               then (s, Some errDuplicateStreamData)
               else pushData (cutFront (StreamFrame_DataLen oldFrame) frame) s
           | None \<Rightarrow> pushData frame s)"

definition sorter_Head :: "streamFrameSorter \<Rightarrow> StreamFrame option" where
  "sorter_Head s = ss_queuedFrames s (ss_readPosition s)"

definition sorter_Pop :: "streamFrameSorter \<Rightarrow> streamFrameSorter \<times> StreamFrame option" where
  "sorter_Pop s =
     (case sorter_Head s of
        Some frame \<Rightarrow>
          (s\<lparr>ss_readPosition := ss_readPosition s + StreamFrame_DataLen frame,
             ss_queuedFrames := (ss_queuedFrames s)(sf_Offset frame := None)\<rparr>, Some frame)
      | None \<Rightarrow> (s, None))"

section \<open>Frames of one stream\<close>

text \<open>The frame carries the bytes of the stream \<open>data\<close> at its offset.\<close>

definition frame_at :: "(nat \<Rightarrow> byte) \<Rightarrow> StreamFrame \<Rightarrow> bool" where
  "frame_at data f \<longleftrightarrow> sf_Data f \<noteq> [] \<and> unat (sf_Offset f) + length (sf_Data f) < 2 ^ 64 - 1 \<and>
     sf_Data f = map data [unat (sf_Offset f)..<unat (sf_Offset f) + length (sf_Data f)]"

definition frame_end :: "StreamFrame \<Rightarrow> ByteCount" where
  "frame_end f = sf_Offset f + StreamFrame_DataLen f"

lemma unat_DataLen: "frame_at data f \<Longrightarrow> unat (StreamFrame_DataLen f) = length (sf_Data f)"
  by (simp add: StreamFrame_DataLen_def frame_at_def unat_of_nat)

lemma unat_frame_end: "frame_at data f \<Longrightarrow> unat (frame_end f) = unat (sf_Offset f) + length (sf_Data f)"
  unfolding frame_end_def by (subst unat_plus_if') (auto simp: unat_DataLen frame_at_def)

lemma frame_nonempty: "frame_at data f \<Longrightarrow> sf_Offset f < frame_end f"
  by (simp add: word_less_nat_alt unat_frame_end) (simp add: frame_at_def)

lemma frame_below_max: "frame_at data f \<Longrightarrow> frame_end f < MaxByteCount"
  by (simp add: word_less_nat_alt unat_frame_end MaxByteCount_def unsigned_minus_1_eq_mask mask_eq_exp_minus_1)
    (simp add: frame_at_def)

lemma cutFront_ok:
  assumes "frame_at data f" "unat (sf_Offset f) + unat n < unat (frame_end f)"
  shows "frame_at data (cutFront n f)" "sf_Offset (cutFront n f) = sf_Offset f + n"
    "frame_end (cutFront n f) = frame_end f" "unat (sf_Offset (cutFront n f)) = unat (sf_Offset f) + unat n"
proof -
  have n: "unat n < length (sf_Data f)" using assms unat_frame_end [OF assms(1)] by simp
  have o: "unat (sf_Offset f + n) = unat (sf_Offset f) + unat n"
    using n assms(1) by (subst unat_plus_if') (auto simp: frame_at_def)
  have d: "drop (unat n) (sf_Data f) = map data [unat (sf_Offset f) + unat n..<unat (sf_Offset f) + length (sf_Data f)]"
    using assms(1) unfolding frame_at_def by (metis drop_map drop_upt)
  have l: "unat (sf_Offset f) + unat n + (length (sf_Data f) - unat n) = unat (sf_Offset f) + length (sf_Data f)"
    using n by simp
  show a: "frame_at data (cutFront n f)"
    using n assms(1) d unfolding frame_at_def cutFront_def by (simp add: o l)
  show "sf_Offset (cutFront n f) = sf_Offset f + n" by (simp add: cutFront_def)
  show "unat (sf_Offset (cutFront n f)) = unat (sf_Offset f) + unat n" by (simp add: cutFront_def o)
  show "frame_end (cutFront n f) = frame_end f"
  proof (rule word_unat_eq_iff [THEN iffD2])
    show "unat (frame_end (cutFront n f)) = unat (frame_end f)"
      unfolding unat_frame_end [OF a] unat_frame_end [OF assms(1)] using n by (simp add: cutFront_def o)
  qed
qed

lemma cutBack_ok:
  assumes "frame_at data f" "sf_Offset f < e" "e \<le> frame_end f"
  shows "frame_at data (cutBack (frame_end f - e) f)" "sf_Offset (cutBack (frame_end f - e) f) = sf_Offset f"
    "frame_end (cutBack (frame_end f - e) f) = e"
proof -
  let ?k = "unat e - unat (sf_Offset f)"
  have u: "unat (frame_end f - e) = unat (frame_end f) - unat e" using assms(3) by (simp add: unat_sub)
  have k: "unat (StreamFrame_DataLen f - (frame_end f - e)) = ?k"
    using assms unat_frame_end [OF assms(1)] unat_DataLen [OF assms(1)]
    by (subst unat_sub) (auto simp: word_le_nat_alt u word_less_nat_alt)
  have lt: "0 < ?k" "?k \<le> length (sf_Data f)"
    using assms unat_frame_end [OF assms(1)] by (auto simp: word_le_nat_alt word_less_nat_alt)
  have d: "take ?k (sf_Data f) = map data [unat (sf_Offset f)..<unat (sf_Offset f) + ?k]"
  proof -
    have "sf_Data f = map data [unat (sf_Offset f)..<unat (sf_Offset f) + length (sf_Data f)]"
      using assms(1) by (simp add: frame_at_def)
    then have "take ?k (sf_Data f) = take ?k (map data [unat (sf_Offset f)..<unat (sf_Offset f) + length (sf_Data f)])"
      by (rule arg_cong)
    also have "\<dots> = map data [unat (sf_Offset f)..<unat (sf_Offset f) + ?k]" using lt(2) by (simp add: take_map take_upt)
    finally show ?thesis .
  qed
  show a: "frame_at data (cutBack (frame_end f - e) f)"
  proof -
    have "unat (sf_Offset f) + ?k < 2 ^ 64 - 1" using assms(1) lt(2) unfolding frame_at_def by linarith
    then show ?thesis using lt d unfolding frame_at_def cutBack_def by (simp add: k min_absorb2)
  qed
  show "sf_Offset (cutBack (frame_end f - e) f) = sf_Offset f" by (simp add: cutBack_def)
  show "frame_end (cutBack (frame_end f - e) f) = e"
  proof (rule word_unat_eq_iff [THEN iffD2])
    show "unat (frame_end (cutBack (frame_end f - e) f)) = unat e"
      unfolding unat_frame_end [OF a] using lt by (simp add: cutBack_def k min_absorb2)
  qed
qed

section \<open>Gaps\<close>

definition in_gap :: "ByteInterval list \<Rightarrow> ByteCount \<Rightarrow> bool" where
  "in_gap gs b \<longleftrightarrow> (\<exists>g\<in>set gs. bi_Start g \<le> b \<and> b < bi_End g)"

definition gaps_ok :: "ByteInterval list \<Rightarrow> bool" where
  "gaps_ok gs \<longleftrightarrow> gs \<noteq> [] \<and> (\<forall>g\<in>set gs. bi_Start g < bi_End g) \<and>
     sorted_wrt (\<lambda>g h. bi_End g < bi_Start h) gs \<and> bi_End (last gs) = MaxByteCount"

lemma in_gap_append [simp]: "in_gap (xs @ ys) b \<longleftrightarrow> in_gap xs b \<or> in_gap ys b"
  by (auto simp: in_gap_def)

lemma in_gap_Cons [simp]: "in_gap (g # gs) b \<longleftrightarrow> bi_Start g \<le> b \<and> b < bi_End g \<or> in_gap gs b"
  by (auto simp: in_gap_def)

lemma in_gap_Nil [simp]: "\<not> in_gap [] b"
  by (simp add: in_gap_def)

text \<open>A run of queued frames without holes from one position to another.\<close>

inductive chain :: "queued_frames \<Rightarrow> ByteCount \<Rightarrow> ByteCount \<Rightarrow> bool" for q where
  refl: "chain q a a"
| step: "q a = Some f \<Longrightarrow> a < frame_end f \<Longrightarrow> chain q (frame_end f) b \<Longrightarrow> chain q a b"

lemma chain_le: "chain q a b \<Longrightarrow> a \<le> b"
  by (induction rule: chain.induct) auto

lemma chain_trans: "chain q a b \<Longrightarrow> chain q b c \<Longrightarrow> chain q a c"
  by (induction rule: chain.induct) (auto intro: chain.step)

lemma chain_cong: "chain q a b \<Longrightarrow> (\<And>k. a \<le> k \<Longrightarrow> k < b \<Longrightarrow> q' k = q k) \<Longrightarrow> chain q' a b"
proof (induction rule: chain.induct)
  case (step a f b)
  have "a < b" using step(2) chain_le [OF step(3)] by simp
  then have "q' a = Some f" using step(1,5) by simp
  moreover have "chain q' (frame_end f) b" using step(2,4,5) by (meson less_imp_le order_trans)
  ultimately show ?case using step(2) by (auto intro: chain.step)
qed (rule chain.refl)

lemma chain_next: "chain q a b \<Longrightarrow> a < b \<Longrightarrow> \<exists>f. q a = Some f \<and> a < frame_end f \<and> chain q (frame_end f) b"
  by (auto elim: chain.cases)

text \<open>The frames between two neighbouring gaps run from the end of one to the start of the next.\<close>

abbreviation links :: "queued_frames \<Rightarrow> ByteInterval \<Rightarrow> ByteInterval \<Rightarrow> bool" where
  "links q g h \<equiv> chain q (bi_End g) (bi_Start h)"

definition read_gap :: "ByteCount \<Rightarrow> ByteInterval" where
  "read_gap p = \<lparr>bi_Start = 0, bi_End = p\<rparr>"

definition queued_ok :: "(nat \<Rightarrow> byte) \<Rightarrow> queued_frames \<Rightarrow> ByteInterval list \<Rightarrow> bool" where
  "queued_ok data q gs \<longleftrightarrow>
     (\<forall>k f. q k = Some f \<longrightarrow> sf_Offset f = k \<and> frame_at data f \<and>
        (\<forall>b. k \<le> b \<and> b < frame_end f \<longrightarrow> \<not> in_gap gs b))"

definition sorter_inv :: "(nat \<Rightarrow> byte) \<Rightarrow> streamFrameSorter \<Rightarrow> bool" where
  "sorter_inv data s \<longleftrightarrow> gaps_ok (ss_gaps s) \<and> queued_ok data (ss_queuedFrames s) (ss_gaps s) \<and>
     successively (links (ss_queuedFrames s)) (read_gap (ss_readPosition s) # ss_gaps s)"

section \<open>Finding the gaps of a frame\<close>

lemma findGap_Inr:
  "findGap start e gs = Inr (pre, gap, post) \<Longrightarrow>
   gs = pre @ gap # post \<and> bi_Start gap < e \<and> start \<le> bi_End gap \<and> (\<forall>g\<in>set pre. bi_End g < start)"
proof (induction gs arbitrary: pre)
  case (Cons g gs)
  then show ?case by (fastforce simp: wbind_eq_Inr not_le split: if_splits)
qed simp

lemma findGap_Inl:
  assumes "findGap start e gs = Inl err" "gaps_ok gs" "start < e" "e < MaxByteCount"
  shows "err = errDuplicateStreamData \<and> (\<forall>b. start \<le> b \<and> b < e \<longrightarrow> \<not> in_gap gs b)"
  using assms
proof (induction gs)
  case (Cons g gs)
  show ?case
  proof (cases "e \<le> bi_Start g")
    case True
    have "bi_Start g \<le> bi_Start h" if "h \<in> set gs" for h
      using Cons.prems(2) that by (auto simp: gaps_ok_def intro: less_imp_le order_trans)
    then show ?thesis using True Cons.prems(1) by (fastforce simp: in_gap_def)
  next
    case False
    then have s: "bi_End g < start" and f: "findGap start e gs = Inl err"
      using Cons.prems(1) by (auto simp: wbind_def not_le split: if_splits sum.splits)
    have "gs \<noteq> []" using Cons.prems(2,3,4) s by (auto simp: gaps_ok_def)
    then have "gaps_ok gs" using Cons.prems(2) by (auto simp: gaps_ok_def)
    from Cons.IH [OF f this Cons.prems(3,4)] show ?thesis using s by auto
  qed
qed (simp add: gaps_ok_def)

text \<open>What the search for the end gap finds; \<open>mid\<close> are the gaps that the frame covers.\<close>

lemma findEndGap_spec:
  assumes "findEndGap e same g post q = (found, same', inList, eg, rest, q')" "gaps_ok (g # post)" "e < MaxByteCount"
    "bi_Start g < e"
  shows "\<exists>mid. found \<and> bi_Start eg < e \<and> g # post = mid @ eg # rest \<and> same' = (same \<and> mid = []) \<and>
    (\<forall>k. q' k \<noteq> q k \<longrightarrow> q' k = None \<and> bi_End g \<le> k \<and> k < bi_Start eg) \<and>
    (if e < bi_End eg then inList else inList = same' \<and> rest \<noteq> [] \<and> e \<le> bi_Start (hd rest))"
  using assms
proof (induction e same g post q rule: findEndGap.induct)
  case (1 e same g q)
  then show ?case by (auto simp: gaps_ok_def not_le split: if_splits)
next
  case (2 e same g n gs q)
  have ok: "gaps_ok (n # gs)" "bi_End g < bi_Start n" "bi_Start n < bi_End n" using "2.prems"(2) by (auto simp: gaps_ok_def)
  show ?case
  proof (cases "bi_End g \<le> e \<and> \<not> e \<le> bi_Start n")
    case True
    then have f: "findEndGap e False n gs (q(bi_End g := None)) = (found, same', inList, eg, rest, q')"
      using "2.prems"(1) by simp
    have n: "bi_Start n < e" using True by (simp add: not_le)
    obtain mid where m: "found" "bi_Start eg < e" "n # gs = mid @ eg # rest" "\<not> same'"
      "\<forall>k. q' k \<noteq> (q(bi_End g := None)) k \<longrightarrow> q' k = None \<and> bi_End n \<le> k \<and> k < bi_Start eg"
      "if e < bi_End eg then inList else inList = same' \<and> rest \<noteq> [] \<and> e \<le> bi_Start (hd rest)"
      using "2.IH" [OF _ _ f ok(1) "2.prems"(3) n] True by auto
    have st: "bi_Start n \<le> bi_Start eg"
    proof (cases mid)
      case (Cons x xs)
      then have "bi_End n < bi_Start eg" using ok(1) m(3) by (auto simp: gaps_ok_def)
      then show ?thesis using ok(3) by simp
    qed (use m(3) in simp)
    have "q' k = None \<and> bi_End g \<le> k \<and> k < bi_Start eg" if "q' k \<noteq> q k" for k
    proof (cases "k = bi_End g")
      case True
      then have "q' k = None" using m(5) [rule_format, of "bi_End g"] by (cases "q' k = None") auto
      then show ?thesis using True ok(2) st by simp
    next
      case False
      then have "q' k = None \<and> bi_End n \<le> k \<and> k < bi_Start eg" using m(5) that by simp
      then show ?thesis using ok(2,3) by (meson less_imp_le less_le_trans)
    qed
    then show ?thesis using m by (intro exI [of _ "g # mid"]) simp
  next
    case False
    then show ?thesis using "2.prems" by (intro exI [of _ "[]"]) (auto simp: not_le split: if_splits)
  qed
qed

section \<open>Filling the gaps\<close>

text \<open>
  The situation when a frame with the bytes from \<open>start\<close> to \<open>e\<close> has been placed: it starts
  in \<open>gap\<close> and ends in or behind \<open>eg\<close>, before the gaps \<open>rest\<close>.
\<close>

definition placed :: "ByteInterval list \<Rightarrow> ByteInterval \<Rightarrow> ByteInterval list \<Rightarrow> ByteInterval \<Rightarrow> ByteInterval list \<Rightarrow>
    bool \<Rightarrow> ByteCount \<Rightarrow> ByteCount \<Rightarrow> bool" where
  "placed pre gap mid eg rest inList start e \<longleftrightarrow>
     gaps_ok (pre @ mid @ eg # rest) \<and> gap = hd (mid @ [eg]) \<and>
     bi_Start gap \<le> start \<and> start < bi_End gap \<and> start < e \<and> bi_Start eg < e \<and>
     (if e < bi_End eg then inList else inList = (mid = []) \<and> rest \<noteq> [] \<and> e \<le> bi_Start (hd rest))"

lemma placed_mid:
  assumes "placed pre gap mid eg rest inList start e" "mid \<noteq> []"
  shows "bi_End gap < bi_Start eg" "bi_End gap < min e (bi_End eg)"
proof -
  obtain xs where m: "mid = gap # xs" using assms by (cases mid) (auto simp: placed_def)
  have "bi_End gap < bi_Start eg" "bi_Start eg < bi_End eg" "bi_Start eg < e"
    using assms(1) m by (auto simp: placed_def gaps_ok_def sorted_wrt_append)
  then show "bi_End gap < bi_Start eg" "bi_End gap < min e (bi_End eg)" by auto
qed

lemma fillGaps_eq:
  assumes "placed pre gap mid eg rest inList start e"
  defines "e' \<equiv> min e (bi_End eg)"
  shows "fillGaps start e' gap (mid = []) inList eg =
    (if start = bi_Start gap then [] else [gap\<lparr>bi_End := start\<rparr>]) @
    (if e < bi_End eg then [\<lparr>bi_Start = e, bi_End = bi_End eg\<rparr>] else [])"
proof (cases "mid = []")
  case True
  then have g: "gap = eg" using assms(1) by (simp add: placed_def)
  show ?thesis
  proof (cases "e < bi_End eg")
    case lt: True
    then show ?thesis using True g by (auto simp: fillGaps_def e'_def min_def dest: leD)
  next
    case False
    then have "e' = bi_End eg" by (simp add: e'_def)
    then show ?thesis using True g False by (simp add: fillGaps_def)
  qed
next
  case False
  note p = placed_mid [OF assms(1) False]
  show ?thesis
  proof (cases "e < bi_End eg")
    case lt: True
    then have "inList" "e' = e" using assms(1) by (auto simp: placed_def e'_def)
    then show ?thesis using p lt False by (simp add: fillGaps_def e'_def less_imp_le)
  next
    case nlt: False
    then have "\<not> inList" "e' = bi_End eg" using assms(1) False by (auto simp: placed_def e'_def)
    then show ?thesis using p nlt False by (simp add: fillGaps_def e'_def less_imp_le)
  qed
qed

definition newGaps :: "ByteInterval list \<Rightarrow> ByteInterval \<Rightarrow> ByteInterval \<Rightarrow> ByteInterval list \<Rightarrow>
    ByteCount \<Rightarrow> ByteCount \<Rightarrow> ByteInterval list" where
  "newGaps pre gap eg rest start e =
     pre @ (if start = bi_Start gap then [] else [gap\<lparr>bi_End := start\<rparr>]) @
     (if e < bi_End eg then [\<lparr>bi_Start = e, bi_End = bi_End eg\<rparr>] else []) @ rest"

lemma placed_order:
  assumes "placed pre gap mid eg rest inList start e"
  shows "\<forall>g\<in>set pre. bi_End g < bi_Start gap" "\<forall>g\<in>set rest. bi_End eg < bi_Start g"
    "bi_Start gap < bi_End gap" "bi_Start eg < bi_End eg" "bi_Start gap \<le> bi_Start eg"
    "\<forall>g\<in>set rest. e \<le> bi_Start g" "bi_End gap \<le> bi_End eg"
    "\<forall>g\<in>set pre. bi_Start g < bi_Start gap" "\<forall>g\<in>set rest. bi_End eg < bi_End g"
proof -
  have ok: "gaps_ok (pre @ mid @ eg # rest)" using assms by (simp add: placed_def)
  have gm: "gap \<in> set (mid @ [eg])" using assms by (cases mid) (auto simp: placed_def)
  show "\<forall>g\<in>set pre. bi_End g < bi_Start gap" "\<forall>g\<in>set rest. bi_End eg < bi_Start g"
    using ok gm by (auto simp: gaps_ok_def sorted_wrt_append)
  have "\<forall>g\<in>set pre. bi_Start g < bi_End g" using ok by (auto simp: gaps_ok_def)
  then show "\<forall>g\<in>set pre. bi_Start g < bi_Start gap"
    using \<open>\<forall>g\<in>set pre. bi_End g < bi_Start gap\<close> by (meson less_trans)
  have "\<forall>g\<in>set rest. bi_Start g < bi_End g" using ok by (auto simp: gaps_ok_def)
  then show "\<forall>g\<in>set rest. bi_End eg < bi_End g"
    using \<open>\<forall>g\<in>set rest. bi_End eg < bi_Start g\<close> by (meson less_trans)
  show s: "bi_Start gap < bi_End gap" "bi_Start eg < bi_End eg" using ok gm by (auto simp: gaps_ok_def)
  show "bi_Start gap \<le> bi_Start eg" "bi_End gap \<le> bi_End eg"
    using placed_mid [OF assms] assms s by (cases "mid = []"; force simp: placed_def)+
  show "\<forall>g\<in>set rest. e \<le> bi_Start g"
  proof (cases "e < bi_End eg")
    case True
    then show ?thesis using \<open>\<forall>g\<in>set rest. bi_End eg < bi_Start g\<close> by (meson less_imp_le less_trans)
  next
    case False
    then obtain r rs where r: "rest = r # rs" "e \<le> bi_Start r" using assms by (cases rest) (auto simp: placed_def)
    have "bi_Start r \<le> bi_Start g" if "g \<in> set rs" for g
      using ok r that by (auto simp: gaps_ok_def sorted_wrt_append intro: less_imp_le order_trans)
    then show ?thesis using r by (auto intro: order_trans)
  qed
qed

lemma newGaps_ok:
  assumes "placed pre gap mid eg rest inList start e"
  shows "gaps_ok (newGaps pre gap eg rest start e)"
proof -
  note o = placed_order [OF assms]
  have p: "start < e" "bi_Start gap \<le> start" "start < bi_End gap" "e < bi_End eg \<or> rest \<noteq> []"
    using assms by (auto simp: placed_def split: if_splits)
  have ok: "gaps_ok (pre @ mid @ eg # rest)" using assms by (simp add: placed_def)
  have pr: "\<forall>g\<in>set pre. \<forall>h\<in>set rest. bi_End g < bi_Start h" "sorted_wrt (\<lambda>g h. bi_End g < bi_Start h) pre"
    "sorted_wrt (\<lambda>g h. bi_End g < bi_Start h) rest" "\<forall>g\<in>set pre \<union> set rest. bi_Start g < bi_End g"
    "rest \<noteq> [] \<Longrightarrow> bi_End (last rest) = MaxByteCount" "rest = [] \<Longrightarrow> bi_End eg = MaxByteCount"
    using ok by (auto simp: gaps_ok_def sorted_wrt_append)
  have "\<forall>g\<in>set pre. bi_End g < e" using o(1) p by (meson less_trans le_less_trans less_le_trans)
  moreover have "\<forall>g\<in>set rest. start < bi_Start g" using o(6) p(1) by (meson less_le_trans)
  ultimately show ?thesis using p pr o
    by (auto simp: gaps_ok_def newGaps_def sorted_wrt_append)
qed

lemma in_gap_newGaps:
  assumes "placed pre gap mid eg rest inList start e"
  shows "in_gap (newGaps pre gap eg rest start e) b \<longleftrightarrow>
    in_gap (pre @ mid @ eg # rest) b \<and> \<not> (start \<le> b \<and> b < e)"
proof -
  note o = placed_order [OF assms]
  have p: "start < e" "bi_Start gap \<le> start" "start < bi_End gap" "bi_Start eg < e" "gap \<in> set (mid @ [eg])"
    using assms by (cases mid; auto simp: placed_def)+
  have low: "\<forall>g\<in>set (mid @ [eg]). g = gap \<or> bi_End gap < bi_Start g"
    and high: "\<forall>g\<in>set (mid @ [eg]). g = eg \<or> bi_End g < bi_Start eg"
    using assms by (cases mid; auto simp: placed_def gaps_ok_def sorted_wrt_append)+
  have m: "in_gap (mid @ [eg]) b \<and> \<not> (start \<le> b \<and> b < e) \<longleftrightarrow>
      bi_Start gap \<le> b \<and> b < start \<or> e \<le> b \<and> b < bi_End eg" (is "?l \<longleftrightarrow> ?r")
  proof
    assume l: ?l
    then obtain g where g: "g \<in> set (mid @ [eg])" "bi_Start g \<le> b" "b < bi_End g" by (auto simp: in_gap_def)
    show ?r
    proof (cases "b < start")
      case True
      then have "\<not> bi_End gap < bi_Start g" using g p(3) by (meson less_trans le_less_trans less_asym)
      then show ?thesis using low g True by auto
    next
      case False
      then have e: "e \<le> b" using l by (simp add: not_less)
      then have "\<not> bi_End g < bi_Start eg" using g p(4) by (meson less_trans le_less_trans less_asym)
      then show ?thesis using high g e by auto
    qed
  next
    assume ?r
    then show ?l
    proof
      assume "bi_Start gap \<le> b \<and> b < start"
      then show ?l using p(3,5) unfolding in_gap_def by (meson leD less_trans)
    next
      assume "e \<le> b \<and> b < bi_End eg"
      then show ?l using p(4) unfolding in_gap_def by (auto dest: leD intro: less_imp_le less_le_trans)
    qed
  qed
  have pre: "in_gap pre b \<Longrightarrow> \<not> start \<le> b" and rest: "in_gap rest b \<Longrightarrow> \<not> b < e"
    using o(1,6) p(2) unfolding in_gap_def by (meson leD less_trans le_less_trans less_le_trans)+
  have "in_gap (newGaps pre gap eg rest start e) b \<longleftrightarrow>
      in_gap pre b \<or> (bi_Start gap \<le> b \<and> b < start \<or> e \<le> b \<and> b < bi_End eg) \<or> in_gap rest b"
    by (auto simp: newGaps_def)
  then show ?thesis using m pre rest by auto
qed

lemma newGaps_links:
  assumes p: "placed pre gap mid eg rest inList start e"
    and l: "successively (links q) (r # pre @ mid @ eg # rest)"
    and q': "\<And>k. q' k \<noteq> q k \<Longrightarrow> start \<le> k \<and> k < min e (bi_End eg)"
    and f: "q' start = Some f" "frame_end f = min e (bi_End eg)"
    and r: "bi_Start r = 0"
  shows "successively (links q') (r # newGaps pre gap eg rest start e)"
proof -
  note o = placed_order [OF p]
  define A where "A = r # pre"
  have Ane: "A \<noteq> []" by (simp add: A_def)
  have p': "start < e" "bi_Start gap \<le> start" "start < bi_End gap" "bi_Start eg < e"
    using p by (auto simp: placed_def)
  have pr: "\<forall>g\<in>set pre. bi_Start g \<le> start"
    using o(8) p'(2) by (meson less_imp_le less_le_trans)
  have q1: "chain q' a b" if "chain q a b" "b \<le> start" for a b
    using that(1) by (rule chain_cong) (use q' that(2) in \<open>metis leD less_le_trans\<close>)
  have q2: "chain q' a b" if "chain q a b" "bi_End eg \<le> a" for a b
    using that(1) by (rule chain_cong) (use q' that(2) in \<open>metis leD less_le_trans min.cobounded2 order_trans\<close>)
  have "mid @ eg # rest = gap # tl (mid @ eg # rest)" using p by (cases mid) (auto simp: placed_def)
  then have "successively (links q) (A @ gap # tl (mid @ eg # rest))" using l by (simp add: A_def)
  then have A: "successively (links q) A" and "links q (last A) gap"
    unfolding successively_append_iff by (auto simp: A_def)
  then have c1: "chain q' (bi_End (last A)) (bi_Start gap)" using q1 p'(2) by blast
  have A': "successively (links q') A"
  proof (rule successively_mono [OF A])
    fix x y assume "y \<in> set A" "links q x y"
    then show "links q' x y" using q1 pr by (auto simp: A_def r)
  qed
  have R: "successively (links q) (eg # rest)" using l by (auto simp: successively_append_iff successively_Cons)
  have R': "successively (links q') rest"
  proof (rule successively_mono)
    show "successively (links q) rest" using R by (auto simp: successively_Cons)
    fix x y assume "x \<in> set rest" "links q x y"
    then show "links q' x y" using o(9) by (intro q2) (auto intro: less_imp_le)
  qed
  have c3: "rest \<noteq> [] \<Longrightarrow> chain q' (bi_End eg) (bi_Start (hd rest))"
    using R q2 by (auto simp: successively_Cons)
  have c2: "chain q' start (min e (bi_End eg))"
  proof (rule chain.step)
    show "q' start = Some f" by (rule f(1))
    show "start < frame_end f" using f(2) p'(1,3) o(7) by simp
    show "chain q' (frame_end f) (min e (bi_End eg))" unfolding f(2) by (rule chain.refl)
  qed
  have c12: "start = bi_Start gap \<Longrightarrow> chain q' (bi_End (last A)) (min e (bi_End eg))"
    using c1 c2 by (auto intro: chain_trans)
  have "successively (links q') (A @ (if start = bi_Start gap then [] else [gap\<lparr>bi_End := start\<rparr>]) @
     (if e < bi_End eg then [\<lparr>bi_Start = e, bi_End = bi_End eg\<rparr>] else []) @ rest)"
  proof (cases "e < bi_End eg")
    case True
    then have m: "min e (bi_End eg) = e" by simp
    have "successively (links q') (\<lparr>bi_Start = e, bi_End = bi_End eg\<rparr> # rest)"
      using R' c3 by (auto simp: successively_Cons)
    then show ?thesis using True A' c1 c2 c12 m
      by (auto simp: successively_append_iff successively_Cons Ane)
  next
    case False
    then have m: "min e (bi_End eg) = bi_End eg" and ne: "rest \<noteq> []" using p by (auto simp: placed_def min_def)
    have "chain q' start (bi_Start (hd rest))" "start = bi_Start gap \<Longrightarrow> chain q' (bi_End (last A)) (bi_Start (hd rest))"
      using c2 c12 c3 [OF ne] m by (auto intro: chain_trans)
    then show ?thesis using False A' c1 R' ne
      by (auto simp: successively_append_iff successively_Cons Ane)
  qed
  then show ?thesis by (simp add: newGaps_def A_def)
qed

end
