(* ===== verification/StreamDelivery.thy ===== *)
theory StreamDelivery
  imports StreamSorter
begin

text \<open>
  The sorter delivers the stream: its operations keep the invariant of \<open>StreamSorter\<close>, and
  whatever frames of a stream arrive in whatever order, \<open>Pop\<close> hands out the bytes of the
  stream in order, as far as they have arrived without a hole.
\<close>

section \<open>The operations keep the invariant\<close>

lemma queued_ok_update:
  assumes "queued_ok data q gs" "\<And>k. q' k \<noteq> q k \<Longrightarrow> q' k = None \<or> k = start \<and> q' k = Some f"
    "frame_at data f" "sf_Offset f = start"
    "\<And>b. in_gap gs' b \<Longrightarrow> in_gap gs b" "\<And>b. start \<le> b \<Longrightarrow> b < frame_end f \<Longrightarrow> \<not> in_gap gs' b"
  shows "queued_ok data q' gs'"
  unfolding queued_ok_def
proof (intro allI impI)
  fix k g assume k: "q' k = Some g"
  show "sf_Offset g = k \<and> frame_at data g \<and> (\<forall>b. k \<le> b \<and> b < frame_end g \<longrightarrow> \<not> in_gap gs' b)"
  proof (cases "q' k = q k")
    case True
    then have "q k = Some g" using k by simp
    then show ?thesis using assms(1,5) unfolding queued_ok_def by blast
  next
    case False
    then have "k = start" "g = f" using assms(2) [OF False] k by auto
    then show ?thesis using assms(3,4,6) by blast
  qed
qed

lemma first_gap:
  assumes "sorter_inv data s"
  obtains g gs where "ss_gaps s = g # gs" "chain (ss_queuedFrames s) (ss_readPosition s) (bi_Start g)"
    "ss_readPosition s \<le> bi_Start g" "bi_Start g < bi_End g" "\<forall>h\<in>set (g # gs). bi_Start g \<le> bi_Start h"
    "\<forall>h\<in>set (g # gs). ss_readPosition s < bi_End h"
proof -
  obtain g gs where g: "ss_gaps s = g # gs" using assms by (cases "ss_gaps s") (auto simp: sorter_inv_def gaps_ok_def)
  have c: "chain (ss_queuedFrames s) (ss_readPosition s) (bi_Start g)"
    using assms g by (simp add: sorter_inv_def read_gap_def)
  have ok: "gaps_ok (g # gs)" using assms g by (simp add: sorter_inv_def)
  then have lt: "bi_Start g < bi_End g" "\<forall>h\<in>set (g # gs). bi_Start g \<le> bi_Start h \<and> bi_Start h < bi_End h"
    by (auto simp: gaps_ok_def intro: less_imp_le less_trans)
  then have "\<forall>h\<in>set (g # gs). ss_readPosition s < bi_End h"
    using chain_le [OF c] by (meson le_less_trans order_trans)
  with g c chain_le [OF c] lt show thesis by (intro that) auto
qed

lemma read_position_not_in_gap:
  assumes "sorter_inv data s" "b < ss_readPosition s"
  shows "\<not> in_gap (ss_gaps s) b"
  using assms(2) by (rule_tac first_gap [OF assms(1)]) (auto simp: in_gap_def dest: leD less_le_trans)

lemma Head_iff:
  assumes "sorter_inv data s"
  shows "sorter_Head s = None \<longleftrightarrow> in_gap (ss_gaps s) (ss_readPosition s)"
proof (rule first_gap [OF assms])
  fix g gs
  assume g: "ss_gaps s = g # gs" "chain (ss_queuedFrames s) (ss_readPosition s) (bi_Start g)"
    "ss_readPosition s \<le> bi_Start g" "bi_Start g < bi_End g" "\<forall>h\<in>set (g # gs). bi_Start g \<le> bi_Start h"
  have q: "\<not> in_gap (ss_gaps s) k" if "ss_queuedFrames s k = Some f" for k f
    using assms that frame_nonempty unfolding sorter_inv_def queued_ok_def by (metis order_refl)
  show ?thesis
  proof (cases "ss_readPosition s < bi_Start g")
    case True
    have "\<not> in_gap (ss_gaps s) (ss_readPosition s)"
      using True g(1,5) by (auto simp: in_gap_def dest: leD less_le_trans)
    then show ?thesis using chain_next [OF g(2) True] by (auto simp: sorter_Head_def)
  next
    case False
    then have "in_gap (ss_gaps s) (ss_readPosition s)" using g by auto
    then show ?thesis using q by (cases "sorter_Head s") (auto simp: sorter_Head_def)
  qed
qed

lemma frontCut_ok:
  assumes "frame_at data f" "b < frame_end f"
  defines "f1 \<equiv> if sf_Offset f < b then cutFront (b - sf_Offset f) f else f"
  shows "frame_at data f1" "frame_end f1 = frame_end f" "sf_Offset f1 = max b (sf_Offset f)"
proof -
  have "unat (sf_Offset f) + unat (b - sf_Offset f) = unat b" if "sf_Offset f < b"
    using that by (simp add: unat_sub word_less_nat_alt less_imp_le)
  then have c: "unat (sf_Offset f) + unat (b - sf_Offset f) < unat (frame_end f)" if "sf_Offset f < b"
    using that assms(2) by (simp add: word_less_nat_alt)
  show "frame_at data f1" "frame_end f1 = frame_end f"
    using cutFront_ok(1,3) [OF assms(1) c] assms(1) by (simp_all add: f1_def)
  show "sf_Offset f1 = max b (sf_Offset f)"
    using cutFront_ok(2) [OF assms(1) c] by (auto simp: f1_def max_def dest: leD)
qed

lemma insertFrame_ok:
  assumes inv: "sorter_inv data s" and gs: "ss_gaps s = pre @ gap # post" and f: "frame_at data f"
    and g: "bi_Start gap < frame_end f" "sf_Offset f < bi_End gap" "\<forall>g\<in>set pre. bi_End g < sf_Offset f"
    and ins: "insertFrame f (frame_end f) pre gap post s = (s', err)"
  shows "err = Some errTooManyGapsInReceivedStreamData \<or>
    err = None \<and> sorter_inv data s' \<and> ss_readPosition s' = ss_readPosition s \<and>
    (\<forall>h. sorter_Head s = Some h \<longrightarrow> sorter_Head s' = Some h) \<and>
    (\<forall>b. in_gap (ss_gaps s') b \<longleftrightarrow> in_gap (ss_gaps s) b \<and> \<not> (sf_Offset f \<le> b \<and> b < frame_end f))"
proof -
  define f1 where "f1 = (if sf_Offset f < bi_Start gap then cutFront (bi_Start gap - sf_Offset f) f else f)"
  define e where "e = frame_end f"
  define start where "start = sf_Offset f1"
  have ok: "gaps_ok (pre @ gap # post)" using inv gs by (simp add: sorter_inv_def)
  then have gl: "bi_Start gap < bi_End gap" and okp: "gaps_ok (gap # post)" by (auto simp: gaps_ok_def sorted_wrt_append)
  have f1: "frame_at data f1" "frame_end f1 = e" "start = max (bi_Start gap) (sf_Offset f)"
    using frontCut_ok [OF f g(1)] by (simp_all add: f1_def e_def start_def)
  have st: "bi_Start gap \<le> start" "start < bi_End gap" using f1(3) g(2) gl by simp_all
  have e: "e < MaxByteCount" "start < e" using frame_below_max [OF f1(1)] frame_nonempty [OF f1(1)] f1(2) by (auto simp: start_def)
  obtain found same inList eg rest q where fe: "findEndGap e True gap post (ss_queuedFrames s) = (found, same, inList, eg, rest, q)"
    by (cases "findEndGap e True gap post (ss_queuedFrames s)")
  obtain mid where m: "found" "bi_Start eg < e" "gap # post = mid @ eg # rest" "same = (mid = [])"
    "\<And>k. q k \<noteq> ss_queuedFrames s k \<Longrightarrow> q k = None \<and> bi_End gap \<le> k \<and> k < bi_Start eg"
    "if e < bi_End eg then inList else inList = (mid = []) \<and> rest \<noteq> [] \<and> e \<le> bi_Start (hd rest)"
    using findEndGap_spec [OF fe okp e(1)] g(1) by (auto simp: e_def)
  have hd: "gap = hd (mid @ [eg])" using m(3) by (cases mid) auto
  have p: "placed pre gap mid eg rest inList start e"
    using ok m st e hd by (simp add: placed_def)
  define e' where "e' = min e (bi_End eg)"
  define f2 where "f2 = (if bi_End eg < e then cutBack (e - bi_End eg) f1 else f1)"
  have se: "start < bi_End eg" using st(2) placed_order(7) [OF p] by simp
  have f2: "frame_at data f2" "sf_Offset f2 = start" "frame_end f2 = e'"
    using cutBack_ok [OF f1(1), of "bi_End eg"] f1(1,2) se by (auto simp: f2_def e'_def start_def min_def not_less)
  define gs' where "gs' = newGaps pre gap eg rest start e"
  have e'_alt: "(if bi_End eg < e then bi_End eg else e) = e'" by (auto simp: e'_def min_def dest: leD)
  have fill: "pre @ fillGaps start e' gap same inList eg @ rest = gs'"
    using fillGaps_eq [OF p] m(4) by (simp add: gs'_def newGaps_def e'_def)
  have res: "insertFrame f e pre gap post s =
     (if length gs' > MaxStreamFrameSorterGaps
      then (s\<lparr>ss_queuedFrames := q, ss_gaps := gs'\<rparr>, Some errTooManyGapsInReceivedStreamData)
      else (s\<lparr>ss_queuedFrames := q(start \<mapsto> f2), ss_gaps := gs'\<rparr>, None))"
    unfolding insertFrame_def Let_def f1_def [symmetric] start_def [symmetric] fe
    using m(1) by (simp add: e'_alt fill [symmetric] f2_def [symmetric] del: fun_upd_apply)
  have ig: "in_gap gs' b \<longleftrightarrow> in_gap (ss_gaps s) b \<and> \<not> (start \<le> b \<and> b < e)" for b
    using in_gap_newGaps [OF p] gs m(3) by (simp add: gs'_def)
  have dif: "(q(start \<mapsto> f2)) k \<noteq> ss_queuedFrames s k \<Longrightarrow> start \<le> k \<and> k < e'" for k
  proof (cases "k = start")
    case True
    then show ?thesis using e(2) se by (simp add: e'_def)
  next
    case False
    assume "(q(start \<mapsto> f2)) k \<noteq> ss_queuedFrames s k"
    then have "bi_End gap \<le> k" "k < bi_Start eg" using m(5) False by auto
    moreover have "bi_Start eg < e'" using m(2) placed_order(4) [OF p] by (simp add: e'_def)
    ultimately show ?thesis using st(2) by (meson less_imp_le less_le_trans less_trans)
  qed
  have li: "successively (links (q(start \<mapsto> f2))) (read_gap (ss_readPosition s) # gs')"
    unfolding gs'_def
  proof (rule newGaps_links [OF p])
    show "successively (links (ss_queuedFrames s)) (read_gap (ss_readPosition s) # pre @ mid @ eg # rest)"
      using inv gs m(3) by (simp add: sorter_inv_def)
  qed (use dif f2 in \<open>auto simp: e'_def read_gap_def\<close>)
  have qu: "queued_ok data (q(start \<mapsto> f2)) gs'"
  proof (rule queued_ok_update)
    show "queued_ok data (ss_queuedFrames s) (ss_gaps s)" using inv by (simp add: sorter_inv_def)
  qed (use m(5) f2 ig in \<open>auto simp: e'_def split: if_splits\<close>)
  have "gaps_ok gs'" using newGaps_ok [OF p] by (simp add: gs'_def)
  then have inv': "sorter_inv data (s\<lparr>ss_queuedFrames := q(start \<mapsto> f2), ss_gaps := gs'\<rparr>)"
    using li qu by (simp add: sorter_inv_def del: fun_upd_apply)
  have io: "in_gap (ss_gaps s) b \<and> \<not> (start \<le> b \<and> b < e) \<longleftrightarrow>
      in_gap (ss_gaps s) b \<and> \<not> (sf_Offset f \<le> b \<and> b < e)" for b
  proof -
    have "bi_Start gap \<le> b \<or> b < sf_Offset f" if "in_gap (ss_gaps s) b"
    proof -
      have "\<forall>h\<in>set post. bi_Start gap \<le> bi_Start h"
        using okp by (auto simp: gaps_ok_def intro: less_imp_le less_trans)
      then show ?thesis using that g(3) unfolding gs in_gap_def
        by (auto intro: less_trans order_trans)
    qed
    then show ?thesis using f1(3) leD by auto
  qed
  have hd: "(q(start \<mapsto> f2)) (ss_readPosition s) = ss_queuedFrames s (ss_readPosition s)" if "sorter_Head s = Some h" for h
  proof (rule ccontr)
    assume "(q(start \<mapsto> f2)) (ss_readPosition s) \<noteq> ss_queuedFrames s (ss_readPosition s)"
    then have "bi_Start gap \<le> ss_readPosition s" using dif st(1) by (blast intro: order_trans)
    moreover have "ss_readPosition s < bi_End gap" by (rule first_gap [OF inv]) (metis gs in_set_conv_decomp)
    ultimately have "in_gap (ss_gaps s) (ss_readPosition s)" by (simp add: gs)
    then show False using Head_iff [OF inv] that by simp
  qed
  show ?thesis
  proof (cases "length gs' > MaxStreamFrameSorterGaps")
    case True
    then show ?thesis using ins res by (simp add: e_def)
  next
    case False
    then have r: "s' = s\<lparr>ss_queuedFrames := q(start \<mapsto> f2), ss_gaps := gs'\<rparr>" "err = None"
      using ins res by (simp_all add: e_def)
    have "ss_gaps s' = gs'" "ss_readPosition s' = ss_readPosition s" by (simp_all add: r(1))
    moreover have "sorter_Head s' = Some h" if "sorter_Head s = Some h" for h
      using hd [OF that] that by (simp add: sorter_Head_def r(1) del: fun_upd_apply)
    ultimately show ?thesis using inv' ig io r unfolding e_def by simp
  qed
qed

definition pushed :: "(nat \<Rightarrow> byte) \<Rightarrow> StreamFrame \<Rightarrow> streamFrameSorter \<Rightarrow> streamFrameSorter \<Rightarrow> bool" where
  "pushed data f s s' \<longleftrightarrow> sorter_inv data s' \<and> ss_readPosition s' = ss_readPosition s \<and>
     (\<forall>h. sorter_Head s = Some h \<longrightarrow> sorter_Head s' = Some h) \<and>
     (\<forall>b. in_gap (ss_gaps s') b \<longleftrightarrow> in_gap (ss_gaps s) b \<and> \<not> (sf_Offset f \<le> b \<and> b < frame_end f))"

lemma pushData_ok:
  assumes "sorter_inv data s" "frame_at data f" "\<forall>g\<in>set (ss_gaps s). bi_End g \<noteq> sf_Offset f"
    and p: "pushData f s = (s', err)"
  shows "err = Some errTooManyGapsInReceivedStreamData \<or>
    (err = None \<or> err = Some errDuplicateStreamData) \<and> pushed data f s s'"
proof (cases "findGap (sf_Offset f) (frame_end f) (ss_gaps s)")
  case (Inl e)
  have "e = errDuplicateStreamData \<and> (\<forall>b. sf_Offset f \<le> b \<and> b < frame_end f \<longrightarrow> \<not> in_gap (ss_gaps s) b)"
    using findGap_Inl [OF Inl] assms(1,2) frame_nonempty frame_below_max by (auto simp: sorter_inv_def)
  then show ?thesis using p Inl assms(1) by (auto simp: pushData_def frame_end_def pushed_def Let_def)
next
  case (Inr t)
  obtain pre gap post where t: "t = (pre, gap, post)" by (cases t)
  have g: "ss_gaps s = pre @ gap # post" "bi_Start gap < frame_end f" "sf_Offset f \<le> bi_End gap"
    "\<forall>g\<in>set pre. bi_End g < sf_Offset f"
    using findGap_Inr [OF Inr [unfolded t]] by auto
  then have lt: "sf_Offset f < bi_End gap" using assms(3) by (auto simp: less_le)
  have "insertFrame f (frame_end f) pre gap post s = (s', err)"
    using p Inr t by (simp add: pushData_def frame_end_def)
  from insertFrame_ok [OF assms(1) g(1) assms(2) g(2) lt g(4) this] show ?thesis
    by (auto simp: pushed_def)
qed

lemma gap_end_queued:
  assumes "sorter_inv data s" "g \<in> set (ss_gaps s)" "bi_End g < MaxByteCount"
  shows "ss_queuedFrames s (bi_End g) \<noteq> None"
proof -
  obtain xs ys where sp: "ss_gaps s = xs @ g # ys" using assms(2) by (meson split_list)
  have ok: "gaps_ok (xs @ g # ys)" "successively (links (ss_queuedFrames s)) (g # ys)"
    using assms(1) sp by (auto simp: sorter_inv_def successively_append_iff successively_Cons)
  then obtain h hs where y: "ys = h # hs" using assms(3) by (cases ys) (auto simp: gaps_ok_def)
  then have "bi_End g < bi_Start h" "links (ss_queuedFrames s) g h"
    using ok by (auto simp: gaps_ok_def sorted_wrt_append)
  then show ?thesis using chain_next by force
qed

lemma queued_not_gap_end:
  assumes "sorter_inv data s" "ss_queuedFrames s k = Some f" "g \<in> set (ss_gaps s)"
  shows "bi_End g \<noteq> frame_end f"
proof
  assume e: "bi_End g = frame_end f"
  have f: "sf_Offset f = k" "frame_at data f" "\<And>b. k \<le> b \<Longrightarrow> b < frame_end f \<Longrightarrow> \<not> in_gap (ss_gaps s) b"
    using assms(1,2) unfolding sorter_inv_def queued_ok_def by blast+
  have "bi_Start g < bi_End g" using assms(1,3) by (auto simp: sorter_inv_def gaps_ok_def)
  then have "in_gap (ss_gaps s) (max k (bi_Start g))"
    using assms(3) frame_nonempty [OF f(2)] f(1) e unfolding in_gap_def by (intro bexI [of _ g]) auto
  then show False using f(3) [of "max k (bi_Start g)"] \<open>bi_Start g < bi_End g\<close> frame_nonempty [OF f(2)] f(1) e by simp
qed

lemma Push_ok:
  assumes inv: "sorter_inv data s" and f: "frame_at data f" and p: "sorter_Push f s = (s', err)"
  shows "err = Some errTooManyGapsInReceivedStreamData \<or>
    (err = None \<or> err = Some errDuplicateStreamData) \<and> pushed data f s s'"
proof -
  have l: "StreamFrame_DataLen f \<noteq> 0" using unat_DataLen [OF f] f by (auto simp: frame_at_def)
  show ?thesis
  proof (cases "ss_queuedFrames s (sf_Offset f)")
    case None
    have "bi_End g \<noteq> sf_Offset f" if "g \<in> set (ss_gaps s)" for g
      using gap_end_queued [OF inv that] None less_trans [OF frame_nonempty [OF f] frame_below_max [OF f]] by auto
    moreover have "pushData f s = (s', err)" using p l None by (simp add: sorter_Push_def)
    ultimately show ?thesis by (intro pushData_ok [OF inv f]) auto
  next
    case (Some old)
    have o: "sf_Offset old = sf_Offset f" "frame_at data old"
      "\<And>b. sf_Offset f \<le> b \<Longrightarrow> b < frame_end old \<Longrightarrow> \<not> in_gap (ss_gaps s) b"
      using inv Some unfolding sorter_inv_def queued_ok_def by blast+
    show ?thesis
    proof (cases "StreamFrame_DataLen f \<le> StreamFrame_DataLen old")
      case True
      then have "frame_end f \<le> frame_end old"
        using unat_frame_end [OF f] unat_frame_end [OF o(2)] unat_DataLen [OF f] unat_DataLen [OF o(2)] o(1)
        by (simp add: word_le_nat_alt)
      then show ?thesis using p l Some True o(3) inv by (auto simp: sorter_Push_def pushed_def)
    next
      case False
      define f' where "f' = cutFront (StreamFrame_DataLen old) f"
      have "unat (sf_Offset f) + unat (StreamFrame_DataLen old) < unat (frame_end f)"
        using False unat_frame_end [OF f] unat_DataLen [OF f] unat_DataLen [OF o(2)] by (simp add: word_le_nat_alt)
      from cutFront_ok(1-3) [OF f this] have f': "frame_at data f'" "sf_Offset f' = frame_end old" "frame_end f' = frame_end f"
        using o(1) by (auto simp: f'_def frame_end_def)
      have "\<forall>g\<in>set (ss_gaps s). bi_End g \<noteq> sf_Offset f'"
        using queued_not_gap_end [OF inv Some] f'(2) by simp
      moreover have "pushData f' s = (s', err)" using p l Some False by (simp add: sorter_Push_def f'_def)
      ultimately have "err = Some errTooManyGapsInReceivedStreamData \<or>
          (err = None \<or> err = Some errDuplicateStreamData) \<and> pushed data f' s s'"
        by (intro pushData_ok [OF inv f'(1)]) auto
      moreover have "pushed data f s s'" if "pushed data f' s s'"
      proof -
        have "sf_Offset f \<le> frame_end old" using frame_nonempty [OF o(2)] o(1) by simp
        then have "in_gap (ss_gaps s) b \<and> \<not> (sf_Offset f' \<le> b \<and> b < frame_end f') \<longleftrightarrow>
            in_gap (ss_gaps s) b \<and> \<not> (sf_Offset f \<le> b \<and> b < frame_end f)" for b
          using o(3) [of b] f'(2,3) by (cases "sf_Offset f \<le> b") (auto simp: not_le dest: order_trans)
        then show ?thesis using that by (simp add: pushed_def)
      qed
      ultimately show ?thesis by blast
    qed
  qed
qed

lemma Pop_ok:
  assumes inv: "sorter_inv data s" and p: "sorter_Pop s = (s', Some f)"
  shows "sorter_inv data s' \<and> frame_at data f \<and> sf_Offset f = ss_readPosition s \<and>
    ss_readPosition s' = frame_end f \<and> ss_gaps s' = ss_gaps s"
proof (rule first_gap [OF inv])
  fix g gs
  assume g: "ss_gaps s = g # gs" "chain (ss_queuedFrames s) (ss_readPosition s) (bi_Start g)"
    "ss_readPosition s \<le> bi_Start g" "bi_Start g < bi_End g"
    "\<forall>h\<in>set (g # gs). ss_readPosition s < bi_End h"
  have q: "ss_queuedFrames s (ss_readPosition s) = Some f"
    using p by (auto simp: sorter_Pop_def sorter_Head_def split: option.splits)
  then have f: "sf_Offset f = ss_readPosition s" "frame_at data f"
    using inv by (auto simp: sorter_inv_def queued_ok_def)
  have s': "s' = s\<lparr>ss_readPosition := frame_end f, ss_queuedFrames := (ss_queuedFrames s)(ss_readPosition s := None)\<rparr>"
    using p q f by (auto simp: sorter_Pop_def sorter_Head_def frame_end_def)
  have "\<not> in_gap (ss_gaps s) (ss_readPosition s)" using Head_iff [OF inv] q by (simp add: sorter_Head_def)
  then have "ss_readPosition s < bi_Start g" using g by auto
  from chain_next [OF g(2) this] have "chain (ss_queuedFrames s) (frame_end f) (bi_Start g)" using q by auto
  then have c: "chain (ss_queuedFrames s') (frame_end f) (bi_Start g)"
    by (rule chain_cong) (use frame_nonempty [OF f(2)] f(1) in \<open>auto simp: s' dest: leD\<close>)
  have "successively (links (ss_queuedFrames s')) (g # gs)"
  proof (rule successively_mono)
    show "successively (links (ss_queuedFrames s)) (g # gs)" using inv g(1) by (simp add: sorter_inv_def)
    fix x y assume x: "x \<in> set (g # gs)" and l: "links (ss_queuedFrames s) x y"
    show "links (ss_queuedFrames s') x y" using l by (rule chain_cong) (use g(5) x in \<open>auto simp: s' dest: leD\<close>)
  qed
  moreover have "queued_ok data (ss_queuedFrames s') (ss_gaps s)"
    using inv by (auto simp: sorter_inv_def queued_ok_def s')
  ultimately have "sorter_inv data s'" using inv c g(1) by (simp add: sorter_inv_def s' read_gap_def)
  then show ?thesis using f s' by simp
qed


section \<open>The end of the stream\<close>

text \<open>
  A frame without data that carries the FIN bit is queued at the end \<open>N\<close> of the stream, beside
  the invariant; it is out of the way of all frames with data.
\<close>

definition clearAt :: "ByteCount \<Rightarrow> streamFrameSorter \<Rightarrow> streamFrameSorter" where
  "clearAt n s = s\<lparr>ss_queuedFrames := (ss_queuedFrames s)(n := None)\<rparr>"

lemma clearAt_simps [simp]:
  "ss_gaps (clearAt n s) = ss_gaps s" "ss_readPosition (clearAt n s) = ss_readPosition s"
  "ss_queuedFrames (clearAt n s) = (ss_queuedFrames s)(n := None)"
  by (simp_all add: clearAt_def)

lemma upd_None_swap: "q(a := None, b := None) = q(b := None, a := None)"
  by (auto simp: fun_upd_def)

lemma findEndGap_clear:
  "findEndGap e same g gs q = (found, same', inList, eg, rest, q') \<Longrightarrow>
   findEndGap e same g gs (q(n := None)) = (found, same', inList, eg, rest, q'(n := None))"
proof (induction e same g gs q rule: findEndGap.induct)
  case (2 e same g h gs q)
  show ?case using "2.prems" "2.IH" by (auto simp: upd_None_swap [of q n] simp del: fun_upd_apply split: if_splits)
qed (auto split: if_splits)

lemma insertFrame_clear:
  assumes "bi_Start gap < e" "sf_Offset f < e" "e \<le> n" "insertFrame f e pre gap post s = (s', err)"
    "gaps_ok (gap # post)" "e < MaxByteCount"
  shows "insertFrame f e pre gap post (clearAt n s) = (clearAt n s', err) \<and>
    ss_queuedFrames s' n = ss_queuedFrames s n"
proof -
  define f1 where "f1 = (if sf_Offset f < bi_Start gap then cutFront (bi_Start gap - sf_Offset f) f else f)"
  have n: "sf_Offset f1 \<noteq> n" using assms(1-3) by (auto simp: f1_def cutFront_def)
  have sw: "(q(n := None))(sf_Offset f1 \<mapsto> x) = (q(sf_Offset f1 \<mapsto> x))(n := None)" for q :: queued_frames and x
    using n by (simp add: fun_upd_twist)
  obtain found same inList eg rest q where fe: "findEndGap e True gap post (ss_queuedFrames s) = (found, same, inList, eg, rest, q)"
    by (cases "findEndGap e True gap post (ss_queuedFrames s)")
  note fe' = findEndGap_clear [OF fe, of n]
  have k: "q n = ss_queuedFrames s n" "(q(sf_Offset f1 \<mapsto> x)) n = ss_queuedFrames s n" for x
    using n findEndGap_spec [OF fe assms(5,6,1)] assms(3) by (auto dest: less_trans leD)
  show ?thesis
    using assms(4) n k unfolding insertFrame_def Let_def f1_def [symmetric] clearAt_simps fe fe'
    by (cases found) (auto simp: sw clearAt_def simp del: fun_upd_apply split: if_splits)
qed

lemma pushData_clear:
  assumes "sf_Offset f < frame_end f" "frame_end f \<le> n" "pushData f s = (s', err)"
    "gaps_ok (ss_gaps s)" "frame_end f < MaxByteCount"
  shows "pushData f (clearAt n s) = (clearAt n s', err) \<and> ss_queuedFrames s' n = ss_queuedFrames s n"
proof (cases "findGap (sf_Offset f) (frame_end f) (ss_gaps s)")
  case (Inl e)
  then show ?thesis using assms(3) by (auto simp: pushData_def frame_end_def Let_def)
next
  case (Inr t)
  obtain pre gap post where t: "t = (pre, gap, post)" by (cases t)
  have g: "bi_Start gap < frame_end f" "ss_gaps s = pre @ gap # post" using findGap_Inr [OF Inr [unfolded t]] by simp_all
  have "gaps_ok (gap # post)" using assms(4) by (auto simp: g(2) gaps_ok_def sorted_wrt_append)
  from insertFrame_clear [OF g(1) assms(1,2) _ this assms(5)] show ?thesis
    using assms(3) Inr t by (simp add: pushData_def frame_end_def Let_def)
qed

lemma sorter_Push_clear:
  assumes f: "frame_at data f" and n: "frame_end f \<le> n" and p: "sorter_Push f s = (s', err)"
    and g: "gaps_ok (ss_gaps s)"
  shows "sorter_Push f (clearAt n s) = (clearAt n s', err) \<and> ss_queuedFrames s' n = ss_queuedFrames s n"
proof -
  have l: "StreamFrame_DataLen f \<noteq> 0" using unat_DataLen [OF f] f by (auto simp: frame_at_def)
  have q: "ss_queuedFrames (clearAt n s) (sf_Offset f) = ss_queuedFrames s (sf_Offset f)"
    using frame_nonempty [OF f] n by auto
  show ?thesis
  proof (cases "ss_queuedFrames s (sf_Offset f)")
    case None
    then show ?thesis using p l q pushData_clear [OF frame_nonempty [OF f] n _ g frame_below_max [OF f]] by (simp add: sorter_Push_def)
  next
    case (Some old)
    show ?thesis
    proof (cases "StreamFrame_DataLen f \<le> StreamFrame_DataLen old")
      case True
      then show ?thesis using p l q Some by (simp add: sorter_Push_def)
    next
      case False
      then have "unat (sf_Offset f) + unat (StreamFrame_DataLen old) < unat (frame_end f)"
        using unat_frame_end [OF f] unat_DataLen [OF f] by (simp add: word_le_nat_alt)
      note c = cutFront_ok [OF f this]
      have "frame_end (cutFront (StreamFrame_DataLen old) f) \<le> n" using c(3) n by simp
      from pushData_clear [OF frame_nonempty [OF c(1)] this _ g frame_below_max [OF c(1)]] show ?thesis using p l q Some False by (simp add: sorter_Push_def)
    qed
  qed
qed

lemma sorter_Pop_clear:
  assumes "sorter_Pop s = (s', Some f)" "ss_readPosition s \<noteq> n"
  shows "sorter_Pop (clearAt n s) = (clearAt n s', Some f)"
  using assms by (auto simp: sorter_Pop_def sorter_Head_def clearAt_def upd_None_swap [of _ n] split: option.splits)

section \<open>Runs of the sorter\<close>

text \<open>
  The use of a sorter for a stream \<open>data\<close> of \<open>N\<close> bytes: frames of the stream are pushed, heads
  are popped.  \<open>R\<close> are the positions whose bytes have arrived, \<open>out\<close> the bytes handed out,
  \<open>F\<close> tells whether a FIN without data is waiting.
\<close>

definition frame_of :: "(nat \<Rightarrow> byte) \<Rightarrow> nat \<Rightarrow> StreamFrame \<Rightarrow> bool" where
  "frame_of data N f \<longleftrightarrow> frame_at data f \<and> unat (sf_Offset f) + length (sf_Data f) \<le> N"

definition fin_of :: "nat \<Rightarrow> StreamFrame \<Rightarrow> bool" where
  "fin_of N f \<longleftrightarrow> sf_Data f = [] \<and> sf_FinBit f \<and> unat (sf_Offset f) = N"

inductive sorter_run :: "(nat \<Rightarrow> byte) \<Rightarrow> nat \<Rightarrow> streamFrameSorter \<Rightarrow> nat set \<Rightarrow> byte list \<Rightarrow> bool \<Rightarrow> bool"
  for data N where
  new: "N < 2 ^ 64 - 1 \<Longrightarrow> sorter_run data N newStreamFrameSorter {} [] False"
| push: "sorter_run data N s R out F \<Longrightarrow> frame_of data N f \<Longrightarrow> sorter_Push f s = (s', err) \<Longrightarrow>
    err \<noteq> Some errTooManyGapsInReceivedStreamData \<Longrightarrow>
    sorter_run data N s' (R \<union> {unat (sf_Offset f)..<unat (sf_Offset f) + length (sf_Data f)}) out F"
| fin: "sorter_run data N s R out F \<Longrightarrow> fin_of N f \<Longrightarrow> sorter_Push f s = (s', err) \<Longrightarrow>
    sorter_run data N s' R out True"
| pop: "sorter_run data N s R out F \<Longrightarrow> sorter_Pop s = (s', Some f) \<Longrightarrow>
    sorter_run data N s' R (out @ sf_Data f) (F \<and> sf_Data f \<noteq> [])"

definition run_inv :: "(nat \<Rightarrow> byte) \<Rightarrow> nat \<Rightarrow> streamFrameSorter \<Rightarrow> nat set \<Rightarrow> byte list \<Rightarrow> bool \<Rightarrow> bool" where
  "run_inv data N s R out F \<longleftrightarrow> N < 2 ^ 64 - 1 \<and> sorter_inv data (clearAt (word_of_nat N) s) \<and>
     out = map data [0..<unat (ss_readPosition s)] \<and> R \<subseteq> {..<N} \<and>
     (\<forall>b. b < MaxByteCount \<longrightarrow> (in_gap (ss_gaps s) b \<longleftrightarrow> unat b \<notin> R)) \<and>
     (if F then \<exists>f. ss_queuedFrames s (word_of_nat N) = Some f \<and> sf_Offset f = word_of_nat N \<and> sf_Data f = [] \<and> sf_FinBit f
      else ss_queuedFrames s (word_of_nat N) = None)"

lemma readPosition_below_max:
  assumes "sorter_inv data s"
  shows "ss_readPosition s < MaxByteCount"
proof (rule first_gap [OF assms])
  fix g gs
  assume g: "ss_gaps s = g # gs" "\<forall>h\<in>set (g # gs). ss_readPosition s < bi_End h"
  have "bi_End (last (g # gs)) = MaxByteCount" using assms g(1) by (simp add: sorter_inv_def gaps_ok_def)
  then show ?thesis using g(2) by (metis last_in_set list.distinct(1))
qed

lemma new_inv: "sorter_inv data (clearAt n newStreamFrameSorter)"
  by (auto simp: newStreamFrameSorter_def sorter_inv_def gaps_ok_def queued_ok_def read_gap_def MaxByteCount_def
        word_less_nat_alt unsigned_minus_1_eq_mask mask_eq_exp_minus_1 intro: chain.refl)

lemma Head_clear: "ss_readPosition s \<noteq> n \<Longrightarrow> sorter_Head (clearAt n s) = sorter_Head s"
  by (simp add: sorter_Head_def)

lemma run_inv_Head:
  assumes "run_inv data N s R out F"
  shows "sorter_Head s = None \<longleftrightarrow> length out \<notin> R \<and> \<not> (F \<and> length out = N)"
    "ss_readPosition s = word_of_nat N \<Longrightarrow> sorter_Head s = Some f \<Longrightarrow> F \<and> sf_Offset f = word_of_nat N \<and> sf_Data f = [] \<and> sf_FinBit f"
proof -
  have inv: "sorter_inv data (clearAt (word_of_nat N) s)"
    and R: "\<And>b. b < MaxByteCount \<Longrightarrow> in_gap (ss_gaps s) b \<longleftrightarrow> unat b \<notin> R"
    and fin: "if F then \<exists>f. ss_queuedFrames s (word_of_nat N) = Some f \<and> sf_Offset f = word_of_nat N \<and> sf_Data f = [] \<and> sf_FinBit f
      else ss_queuedFrames s (word_of_nat N) = None"
    and out: "length out = unat (ss_readPosition s)" and N: "N < 2 ^ 64 - 1" "R \<subseteq> {..<N}"
    using assms by (auto simp: run_inv_def)
  have rp: "ss_readPosition s = word_of_nat N \<longleftrightarrow> length out = N"
    using N(1) by (auto simp: out word_unat_eq_iff unat_of_nat)
  have lt: "ss_readPosition s < MaxByteCount" using readPosition_below_max [OF inv] by simp
  show "ss_readPosition s = word_of_nat N \<Longrightarrow> sorter_Head s = Some f \<Longrightarrow> F \<and> sf_Offset f = word_of_nat N \<and> sf_Data f = [] \<and> sf_FinBit f"
    using fin by (auto simp: sorter_Head_def split: if_splits)
  show "sorter_Head s = None \<longleftrightarrow> length out \<notin> R \<and> \<not> (F \<and> length out = N)"
  proof (cases "length out = N")
    case True
    then have "length out \<notin> R" using N(2) by auto
    then show ?thesis using True rp fin by (auto simp: sorter_Head_def split: if_splits)
  next
    case False
    then show ?thesis using Head_iff [OF inv] Head_clear [of s "word_of_nat N"] rp R [OF lt] out by simp
  qed
qed

lemma sorter_run_inv: "sorter_run data N s R out F \<Longrightarrow> run_inv data N s R out F"
proof (induction rule: sorter_run.induct)
  case new
  then show ?case using new_inv
    by (auto simp: run_inv_def newStreamFrameSorter_def MaxByteCount_def)
next
  case (push s R out F f s' err)
  have inv: "sorter_inv data (clearAt (word_of_nat N) s)" and f: "frame_at data f"
    and N: "N < 2 ^ 64 - 1" using push by (auto simp: run_inv_def frame_of_def)
  have "frame_end f \<le> word_of_nat N"
    using unat_frame_end [OF f] push.hyps(2) N by (simp add: word_le_nat_alt unat_of_nat frame_of_def)
  from sorter_Push_clear [OF f this push.hyps(3)] inv
  have c: "sorter_Push f (clearAt (word_of_nat N) s) = (clearAt (word_of_nat N) s', err)"
    and k: "ss_queuedFrames s' (word_of_nat N) = ss_queuedFrames s (word_of_nat N)" by (simp_all add: sorter_inv_def)
  have p: "pushed data f (clearAt (word_of_nat N) s) (clearAt (word_of_nat N) s')"
    using Push_ok [OF inv f c] push.hyps(4) by blast
  moreover have "(sf_Offset f \<le> b \<and> b < frame_end f) \<longleftrightarrow>
      unat b \<in> {unat (sf_Offset f)..<unat (sf_Offset f) + length (sf_Data f)}" for b
    using unat_frame_end [OF f] by (simp add: word_le_nat_alt word_less_nat_alt)
  ultimately show ?case using push.IH k push.hyps(2) unfolding run_inv_def pushed_def frame_of_def by auto
next
  case (fin s R out F f s' err)
  have o: "sf_Offset f = word_of_nat N" using fin.hyps(2) fin.IH by (auto simp: fin_of_def run_inv_def word_unat_eq_iff unat_of_nat)
  have "s' = s\<lparr>ss_queuedFrames := (ss_queuedFrames s)(word_of_nat N \<mapsto> f)\<rparr>"
    using fin.hyps(2,3) o by (auto simp: sorter_Push_def fin_of_def StreamFrame_DataLen_def)
  then show ?case using fin.IH fin.hyps(2) o by (simp add: run_inv_def clearAt_def fin_of_def)
next
  case (pop s R out F s' f)
  show ?case
  proof (cases "ss_readPosition s = word_of_nat N")
    case True
    have h: "sorter_Head s = Some f" using pop.hyps(2) by (auto simp: sorter_Pop_def split: option.splits)
    have "F" "sf_Data f = []" "sf_Offset f = word_of_nat N" using run_inv_Head(2) [OF pop.IH True h] by auto
    moreover from this have "s' = s\<lparr>ss_queuedFrames := (ss_queuedFrames s)(word_of_nat N := None)\<rparr>"
      using pop.hyps(2) h by (auto simp: sorter_Pop_def StreamFrame_DataLen_def)
    ultimately show ?thesis using pop.IH by (simp add: run_inv_def clearAt_def)
  next
    case False
    have inv: "sorter_inv data (clearAt (word_of_nat N) s)" using pop.IH by (simp add: run_inv_def)
    have p: "sorter_inv data (clearAt (word_of_nat N) s')" "frame_at data f" "sf_Offset f = ss_readPosition s"
      "ss_readPosition s' = frame_end f" "ss_gaps s' = ss_gaps s"
      using Pop_ok [OF inv sorter_Pop_clear [OF pop.hyps(2) False]] by auto
    have d: "sf_Data f = map data [unat (ss_readPosition s)..<unat (frame_end f)]"
      using p(2,3) unat_frame_end [OF p(2)] by (simp add: frame_at_def)
    have "[0..<unat (frame_end f)] = [0..<unat (ss_readPosition s)] @ [unat (ss_readPosition s)..<unat (frame_end f)]"
      using unat_frame_end [OF p(2)] p(3) by (simp add: upt_add_eq_append [of 0, simplified])
    moreover have "sf_Data f \<noteq> []" using p(2) by (simp add: frame_at_def)
    moreover have "ss_queuedFrames s' (word_of_nat N) = ss_queuedFrames s (word_of_nat N)"
      using pop.hyps(2) False p(3) by (auto simp: sorter_Pop_def split: option.splits)
    ultimately show ?thesis using pop.IH p d by (simp add: run_inv_def)
  qed
qed

lemma run_inv_prefix:
  assumes "run_inv data N s R out F"
  shows "{0..<length out} \<subseteq> R"
proof
  fix n assume "n \<in> {0..<length out}"
  then have that: "n < length out" by simp
  have inv: "sorter_inv data (clearAt (word_of_nat N) s)"
    and R: "\<And>b. b < MaxByteCount \<Longrightarrow> in_gap (ss_gaps s) b \<longleftrightarrow> unat b \<notin> R"
    and len: "length out = unat (ss_readPosition s)"
    using assms by (auto simp: run_inv_def)
  have lt: "ss_readPosition s < MaxByteCount" using readPosition_below_max [OF inv] by simp
  have "unat (ss_readPosition s) < 2 ^ 64" using unsigned_less [of "ss_readPosition s"] by simp
  then have n: "unat (word_of_nat n :: ByteCount) = n" "word_of_nat n < ss_readPosition s"
    using that len by (auto simp: word_less_nat_alt unat_of_nat)
  then have "word_of_nat n < MaxByteCount" using lt by (rule_tac less_trans)
  then show "n \<in> R" using R read_position_not_in_gap [OF inv] n by (metis clearAt_simps(1,2))
qed

text \<open>
  C1: The reassembly of a stream is correct and live.  Whatever frames of a stream arrive, in
  whatever order, repeated, overlapping or split, as long as the limit on gaps is not hit: the
  bytes that \<open>Pop\<close> has handed out are the first bytes of the stream, in order, each of them has
  arrived, and \<open>Head\<close> has a frame exactly if the next byte of the stream has arrived, or if all
  bytes have been handed out and a FIN without data is waiting.  The only
  errors of \<open>Push\<close> are that of duplicate data and that of too many gaps; the two internal errors
  are never returned.
\<close>

theorem sorter_delivers:
  assumes "sorter_run data N s R out F"
  shows "out = map data [0..<length out] \<and> length out = unat (ss_readPosition s) \<and> {0..<length out} \<subseteq> R \<and>
    (sorter_Head s = None \<longleftrightarrow> length out \<notin> R \<and> \<not> (F \<and> length out = N)) \<and>
    (\<forall>f. frame_of data N f \<longrightarrow> snd (sorter_Push f s) \<in>
       {None, Some errDuplicateStreamData, Some errTooManyGapsInReceivedStreamData})"
proof -
  note r = sorter_run_inv [OF assms]
  have inv: "sorter_inv data (clearAt (word_of_nat N) s)" and out: "out = map data [0..<unat (ss_readPosition s)]"
    and N: "N < 2 ^ 64 - 1"
    using r by (auto simp: run_inv_def)
  have len: "length out = unat (ss_readPosition s)" by (simp add: out)
  have "{0..<length out} \<subseteq> R" by (rule run_inv_prefix [OF r])
  moreover have "snd (sorter_Push f s) \<in> {None, Some errDuplicateStreamData, Some errTooManyGapsInReceivedStreamData}"
    if "frame_of data N f" for f
  proof -
    have f: "frame_at data f" and n: "frame_end f \<le> word_of_nat N"
      using that N unat_frame_end [of data f] by (auto simp: frame_of_def word_le_nat_alt unat_of_nat)
    from sorter_Push_clear [OF f n, of s "fst (sorter_Push f s)" "snd (sorter_Push f s)"] inv
      Push_ok [OF inv f, of "clearAt (word_of_nat N) (fst (sorter_Push f s))" "snd (sorter_Push f s)"]
    show ?thesis by (auto simp: sorter_inv_def)
  qed
  ultimately show ?thesis using len out run_inv_Head(1) [OF r] by auto
qed

definition example_frame :: "nat \<Rightarrow> nat \<Rightarrow> StreamFrame" where
  "example_frame a b = \<lparr>sf_StreamID = 5, sf_FinBit = False, sf_DataLenPresent = True,
     sf_Offset = word_of_nat a, sf_Data = map word_of_nat [a..<b]\<rparr>"

definition example_sorter :: streamFrameSorter where
  "example_sorter = fst (sorter_Push (example_frame 0 3) (fst (sorter_Push (example_frame 2 4) newStreamFrameSorter)))"

lemma example_frame_at: "a < b \<Longrightarrow> b \<le> 6 \<Longrightarrow> frame_of word_of_nat 6 (example_frame a b)"
  by (simp add: frame_of_def frame_at_def example_frame_def unat_of_nat)

lemma example_run:
  "sorter_run word_of_nat 6 (fst (sorter_Pop example_sorter)) ({2..<4} \<union> {0..<3}) [0, 1] False"
proof -
  define s1 where "s1 = fst (sorter_Push (example_frame 2 4) newStreamFrameSorter)"
  have "snd (sorter_Push (example_frame 2 4) newStreamFrameSorter) = None" by code_simp
  then have 1: "sorter_Push (example_frame 2 4) newStreamFrameSorter = (s1, None)" by (metis s1_def prod.collapse)
  have "snd (sorter_Push (example_frame 0 3) s1) = None" unfolding s1_def by code_simp
  then have 2: "sorter_Push (example_frame 0 3) s1 = (example_sorter, None)"
    by (metis example_sorter_def s1_def prod.collapse)
  have "snd (sorter_Pop example_sorter) = Some (example_frame 0 2)" by code_simp
  then have 3: "sorter_Pop example_sorter = (fst (sorter_Pop example_sorter), Some (example_frame 0 2))"
    by (metis prod.collapse)
  have "sorter_run word_of_nat 6 s1 {2..<4} [] False"
    using sorter_run.push [OF sorter_run.new example_frame_at 1] by (simp add: example_frame_def unat_of_nat)
  from sorter_run.push [OF this example_frame_at 2]
  have "sorter_run word_of_nat 6 example_sorter ({2..<4} \<union> {0..<3}) [] False" by (simp add: example_frame_def unat_of_nat)
  from sorter_run.pop [OF this 3] show ?thesis by (simp add: example_frame_def upt_conv_Cons)
qed

theorem sorter_delivers_witness:
  "sorter_run word_of_nat 6 (fst (sorter_Pop example_sorter)) ({2..<4} \<union> {0..<3}) [0, 1] False \<and>
   sorter_Head (fst (sorter_Pop example_sorter)) \<noteq> None"
  using example_run sorter_delivers [OF example_run] by simp

end
