(* ===== verification/HandshakeMessages.thy ===== *)
theory HandshakeMessages
  imports PublicHeaders Utils "HOL-Library.AList"
begin

text \<open>
  The messages of the QUIC crypto handshake
  (\<open>internal/handshake/handshake_message.go\<close>, \<open>tags.go\<close>) and the public reset
  packet built from one (\<open>internal/wire/public_reset.go\<close>).

  A Go map from tags to values is an association list with distinct keys; its
  iteration order is irrelevant because \<open>Write\<close> sorts the tags.  Shown here: a
  handshake message is read back from its bytes, and a public reset is recognised
  and read back by the peer.
\<close>

type_synonym Tag = u32
type_synonym params = "(Tag \<times> byte list) list"

abbreviation (input) CryptoMaxParams :: u32 where "CryptoMaxParams \<equiv> 128"
abbreviation (input) CryptoParameterMaxLength :: u32 where "CryptoParameterMaxLength \<equiv> 4000"

text \<open>A tag is its four characters, the first one in the lowest byte.\<close>

definition tagOf :: "u32 \<Rightarrow> u32 \<Rightarrow> u32 \<Rightarrow> u32 \<Rightarrow> Tag" where
  "tagOf a b c d = a + push_bit 8 b + push_bit 16 c + push_bit 24 d"

definition TagMSPC :: Tag where "TagMSPC = tagOf 0x4d 0x53 0x50 0x43"
definition TagMIDS :: Tag where "TagMIDS = tagOf 0x4d 0x49 0x44 0x53"
definition TagTCID :: Tag where "TagTCID = tagOf 0x54 0x43 0x49 0x44"
definition TagICSL :: Tag where "TagICSL = tagOf 0x49 0x43 0x53 0x4c"
definition TagCFCW :: Tag where "TagCFCW = tagOf 0x43 0x46 0x43 0x57"
definition TagSFCW :: Tag where "TagSFCW = tagOf 0x53 0x46 0x43 0x57"
definition TagPRST :: Tag where "TagPRST = tagOf 0x50 0x52 0x53 0x54"
definition TagRSEQ :: Tag where "TagRSEQ = tagOf 0x52 0x53 0x45 0x51"
definition TagRNON :: Tag where "TagRNON = tagOf 0x52 0x4e 0x4f 0x4e"

lemmas tag_defs = TagMSPC_def TagMIDS_def TagTCID_def TagICSL_def TagCFCW_def TagSFCW_def
  TagPRST_def TagRSEQ_def TagRNON_def tagOf_def

record HandshakeMessage =
  hm_Tag :: Tag
  hm_Data :: params

text \<open>\<open>binary.LittleEndian.Uint32\<close> and \<open>Uint64\<close> of the standard library.\<close>

definition leUint32 :: "byte list \<Rightarrow> u32" where "leUint32 bs = of_nat (le_val (take 4 bs))"
definition leUint64 :: "byte list \<Rightarrow> u64" where "leUint64 bs = of_nat (le_val (take 8 bs))"

fun parseEntries :: "nat \<Rightarrow> byte list \<Rightarrow> u32 \<Rightarrow> params \<Rightarrow> byte list \<Rightarrow> params parsed" where
  "parseEntries 0 index dataStart resultMap r = Inr (resultMap, r)"
| "parseEntries (Suc n) index dataStart resultMap r =
     (let tag = leUint32 (take 4 index);
          dataEnd = leUint32 (take 4 (drop 4 index));
          dataLen = dataEnd - dataStart
      in if dataLen > CryptoParameterMaxLength
         then Inl (QuicError CryptoInvalidValueLength ''value too long'')
         else rbind (ReadFull (unat dataLen) r) (\<lambda>data r.
           parseEntries n (drop 8 index) dataEnd (AList.update tag data resultMap) r))"

definition ParseHandshakeMessage :: "byte list \<Rightarrow> HandshakeMessage parsed" where
  "ParseHandshakeMessage r =
     rbind (ReadFull 4 r) (\<lambda>slice4 r.
       let messageTag = leUint32 slice4
       in rbind (ReadFull 4 r) (\<lambda>slice4 r.
         let nPairs = leUint32 slice4
         in if nPairs > CryptoMaxParams then Inl (ErrorCode CryptoTooManyEntries)
            else rbind (ReadFull (unat (nPairs * 8)) r) (\<lambda>index r.
              rbind (parseEntries (unat nPairs) index 0 [] r) (\<lambda>resultMap r.
                Inr (\<lparr>hm_Tag = messageTag, hm_Data = resultMap\<rparr>, r)))))"

definition getTagsSorted :: "HandshakeMessage \<Rightarrow> Tag list" where
  "getTagsSorted h = sort (map fst (hm_Data h))"

definition lookupTag :: "params \<Rightarrow> Tag \<Rightarrow> byte list" where
  "lookupTag m t = (case map_of m t of Some v \<Rightarrow> v | None \<Rightarrow> [])"

text \<open>The index and the values that the loop over the sorted tags writes.\<close>

fun writeEntries :: "params \<Rightarrow> u32 \<Rightarrow> Tag list \<Rightarrow> byte list \<times> byte list" where
  "writeEntries m offset [] = ([], [])"
| "writeEntries m offset (t # ts) =
     (let v = lookupTag m t;
          offset = offset + of_nat (length v);
          (index, data) = writeEntries m offset ts
      in (little_WriteUint32 t @ little_WriteUint32 offset @ index, v @ data))"

definition HandshakeMessage_Write :: "HandshakeMessage \<Rightarrow> byte list" where
  "HandshakeMessage_Write h =
     (let (indexData, data) = writeEntries (hm_Data h) 0 (getTagsSorted h)
      in WriteUint32 LittleEndian (hm_Tag h)
         @ WriteUint16 LittleEndian (of_nat (length (hm_Data h)))
         @ WriteUint16 LittleEndian 0 @ indexData @ data)"

section \<open>Public resets\<close>

record PublicReset =
  pr_RejectedPacketNumber :: PacketNumber
  pr_Nonce :: u64

definition WritePublicReset :: "ConnectionID \<Rightarrow> PacketNumber \<Rightarrow> u64 \<Rightarrow> byte list" where
  "WritePublicReset connectionID rejectedPacketNumber nonceProof =
     [0x0a]
     @ WriteUint64 LittleEndian connectionID
     @ WriteUint32 LittleEndian TagPRST
     @ WriteUint32 LittleEndian 2
     @ WriteUint32 LittleEndian TagRNON
     @ WriteUint32 LittleEndian 8
     @ WriteUint32 LittleEndian TagRSEQ
     @ WriteUint32 LittleEndian 16
     @ WriteUint64 LittleEndian nonceProof
     @ WriteUint64 LittleEndian rejectedPacketNumber"

definition ParsePublicReset :: "byte list \<Rightarrow> PublicReset parsed" where
  "ParsePublicReset r =
     rbind (ParseHandshakeMessage r) (\<lambda>msg r.
       if hm_Tag msg \<noteq> TagPRST then Inl (GoError ''wrong public reset tag'')
       else case map_of (hm_Data msg) TagRSEQ of
         None \<Rightarrow> Inl (GoError ''RSEQ missing'')
       | Some rseq \<Rightarrow>
           if length rseq \<noteq> 8 then Inl (GoError ''invalid RSEQ tag'')
           else case map_of (hm_Data msg) TagRNON of
             None \<Rightarrow> Inl (GoError ''RNON missing'')
           | Some rnon \<Rightarrow>
               if length rnon \<noteq> 8 then Inl (GoError ''invalid RNON tag'')
               else Inr (\<lparr>pr_RejectedPacketNumber = leUint64 rseq, pr_Nonce = leUint64 rnon\<rparr>, r))"

section \<open>Reading back\<close>

lemma leUint_written [simp]:
  "leUint32 (little_WriteUint32 x) = x" "leUint64 (little_WriteUint64 y) = y"
  using unat_bound_u32 [of x] unat_bound_u64 [of y]
  by (simp_all add: leUint32_def leUint64_def little_writes le_val_le_enc)

lemma length_little [simp]:
  "length (little_WriteUint32 x) = 4" "length (little_WriteUint64 y) = 8"
  "length (little_WriteUint16 z) = 2"
  by (simp_all add: little_writes)

lemma update_fresh: "k \<notin> fst ` set m \<Longrightarrow> AList.update k v m = m @ [(k, v)]"
  by (induction m) auto

lemma parse_written_entries:
  assumes "distinct ts" "fst ` set acc \<inter> set ts = {}"
    and "\<forall>t \<in> set ts. length (lookupTag m t) \<le> 4000"
    and "writeEntries m offset ts = (index, data)"
  shows "parseEntries (length ts) index offset acc (data @ r)
    = Inr (acc @ map (\<lambda>t. (t, lookupTag m t)) ts, r)"
  using assms
proof (induction ts arbitrary: offset index data acc)
  case Nil
  then show ?case by simp
next
  case (Cons t ts)
  obtain i d where e: "writeEntries m (offset + of_nat (length (lookupTag m t))) ts = (i, d)"
    by fastforce
  have len: "length (lookupTag m t) \<le> 4000" using Cons.prems(3) by simp
  then have u: "unat (of_nat (length (lookupTag m t)) :: u32) = length (lookupTag m t)"
    by (simp add: unat_of_nat)
  have "\<not> CryptoParameterMaxLength < (of_nat (length (lookupTag m t)) :: u32)"
    using len u by (simp add: word_less_nat_alt)
  moreover have "AList.update t (lookupTag m t) acc = acc @ [(t, lookupTag m t)]"
    using Cons.prems(2) by (intro update_fresh) auto
  moreover have "parseEntries (length ts) i (offset + of_nat (length (lookupTag m t)))
      (acc @ [(t, lookupTag m t)]) (d @ r)
    = Inr ((acc @ [(t, lookupTag m t)]) @ map (\<lambda>t. (t, lookupTag m t)) ts, r)"
    using Cons.prems e by (intro Cons.IH) auto
  ultimately show ?case
    using Cons.prems(4) e u by (auto simp: Let_def)
qed

lemma length_writeEntries: "length (fst (writeEntries m offset ts)) = 8 * length ts"
proof (induction ts arbitrary: offset)
  case (Cons t ts)
  then show ?case using Cons.IH [of "offset + of_nat (length (lookupTag m t))"]
    by (simp add: Let_def case_prod_beta)
qed simp

lemma map_of_sorted_tags:
  assumes "set ts = fst ` set m"
  shows "map_of (map (\<lambda>t. (t, lookupTag m t)) ts) = map_of m"
proof
  fix t
  show "map_of (map (\<lambda>t. (t, lookupTag m t)) ts) t = map_of m t"
  proof (cases "t \<in> set ts")
    case True
    then obtain v where "map_of m t = Some v"
      using assms by (metis map_of_eq_None_iff not_Some_eq)
    then show ?thesis using True by (simp add: map_of_map_restrict restrict_map_def lookupTag_def)
  next
    case False
    then show ?thesis using assms
      by (simp add: map_of_map_restrict restrict_map_def map_of_eq_None_iff [symmetric])
  qed
qed

definition HandshakeMessage_ok :: "HandshakeMessage \<Rightarrow> bool" where
  "HandshakeMessage_ok h \<longleftrightarrow> distinct (map fst (hm_Data h)) \<and> length (hm_Data h) \<le> 128 \<and>
     (\<forall>(t, v) \<in> set (hm_Data h). length v \<le> 4000)"

lemma leUint32_len: "n \<le> 128 \<Longrightarrow>
    leUint32 (little_WriteUint16 (of_nat n) @ little_WriteUint16 0) = of_nat n"
  by (simp add: leUint32_def little_writes le_val_append le_val_le_enc unat_of_nat)

lemma ParseHandshakeMessage_written:
  assumes "HandshakeMessage_ok h"
  shows "ParseHandshakeMessage (HandshakeMessage_Write h @ r) =
    Inr (\<lparr>hm_Tag = hm_Tag h, hm_Data = map (\<lambda>t. (t, lookupTag (hm_Data h) t)) (getTagsSorted h)\<rparr>, r)"
proof -
  let ?m = "hm_Data h" and ?ts = "getTagsSorted h"
  let ?n = "length ?m"
  obtain i d where w: "writeEntries ?m 0 ?ts = (i, d)" by fastforce
  have n: "?n \<le> 128" and ts: "distinct ?ts" "length ?ts = ?n" "set ?ts = fst ` set ?m"
    using assms by (auto simp: HandshakeMessage_ok_def getTagsSorted_def)
  have "length (lookupTag ?m t) \<le> 4000" for t
    using assms by (auto simp: lookupTag_def HandshakeMessage_ok_def split: option.splits
        dest!: map_of_SomeD)
  then have p: "parseEntries ?n i 0 [] (d @ r) = Inr (map (\<lambda>t. (t, lookupTag ?m t)) ?ts, r)"
    using parse_written_entries [OF ts(1) _ _ w, of "[]" r] ts(2) by simp
  have i: "length i = 8 * ?n" using length_writeEntries [of ?m 0 ?ts] w ts(2) by simp
  define hd where "hd = little_WriteUint16 (of_nat ?n) @ little_WriteUint16 0"
  have un: "unat (of_nat ?n :: u32) = ?n" "unat (of_nat ?n * 8 :: u32) = 8 * ?n"
    using n by (simp_all add: unat_of_nat unat_word_ariths)
  have le: "\<not> CryptoMaxParams < (of_nat ?n :: u32)"
    using n un(1) by (simp add: word_less_nat_alt)
  have "HandshakeMessage_Write h @ r = little_WriteUint32 (hm_Tag h) @ hd @ i @ d @ r"
    using w by (simp add: HandshakeMessage_Write_def hd_def)
  moreover have "leUint32 hd = of_nat ?n" "length hd = 4"
    using leUint32_len [OF n] by (simp_all add: hd_def)
  ultimately show ?thesis using p i un le by (simp add: ParseHandshakeMessage_def Let_def)
qed

text \<open>
  C22: Handshake messages can be read back.  A message of at most 128 entries of at
  most 4000 bytes is written with its tags in ascending order, and parsing the
  bytes gives back the same tag and the same map from tags to values.
\<close>

theorem HandshakeMessage_roundtrip:
  assumes "HandshakeMessage_ok h"
  shows "\<exists>h'. ParseHandshakeMessage (HandshakeMessage_Write h @ r) = Inr (h', r) \<and>
    hm_Tag h' = hm_Tag h \<and> map_of (hm_Data h') = map_of (hm_Data h) \<and>
    sorted (map fst (hm_Data h'))"
  using ParseHandshakeMessage_written [OF assms, of r]
  by (simp add: map_of_sorted_tags getTagsSorted_def comp_def)

theorem HandshakeMessage_roundtrip_witness:
  "\<exists>h'. ParseHandshakeMessage (HandshakeMessage_Write
      \<lparr>hm_Tag = TagPRST, hm_Data = [(TagSFCW, [1, 2, 3]), (TagCFCW, [])]\<rparr> @ [7]) = Inr (h', [7]) \<and>
    map_of (hm_Data h') TagSFCW = Some [1, 2, 3]"
proof -
  let ?h = "\<lparr>hm_Tag = TagPRST, hm_Data = [(TagSFCW, [1, 2, 3]), (TagCFCW, [])]\<rparr>"
  have "HandshakeMessage_ok ?h" by (simp add: HandshakeMessage_ok_def tag_defs)
  from HandshakeMessage_roundtrip [OF this, of "[7]"] show ?thesis by auto
qed

definition resetMessage :: "PacketNumber \<Rightarrow> u64 \<Rightarrow> HandshakeMessage" where
  "resetMessage pn nonce =
     \<lparr>hm_Tag = TagPRST, hm_Data = [(TagRNON, little_WriteUint64 nonce), (TagRSEQ, little_WriteUint64 pn)]\<rparr>"

lemma tag_order: "TagRNON \<noteq> TagRSEQ" "TagRSEQ \<noteq> TagRNON" "TagRNON \<le> TagRSEQ"
  by (simp_all add: tag_defs)

lemma WritePublicReset_message:
  "WritePublicReset c pn nonce =
     [0x0a] @ little_WriteUint64 c @ HandshakeMessage_Write (resetMessage pn nonce)"
proof -
  have "little_WriteUint16 2 @ little_WriteUint16 0 = little_WriteUint32 2"
    by code_simp
  then have "little_WriteUint16 2 @ little_WriteUint16 0 @ x = little_WriteUint32 2 @ x" for x
    by (metis append_assoc)
  then show ?thesis
    by (simp add: WritePublicReset_def HandshakeMessage_Write_def resetMessage_def getTagsSorted_def
        lookupTag_def tag_order Let_def)
qed

lemma ParsePublicReset_message:
  "ParsePublicReset (HandshakeMessage_Write (resetMessage pn nonce))
    = Inr (\<lparr>pr_RejectedPacketNumber = pn, pr_Nonce = nonce\<rparr>, [])"
proof -
  have "HandshakeMessage_ok (resetMessage pn nonce)"
    by (simp add: HandshakeMessage_ok_def resetMessage_def tag_order)
  from ParseHandshakeMessage_written [OF this, of "[]"] show ?thesis
    by (simp add: ParsePublicReset_def resetMessage_def getTagsSorted_def lookupTag_def tag_order)
qed

text \<open>
  C36: Public resets can be read back.  The packet that \<open>WritePublicReset\<close> builds
  is recognised by \<open>ParsePublicHeader\<close> as a reset of the given connection, for any
  version the receiver uses, and \<open>ParsePublicReset\<close> recovers the rejected packet
  number and the nonce from the remaining bytes.
\<close>

theorem PublicReset_roundtrip:
  assumes "connectionID \<noteq> 0"
  shows "\<exists>h r. ParsePublicHeader (WritePublicReset connectionID pn nonce) PerspectiveServer version
      = Inr (h, r) \<and> ph_ResetFlag h \<and> ph_ConnectionID h = connectionID \<and>
    ParsePublicReset r = Inr (\<lparr>pr_RejectedPacketNumber = pn, pr_Nonce = nonce\<rparr>, [])"
  using assms ParsePublicReset_message [of pn nonce]
  by (simp add: WritePublicReset_message ParsePublicHeader_def parsePublicFlags_def Let_def
      PublicHeader_hasPacketNumber_def PublicHeader_zero_def parseConnectionID_def parseNonce_def
      parseVersion_def parsePathAndNumber_def little.r64_w64)

theorem PublicReset_roundtrip_witness:
  "\<exists>h r. ParsePublicHeader (WritePublicReset 5 77 99) PerspectiveServer Version39 = Inr (h, r) \<and>
    ParsePublicReset r = Inr (\<lparr>pr_RejectedPacketNumber = 77, pr_Nonce = 99\<rparr>, [])"
  using PublicReset_roundtrip [of 5 77 99 Version39] by auto

end
