(* ===== verification/ConnectionParameters.thy ===== *)
theory ConnectionParameters
  imports HandshakeMessages
begin

text \<open>
  The connection parameters manager
  (\<open>internal/handshake/connection_parameters_manager.go\<close>).  \<open>SetFromMap\<close> returns
  the changed manager and the error, if any; parameters read before an error stay
  set.  The read-write mutex has no counterpart: every method holds it for its
  whole run.
\<close>

section \<open>Definitions\<close>

abbreviation (input) InitialStreamFlowControlWindow :: ByteCount where
  "InitialStreamFlowControlWindow \<equiv> push_bit 14 1"
abbreviation (input) InitialConnectionFlowControlWindow :: ByteCount where
  "InitialConnectionFlowControlWindow \<equiv> push_bit 14 1"
definition ReceiveStreamFlowControlWindow :: ByteCount where
  "ReceiveStreamFlowControlWindow = push_bit 10 1 * 32"
definition ReceiveConnectionFlowControlWindow :: ByteCount where
  "ReceiveConnectionFlowControlWindow = push_bit 10 1 * 48"
definition MaxStreamsPerConnection :: u32 where "MaxStreamsPerConnection = 100"
definition MaxIncomingDynamicStreamsPerConnection :: u32 where
  "MaxIncomingDynamicStreamsPerConnection = 100"
abbreviation (input) MaxStreamsMinimumIncrement :: u32 where "MaxStreamsMinimumIncrement \<equiv> 10"

record connectionParametersManager =
  cpm_version :: VersionNumber
  cpm_perspective :: Perspective
  cpm_flowControlNegotiated :: bool
  cpm_truncateConnectionID :: bool
  cpm_maxStreamsPerConnection :: u32
  cpm_maxIncomingDynamicStreamsPerConnection :: u32
  cpm_idleConnectionStateLifetime :: duration
  cpm_sendStreamFlowControlWindow :: ByteCount
  cpm_sendConnectionFlowControlWindow :: ByteCount
  cpm_receiveStreamFlowControlWindow :: ByteCount
  cpm_receiveConnectionFlowControlWindow :: ByteCount
  cpm_maxReceiveStreamFlowControlWindow :: ByteCount
  cpm_maxReceiveConnectionFlowControlWindow :: ByteCount

abbreviation (input) ErrMalformedTag :: go_error where
  "ErrMalformedTag \<equiv> QuicError InvalidCryptoMessageParameter ''malformed Tag value''"
abbreviation (input) ErrFlowControlRenegotiationNotSupported :: go_error where
  "ErrFlowControlRenegotiationNotSupported \<equiv> QuicError InvalidCryptoMessageParameter
     ''renegotiation of flow control parameters not supported''"

definition NewConnectionParamatersManager ::
    "Perspective \<Rightarrow> VersionNumber \<Rightarrow> ByteCount \<Rightarrow> ByteCount \<Rightarrow> duration \<Rightarrow> connectionParametersManager" where
  "NewConnectionParamatersManager pers v maxReceiveStream maxReceiveConnection idleTimeout =
     \<lparr>cpm_version = v, cpm_perspective = pers, cpm_flowControlNegotiated = False,
      cpm_truncateConnectionID = False,
      cpm_maxStreamsPerConnection = MaxStreamsPerConnection,
      cpm_maxIncomingDynamicStreamsPerConnection = MaxStreamsPerConnection,
      cpm_idleConnectionStateLifetime = idleTimeout,
      cpm_sendStreamFlowControlWindow = InitialStreamFlowControlWindow,
      cpm_sendConnectionFlowControlWindow = InitialConnectionFlowControlWindow,
      cpm_receiveStreamFlowControlWindow = ReceiveStreamFlowControlWindow,
      cpm_receiveConnectionFlowControlWindow = ReceiveConnectionFlowControlWindow,
      cpm_maxReceiveStreamFlowControlWindow = maxReceiveStream,
      cpm_maxReceiveConnectionFlowControlWindow = maxReceiveConnection\<rparr>"

definition negotiateMaxStreamsPerConnection :: "u32 \<Rightarrow> u32" where
  "negotiateMaxStreamsPerConnection clientValue = MinUint32 clientValue MaxStreamsPerConnection"

definition negotiateMaxIncomingDynamicStreamsPerConnection :: "u32 \<Rightarrow> u32" where
  "negotiateMaxIncomingDynamicStreamsPerConnection clientValue =
     MinUint32 clientValue MaxIncomingDynamicStreamsPerConnection"

definition negotiateIdleConnectionStateLifetime ::
    "connectionParametersManager \<Rightarrow> duration \<Rightarrow> duration" where
  "negotiateIdleConnectionStateLifetime h clientValue =
     MinDuration clientValue (cpm_idleConnectionStateLifetime h)"

text \<open>
  One \<open>if value, ok := params[tag]; ok\<close> block of \<open>SetFromMap\<close>: \<open>check\<close> is the
  test made before the value is read, \<open>assign\<close> the assignment.
\<close>

definition readParam ::
    "params \<Rightarrow> Tag \<Rightarrow> (connectionParametersManager \<Rightarrow> go_error option)
     \<Rightarrow> (u32 \<Rightarrow> connectionParametersManager \<Rightarrow> connectionParametersManager)
     \<Rightarrow> connectionParametersManager \<Rightarrow> connectionParametersManager \<times> go_error option" where
  "readParam params tag check assign h =
     (case map_of params tag of
        None \<Rightarrow> (h, None)
      | Some value \<Rightarrow>
          (case check h of
             Some e \<Rightarrow> (h, Some e)
           | None \<Rightarrow>
               (case ReadUint32 LittleEndian value of
                  Inl err \<Rightarrow> (h, Some ErrMalformedTag)
                | Inr (clientValue, _) \<Rightarrow> (assign clientValue h, None))))"

definition renegotiation :: "connectionParametersManager \<Rightarrow> go_error option" where
  "renegotiation h =
     (if cpm_flowControlNegotiated h then Some ErrFlowControlRenegotiationNotSupported else None)"

definition SetFromMap ::
    "params \<Rightarrow> connectionParametersManager \<Rightarrow> connectionParametersManager \<times> go_error option" where
  "SetFromMap params h =
     andThen (if cpm_perspective h = PerspectiveServer
              then readParam params TagTCID (\<lambda>h. None)
                (\<lambda>v h. h\<lparr>cpm_truncateConnectionID := (v = 0)\<rparr>) h
              else (h, None)) (\<lambda>h.
     andThen (readParam params TagMSPC (\<lambda>h. None)
       (\<lambda>v h. h\<lparr>cpm_maxStreamsPerConnection := negotiateMaxStreamsPerConnection v\<rparr>) h) (\<lambda>h.
     andThen (readParam params TagMIDS (\<lambda>h. None)
       (\<lambda>v h. h\<lparr>cpm_maxIncomingDynamicStreamsPerConnection :=
          negotiateMaxIncomingDynamicStreamsPerConnection v\<rparr>) h) (\<lambda>h.
     andThen (readParam params TagICSL (\<lambda>h. None)
       (\<lambda>v h. h\<lparr>cpm_idleConnectionStateLifetime :=
          negotiateIdleConnectionStateLifetime h (uint v * Second)\<rparr>) h) (\<lambda>h.
     andThen (readParam params TagSFCW renegotiation
       (\<lambda>v h. h\<lparr>cpm_sendStreamFlowControlWindow := ucast v\<rparr>) h) (\<lambda>h.
     andThen (readParam params TagCFCW renegotiation
       (\<lambda>v h. h\<lparr>cpm_sendConnectionFlowControlWindow := ucast v\<rparr>) h) (\<lambda>h.
       let containsSFCW = (map_of params TagSFCW \<noteq> None);
           containsCFCW = (map_of params TagCFCW \<noteq> None)
       in (if containsCFCW \<or> containsSFCW then h\<lparr>cpm_flowControlNegotiated := True\<rparr> else h, None)))))))"

definition GetReceiveStreamFlowControlWindow :: "connectionParametersManager \<Rightarrow> ByteCount" where
  "GetReceiveStreamFlowControlWindow h = cpm_receiveStreamFlowControlWindow h"

definition GetReceiveConnectionFlowControlWindow :: "connectionParametersManager \<Rightarrow> ByteCount" where
  "GetReceiveConnectionFlowControlWindow h = cpm_receiveConnectionFlowControlWindow h"

definition GetSendStreamFlowControlWindow :: "connectionParametersManager \<Rightarrow> ByteCount" where
  "GetSendStreamFlowControlWindow h = cpm_sendStreamFlowControlWindow h"

definition GetSendConnectionFlowControlWindow :: "connectionParametersManager \<Rightarrow> ByteCount" where
  "GetSendConnectionFlowControlWindow h = cpm_sendConnectionFlowControlWindow h"

definition GetMaxReceiveStreamFlowControlWindow :: "connectionParametersManager \<Rightarrow> ByteCount" where
  "GetMaxReceiveStreamFlowControlWindow h = cpm_maxReceiveStreamFlowControlWindow h"

definition GetMaxReceiveConnectionFlowControlWindow :: "connectionParametersManager \<Rightarrow> ByteCount" where
  "GetMaxReceiveConnectionFlowControlWindow h = cpm_maxReceiveConnectionFlowControlWindow h"

definition GetIdleConnectionStateLifetime :: "connectionParametersManager \<Rightarrow> duration" where
  "GetIdleConnectionStateLifetime h = cpm_idleConnectionStateLifetime h"

definition GetMaxOutgoingStreams :: "connectionParametersManager \<Rightarrow> u32" where
  "GetMaxOutgoingStreams h = cpm_maxIncomingDynamicStreamsPerConnection h"

text \<open>The factor 1.1 is exact here: the product is truncated to an integer.\<close>

definition GetMaxIncomingStreams :: "connectionParametersManager \<Rightarrow> u32" where
  "GetMaxIncomingStreams h =
     (let maxStreams = MaxIncomingDynamicStreamsPerConnection
      in MaxUint32 (maxStreams + MaxStreamsMinimumIncrement) (maxStreams * 11 div 10))"

definition TruncateConnectionID :: "connectionParametersManager \<Rightarrow> bool" where
  "TruncateConnectionID h =
     (if cpm_perspective h = PerspectiveClient then False else cpm_truncateConnectionID h)"

definition GetHelloMap :: "connectionParametersManager \<Rightarrow> params" where
  "GetHelloMap h =
     (let sfcw = WriteUint32 LittleEndian (ucast (GetReceiveStreamFlowControlWindow h));
          cfcw = WriteUint32 LittleEndian (ucast (GetReceiveConnectionFlowControlWindow h));
          mspc = WriteUint32 LittleEndian (cpm_maxStreamsPerConnection h);
          mids = WriteUint32 LittleEndian MaxIncomingDynamicStreamsPerConnection;
          icsl = WriteUint32 LittleEndian
            (word_of_int (go_quot (GetIdleConnectionStateLifetime h) Second))
      in [(TagICSL, icsl), (TagMSPC, mspc), (TagMIDS, mids), (TagCFCW, cfcw), (TagSFCW, sfcw)])"

section \<open>Properties\<close>

lemma readParam_written:
  "map_of params tag = Some (little_WriteUint32 x) \<Longrightarrow> check h = None \<Longrightarrow>
   readParam params tag check assign h = (assign x h, None)"
  using little.r32_w32 [of x "[]"] by (simp add: readParam_def)

lemma readParam_absent: "map_of params tag = None \<Longrightarrow> readParam params tag check assign h = (h, None)"
  by (simp add: readParam_def)

lemma hello_tags:
  "map_of (GetHelloMap c) TagTCID = None"
  "map_of (GetHelloMap c) TagMSPC = Some (little_WriteUint32 (cpm_maxStreamsPerConnection c))"
  "map_of (GetHelloMap c) TagMIDS = Some (little_WriteUint32 100)"
  "map_of (GetHelloMap c) TagICSL = Some (little_WriteUint32
     (word_of_int (go_quot (cpm_idleConnectionStateLifetime c) Second)))"
  "map_of (GetHelloMap c) TagSFCW = Some (little_WriteUint32 (ucast (cpm_receiveStreamFlowControlWindow c)))"
  "map_of (GetHelloMap c) TagCFCW = Some (little_WriteUint32 (ucast (cpm_receiveConnectionFlowControlWindow c)))"
  by (simp_all add: GetHelloMap_def Let_def tag_defs GetReceiveStreamFlowControlWindow_def
      GetReceiveConnectionFlowControlWindow_def GetIdleConnectionStateLifetime_def
      MaxIncomingDynamicStreamsPerConnection_def)

lemma GetHelloMap_ok: "HandshakeMessage_ok \<lparr>hm_Tag = t, hm_Data = GetHelloMap c\<rparr>"
  by (simp add: HandshakeMessage_ok_def GetHelloMap_def Let_def tag_defs)

lemma SetFromMap_hello:
  assumes "\<not> cpm_flowControlNegotiated s" "map_of m = map_of (GetHelloMap c)"
  shows "SetFromMap m s = (s\<lparr>
     cpm_maxStreamsPerConnection := min (cpm_maxStreamsPerConnection c) 100,
     cpm_maxIncomingDynamicStreamsPerConnection := 100,
     cpm_idleConnectionStateLifetime := min (cpm_idleConnectionStateLifetime s)
       (uint (word_of_int (go_quot (cpm_idleConnectionStateLifetime c) Second) :: u32) * Second),
     cpm_sendStreamFlowControlWindow := ucast (ucast (cpm_receiveStreamFlowControlWindow c) :: u32),
     cpm_sendConnectionFlowControlWindow := ucast (ucast (cpm_receiveConnectionFlowControlWindow c) :: u32),
     cpm_flowControlNegotiated := True\<rparr>, None)"
  using assms(1)
  by (simp add: SetFromMap_def readParam_written readParam_absent assms(2) hello_tags renegotiation_def
      negotiateMaxStreamsPerConnection_def negotiateMaxIncomingDynamicStreamsPerConnection_def
      negotiateIdleConnectionStateLifetime_def minmax_simps MaxStreamsPerConnection_def
      MaxIncomingDynamicStreamsPerConnection_def min.commute)

lemma idle_seconds:
  assumes "0 \<le> d" "d < 2 ^ 32 * Second"
  shows "uint (word_of_int (go_quot d Second) :: u32) * Second = d - d mod Second"
proof -
  have "go_quot d Second = d div Second" using assms(1) by (simp add: go_quot_def Second_def Millisecond_def Microsecond_def)
  moreover have "0 \<le> d div Second" "d div Second < 2 ^ 32"
    using assms by (simp_all add: Second_def Millisecond_def Microsecond_def)
  ultimately show ?thesis by (simp add: unsigned_of_int take_bit_int_eq_self minus_mod_eq_div_mult)
qed

lemma ucast_u64_u32: "unat (w :: u64) < 2 ^ 32 \<Longrightarrow> ucast (ucast w :: u32) = w"
  by (simp add: word_unat_eq_iff unsigned_ucast_eq)
    (simp add: unsigned_take_bit_eq take_bit_nat_eq_self_iff)

text \<open>
  C23: Negotiation over the wire.  When a client puts its parameters in a handshake
  message and a server that has not negotiated yet reads that message, the server
  accepts it; its send windows become the client's receive windows, its idle
  timeout becomes the smaller of its own and the client's in whole seconds, and the
  number of streams is capped at 100.  Reading the message a second time is refused.
\<close>

theorem hello_negotiation:
  assumes "\<not> cpm_flowControlNegotiated s"
    and "unat (cpm_receiveStreamFlowControlWindow c) < 2 ^ 32"
    and "unat (cpm_receiveConnectionFlowControlWindow c) < 2 ^ 32"
    and "0 \<le> cpm_idleConnectionStateLifetime c" "cpm_idleConnectionStateLifetime c < 2 ^ 32 * Second"
  shows "\<exists>msg s'. ParseHandshakeMessage (HandshakeMessage_Write \<lparr>hm_Tag = t, hm_Data = GetHelloMap c\<rparr>)
      = Inr (msg, []) \<and> SetFromMap (hm_Data msg) s = (s', None) \<and>
    GetSendStreamFlowControlWindow s' = GetReceiveStreamFlowControlWindow c \<and>
    GetSendConnectionFlowControlWindow s' = GetReceiveConnectionFlowControlWindow c \<and>
    GetIdleConnectionStateLifetime s' = min (GetIdleConnectionStateLifetime s)
      (GetIdleConnectionStateLifetime c - GetIdleConnectionStateLifetime c mod Second) \<and>
    cpm_maxStreamsPerConnection s' = min (cpm_maxStreamsPerConnection c) 100 \<and>
    snd (SetFromMap (hm_Data msg) s') = Some ErrFlowControlRenegotiationNotSupported"
proof -
  let ?h = "\<lparr>hm_Tag = t, hm_Data = GetHelloMap c\<rparr>"
  let ?m = "map (\<lambda>t. (t, lookupTag (GetHelloMap c) t)) (getTagsSorted ?h)"
  have parse: "ParseHandshakeMessage (HandshakeMessage_Write ?h) = Inr (\<lparr>hm_Tag = t, hm_Data = ?m\<rparr>, [])"
    using ParseHandshakeMessage_written [OF GetHelloMap_ok, of t c "[]"] by simp
  have m: "map_of ?m = map_of (GetHelloMap c)"
    by (rule map_of_sorted_tags) (simp add: getTagsSorted_def)
  have again: "snd (SetFromMap ?m s') = Some ErrFlowControlRenegotiationNotSupported"
    if "cpm_flowControlNegotiated s'" for s'
    using that m hello_tags
    by (simp add: SetFromMap_def readParam_written readParam_absent)
      (simp add: readParam_def renegotiation_def hello_tags)
  show ?thesis
    using assms parse SetFromMap_hello [OF assms(1) m] again
    by (simp add: GetSendStreamFlowControlWindow_def GetSendConnectionFlowControlWindow_def
        GetReceiveStreamFlowControlWindow_def GetReceiveConnectionFlowControlWindow_def
        GetIdleConnectionStateLifetime_def ucast_u64_u32 idle_seconds)
qed

theorem hello_negotiation_witness:
  "\<exists>msg s'. ParseHandshakeMessage (HandshakeMessage_Write \<lparr>hm_Tag = 0, hm_Data = GetHelloMap
        (NewConnectionParamatersManager PerspectiveClient Version39 0 0 (20 * Second))\<rparr>) = Inr (msg, []) \<and>
    SetFromMap (hm_Data msg) (NewConnectionParamatersManager PerspectiveServer Version39 0 0 (30 * Second))
      = (s', None) \<and>
    GetSendStreamFlowControlWindow s' = 32768 \<and> GetIdleConnectionStateLifetime s' = 20 * Second"
proof -
  let ?c = "NewConnectionParamatersManager PerspectiveClient Version39 0 0 (20 * Second)"
  let ?s = "NewConnectionParamatersManager PerspectiveServer Version39 0 0 (30 * Second)"
  have "\<not> cpm_flowControlNegotiated ?s" "unat (cpm_receiveStreamFlowControlWindow ?c) < 2 ^ 32"
    "unat (cpm_receiveConnectionFlowControlWindow ?c) < 2 ^ 32"
    "0 \<le> cpm_idleConnectionStateLifetime ?c" "cpm_idleConnectionStateLifetime ?c < 2 ^ 32 * Second"
    by (simp_all add: NewConnectionParamatersManager_def ReceiveStreamFlowControlWindow_def
        ReceiveConnectionFlowControlWindow_def Second_def Millisecond_def Microsecond_def push_bit_eq_mult)
  from hello_negotiation [OF this, of 0] show ?thesis
    by (simp add: NewConnectionParamatersManager_def ReceiveStreamFlowControlWindow_def push_bit_eq_mult
        GetReceiveStreamFlowControlWindow_def GetIdleConnectionStateLifetime_def
        Second_def Millisecond_def Microsecond_def) blast
qed

lemma readParam_inv:
  "P h \<Longrightarrow> (\<And>v. check h = None \<Longrightarrow> P (assign v h)) \<Longrightarrow> P (fst (readParam params tag check assign h))"
  by (auto simp: readParam_def split: option.splits sum.splits)

text \<open>What a peer's parameters can never do, whatever they contain.\<close>

definition within_limits :: "connectionParametersManager \<Rightarrow> connectionParametersManager \<Rightarrow> bool" where
  "within_limits h h' \<longleftrightarrow>
     cpm_idleConnectionStateLifetime h' \<le> cpm_idleConnectionStateLifetime h \<and>
     (cpm_maxStreamsPerConnection h \<le> 100 \<longrightarrow> cpm_maxStreamsPerConnection h' \<le> 100) \<and>
     (GetMaxOutgoingStreams h \<le> 100 \<longrightarrow> GetMaxOutgoingStreams h' \<le> 100) \<and>
     GetReceiveStreamFlowControlWindow h' = GetReceiveStreamFlowControlWindow h \<and>
     GetReceiveConnectionFlowControlWindow h' = GetReceiveConnectionFlowControlWindow h \<and>
     (cpm_flowControlNegotiated h \<longrightarrow> cpm_flowControlNegotiated h' \<and>
        GetSendStreamFlowControlWindow h' = GetSendStreamFlowControlWindow h \<and>
        GetSendConnectionFlowControlWindow h' = GetSendConnectionFlowControlWindow h)"

lemmas within_limits_defs = within_limits_def GetMaxOutgoingStreams_def
  GetReceiveStreamFlowControlWindow_def GetReceiveConnectionFlowControlWindow_def
  GetSendStreamFlowControlWindow_def GetSendConnectionFlowControlWindow_def
  renegotiation_def negotiateMaxStreamsPerConnection_def
  negotiateMaxIncomingDynamicStreamsPerConnection_def negotiateIdleConnectionStateLifetime_def
  minmax_simps MaxStreamsPerConnection_def MaxIncomingDynamicStreamsPerConnection_def

lemma within_limits_assign:
  assumes "within_limits h s"
  shows "within_limits h (s\<lparr>cpm_truncateConnectionID := b\<rparr>)"
    and "within_limits h (s\<lparr>cpm_maxStreamsPerConnection := negotiateMaxStreamsPerConnection v\<rparr>)"
    and "within_limits h (s\<lparr>cpm_maxIncomingDynamicStreamsPerConnection :=
           negotiateMaxIncomingDynamicStreamsPerConnection v\<rparr>)"
    and "within_limits h (s\<lparr>cpm_idleConnectionStateLifetime :=
           negotiateIdleConnectionStateLifetime s d\<rparr>)"
    and "renegotiation s = None \<Longrightarrow> within_limits h (s\<lparr>cpm_sendStreamFlowControlWindow := w\<rparr>)"
    and "renegotiation s = None \<Longrightarrow> within_limits h (s\<lparr>cpm_sendConnectionFlowControlWindow := w\<rparr>)"
    and "within_limits h (s\<lparr>cpm_flowControlNegotiated := True\<rparr>)"
  using assms by (auto simp: within_limits_defs split: if_splits)

lemma SetFromMap_limits: "within_limits h (fst (SetFromMap params h))"
proof -
  have "within_limits h h" by (simp add: within_limits_def)
  then have "within_limits h (fst (if cpm_perspective h = PerspectiveServer
      then readParam params TagTCID (\<lambda>h. None) (\<lambda>v h. h\<lparr>cpm_truncateConnectionID := (v = 0)\<rparr>) h
      else (h, None)))"
    by (simp add: readParam_inv within_limits_assign)
  then show ?thesis unfolding SetFromMap_def
    by (intro andThen_inv [where P = "within_limits h"] readParam_inv [where P = "within_limits h"])
      (assumption | simp add: within_limits_assign Let_def)+
qed

text \<open>
  C24: A peer's parameters cannot exceed the local limits.  Whatever map a peer
  sends, and also when it is rejected half-way, \<open>SetFromMap\<close> never prolongs the
  idle timeout, never allows more than 100 streams in either direction, never
  touches the receive windows, and changes no send window once flow control has
  been negotiated.
\<close>

theorem SetFromMap_within_limits:
  assumes "SetFromMap params h = (h', e)"
  shows "within_limits h h'"
  using SetFromMap_limits [of h params] assms by simp

theorem SetFromMap_within_limits_witness:
  "\<exists>h' e. SetFromMap [(TagMSPC, [255, 255, 0, 0]), (TagSFCW, [1])]
      (NewConnectionParamatersManager PerspectiveServer Version39 0 0 (30 * Second)) = (h', e) \<and>
    cpm_maxStreamsPerConnection h' \<le> 100"
proof -
  let ?h = "NewConnectionParamatersManager PerspectiveServer Version39 0 0 (30 * Second)"
  obtain h' e where "SetFromMap [(TagMSPC, [255, 255, 0, 0]), (TagSFCW, [1])] ?h = (h', e)"
    by fastforce
  with SetFromMap_within_limits [OF this] show ?thesis
    by (auto simp: within_limits_def NewConnectionParamatersManager_def MaxStreamsPerConnection_def)
qed

end
