(* ===== verification/FlowControl.thy ===== *)
theory FlowControl
  imports ConnectionParameters RttStats
begin

text \<open>
  Flow control of streams and of the connection
  (\<open>internal/flowcontrol/flow_controller.go\<close>, \<open>flow_control_manager.go\<close>).  The
  connection parameters, the round-trip statistics and the remote round-trip times are
  shared with the session, so they are arguments of the operations that read them; the
  map of remote times is a list, of which only the maximum matters.  Byte counts wrap
  around.  A loop over the map of streams runs in an order that Go leaves open, so the
  order is an argument.
\<close>

section \<open>One controller\<close>

record flowController =
  fc_streamID :: StreamID
  fc_contributesToConnection :: bool
  fc_bytesSent :: ByteCount
  fc_sendWindow :: ByteCount
  fc_bytesRetrans :: ByteCount
  fc_lastWindowUpdateTime :: time
  fc_bytesRead :: ByteCount
  fc_highestReceived :: ByteCount
  fc_receiveWindow :: ByteCount
  fc_receiveWindowIncrement :: ByteCount
  fc_maxReceiveWindowIncrement :: ByteCount

abbreviation (input) ErrReceivedSmallerByteOffset :: go_error where
  "ErrReceivedSmallerByteOffset \<equiv> GoError ''Received a smaller byte offset''"

definition newFlowController :: "connectionParametersManager \<Rightarrow> StreamID \<Rightarrow> bool \<Rightarrow> flowController" where
  "newFlowController cpm streamID contributesToConnection =
     (let window = (if streamID = 0 then GetReceiveConnectionFlowControlWindow cpm
                    else GetReceiveStreamFlowControlWindow cpm)
      in \<lparr>fc_streamID = streamID, fc_contributesToConnection = contributesToConnection,
          fc_bytesSent = 0, fc_sendWindow = 0, fc_bytesRetrans = 0, fc_lastWindowUpdateTime = 0,
          fc_bytesRead = 0, fc_highestReceived = 0, fc_receiveWindow = window,
          fc_receiveWindowIncrement = window,
          fc_maxReceiveWindowIncrement =
            (if streamID = 0 then GetMaxReceiveConnectionFlowControlWindow cpm
             else GetMaxReceiveStreamFlowControlWindow cpm)\<rparr>)"

definition getSendWindow :: "connectionParametersManager \<Rightarrow> flowController \<Rightarrow> ByteCount" where
  "getSendWindow cpm c =
     (if fc_sendWindow c = 0
      then if fc_streamID c = 0 then GetSendConnectionFlowControlWindow cpm
           else GetSendStreamFlowControlWindow cpm
      else fc_sendWindow c)"

definition fc_AddBytesSent :: "ByteCount \<Rightarrow> flowController \<Rightarrow> flowController" where
  "fc_AddBytesSent n c = c\<lparr>fc_bytesSent := fc_bytesSent c + n\<rparr>"

definition fc_AddBytesRetrans :: "ByteCount \<Rightarrow> flowController \<Rightarrow> flowController" where
  "fc_AddBytesRetrans n c = c\<lparr>fc_bytesRetrans := fc_bytesRetrans c + n\<rparr>"

definition UpdateSendWindow :: "ByteCount \<Rightarrow> flowController \<Rightarrow> flowController \<times> bool" where
  "UpdateSendWindow newOffset c =
     (if newOffset > fc_sendWindow c then (c\<lparr>fc_sendWindow := newOffset\<rparr>, True) else (c, False))"

definition fc_SendWindowSize :: "connectionParametersManager \<Rightarrow> flowController \<Rightarrow> ByteCount" where
  "fc_SendWindowSize cpm c =
     (let sendWindow = getSendWindow cpm c
      in if fc_bytesSent c > sendWindow then 0 else sendWindow - fc_bytesSent c)"

definition SendWindowOffset :: "connectionParametersManager \<Rightarrow> flowController \<Rightarrow> ByteCount" where
  "SendWindowOffset cpm c = getSendWindow cpm c"

definition fc_UpdateHighestReceived ::
    "ByteCount \<Rightarrow> flowController \<Rightarrow> flowController \<times> ByteCount \<times> go_error option" where
  "fc_UpdateHighestReceived byteOffset c =
     (if byteOffset = fc_highestReceived c then (c, 0, None)
      else if byteOffset > fc_highestReceived c
      then (c\<lparr>fc_highestReceived := byteOffset\<rparr>, byteOffset - fc_highestReceived c, None)
      else (c, 0, Some ErrReceivedSmallerByteOffset))"

definition IncrementHighestReceived :: "ByteCount \<Rightarrow> flowController \<Rightarrow> flowController" where
  "IncrementHighestReceived increment c = c\<lparr>fc_highestReceived := fc_highestReceived c + increment\<rparr>"

definition fc_AddBytesRead :: "ByteCount \<Rightarrow> time \<Rightarrow> flowController \<Rightarrow> flowController" where
  "fc_AddBytesRead n now c =
     (let c = (if fc_bytesRead c = 0 then c\<lparr>fc_lastWindowUpdateTime := now\<rparr> else c)
      in c\<lparr>fc_bytesRead := fc_bytesRead c + n\<rparr>)"

definition maybeAdjustWindowIncrement ::
    "RTTStats \<Rightarrow> duration list \<Rightarrow> time \<Rightarrow> flowController \<Rightarrow> flowController" where
  "maybeAdjustWindowIncrement rttStats remoteRTTs now c =
     (if fc_lastWindowUpdateTime c = 0 then c
      else if SmoothedRTT rttStats = 0 then c
      else let timeSinceLastWindowUpdate = timeSub now (fc_lastWindowUpdateTime c);
               maxRemoteRTT = fold (\<lambda>remoteRTT m. MaxDuration m remoteRTT) remoteRTTs 0
           in if timeSinceLastWindowUpdate \<ge> 2 * MaxDuration (SmoothedRTT rttStats) maxRemoteRTT then c
              else c\<lparr>fc_receiveWindowIncrement :=
                     MinByteCount (2 * fc_receiveWindowIncrement c) (fc_maxReceiveWindowIncrement c)\<rparr>)"

definition MaybeUpdateWindow ::
    "RTTStats \<Rightarrow> duration list \<Rightarrow> time \<Rightarrow> flowController \<Rightarrow> flowController \<times> bool \<times> ByteCount \<times> ByteCount" where
  "MaybeUpdateWindow rttStats remoteRTTs now c =
     (let diff = fc_receiveWindow c - fc_bytesRead c
      in if diff < fc_receiveWindowIncrement c div 2
         then let oldWindowIncrement = fc_receiveWindowIncrement c;
                  c = maybeAdjustWindowIncrement rttStats remoteRTTs now c;
                  newWindowIncrement =
                    (if fc_receiveWindowIncrement c \<noteq> oldWindowIncrement
                     then fc_receiveWindowIncrement c else 0);
                  c = c\<lparr>fc_lastWindowUpdateTime := now,
                        fc_receiveWindow := fc_bytesRead c + fc_receiveWindowIncrement c\<rparr>
              in (c, True, newWindowIncrement, fc_receiveWindow c)
         else (c, False, fc_receiveWindowIncrement c, fc_receiveWindow c))"

definition EnsureMinimumWindowIncrement :: "ByteCount \<Rightarrow> flowController \<Rightarrow> flowController" where
  "EnsureMinimumWindowIncrement inc c =
     (if inc > fc_receiveWindowIncrement c
      then c\<lparr>fc_receiveWindowIncrement := MinByteCount inc (fc_maxReceiveWindowIncrement c),
             fc_lastWindowUpdateTime := 0\<rparr>
      else c)"

definition CheckFlowControlViolation :: "flowController \<Rightarrow> bool" where
  "CheckFlowControlViolation c \<longleftrightarrow> fc_highestReceived c > fc_receiveWindow c"

section \<open>The manager\<close>

record flowControlManager =
  fcm_streams :: "StreamID \<rightharpoonup> flowController"
  fcm_conn :: flowController
  fcm_numOutofOrder :: int

abbreviation (input) errMapAccess :: go_error where
  "errMapAccess \<equiv> GoError ''Error accessing the flowController map.''"

definition NewFlowControlManager :: "connectionParametersManager \<Rightarrow> flowControlManager" where
  "NewFlowControlManager cpm =
     \<lparr>fcm_streams = Map.empty, fcm_conn = newFlowController cpm 0 False, fcm_numOutofOrder = 0\<rparr>"

definition fcm_NewStream ::
    "connectionParametersManager \<Rightarrow> StreamID \<Rightarrow> bool \<Rightarrow> flowControlManager \<Rightarrow> flowControlManager" where
  "fcm_NewStream cpm streamID contributesToConnection f =
     (case fcm_streams f streamID of
        Some _ \<Rightarrow> f
      | None \<Rightarrow> f\<lparr>fcm_streams := (fcm_streams f)(streamID \<mapsto> newFlowController cpm streamID contributesToConnection)\<rparr>)"

definition fcm_RemoveStream :: "StreamID \<Rightarrow> flowControlManager \<Rightarrow> flowControlManager" where
  "fcm_RemoveStream streamID f = f\<lparr>fcm_streams := (fcm_streams f)(streamID := None)\<rparr>"

definition getFlowController :: "StreamID \<Rightarrow> flowControlManager \<Rightarrow> flowController result" where
  "getFlowController streamID f =
     (case fcm_streams f streamID of Some c \<Rightarrow> Inr c | None \<Rightarrow> Inl errMapAccess)"

definition putFlowController :: "StreamID \<Rightarrow> flowController \<Rightarrow> flowControlManager \<Rightarrow> flowControlManager" where
  "putFlowController streamID c f = f\<lparr>fcm_streams := (fcm_streams f)(streamID \<mapsto> c)\<rparr>"

text \<open>
  The second half that \<open>ResetStream\<close> and \<open>UpdateHighestReceived\<close> have in common: both
  windows are checked after the new offset has been recorded.
\<close>

definition checkReceived :: "StreamID \<Rightarrow> ByteCount \<Rightarrow> flowController \<Rightarrow> flowControlManager \<Rightarrow>
    flowControlManager \<times> go_error option" where
  "checkReceived streamID increment c f =
     (if CheckFlowControlViolation c
      then (f, Some (QuicError FlowControlReceivedTooMuchData ''Received %d bytes on stream %d, allowed %d bytes''))
      else if fc_contributesToConnection c
      then let f = f\<lparr>fcm_conn := IncrementHighestReceived increment (fcm_conn f)\<rparr>
           in if CheckFlowControlViolation (fcm_conn f)
              then (f, Some (QuicError FlowControlReceivedTooMuchData
                      ''Received %d bytes for the connection, allowed %d bytes''))
              else (f, None)
      else (f, None))"

definition ResetStream :: "StreamID \<Rightarrow> ByteCount \<Rightarrow> flowControlManager \<Rightarrow> flowControlManager \<times> go_error option" where
  "ResetStream streamID byteOffset f =
     (case getFlowController streamID f of
        Inl e \<Rightarrow> (f, Some e)
      | Inr c \<Rightarrow>
          (case fc_UpdateHighestReceived byteOffset c of
             (c, increment, Some _) \<Rightarrow> (putFlowController streamID c f, Some (ErrorCode StreamDataAfterTermination))
           | (c, increment, None) \<Rightarrow> checkReceived streamID increment c (putFlowController streamID c f)))"

definition fcm_UpdateHighestReceived ::
    "StreamID \<Rightarrow> ByteCount \<Rightarrow> flowControlManager \<Rightarrow> flowControlManager \<times> go_error option" where
  "fcm_UpdateHighestReceived streamID byteOffset f =
     (case getFlowController streamID f of
        Inl e \<Rightarrow> (f, Some e)
      | Inr c \<Rightarrow>
          (case fc_UpdateHighestReceived byteOffset c of
             (c, increment, errReorder) \<Rightarrow>
               let f = (if errReorder \<noteq> None then f\<lparr>fcm_numOutofOrder := fcm_numOutofOrder f + 1\<rparr> else f)
               in checkReceived streamID increment c (putFlowController streamID c f)))"

text \<open>The three counters that are kept for a stream and, if it contributes, for the connection.\<close>

definition addToBoth ::
    "(flowController \<Rightarrow> flowController) \<Rightarrow> StreamID \<Rightarrow> flowControlManager \<Rightarrow>
     flowControlManager \<times> go_error option" where
  "addToBoth add streamID f =
     (case getFlowController streamID f of
        Inl e \<Rightarrow> (f, Some e)
      | Inr c \<Rightarrow>
          let f = putFlowController streamID (add c) f
          in ((if fc_contributesToConnection (add c) then f\<lparr>fcm_conn := add (fcm_conn f)\<rparr> else f), None))"

definition fcm_AddBytesRead ::
    "StreamID \<Rightarrow> ByteCount \<Rightarrow> time \<Rightarrow> flowControlManager \<Rightarrow> flowControlManager \<times> go_error option" where
  "fcm_AddBytesRead streamID n now = addToBoth (fc_AddBytesRead n now) streamID"

definition fcm_AddBytesSent ::
    "StreamID \<Rightarrow> ByteCount \<Rightarrow> flowControlManager \<Rightarrow> flowControlManager \<times> go_error option" where
  "fcm_AddBytesSent streamID n = addToBoth (fc_AddBytesSent n) streamID"

definition fcm_AddBytesRetrans ::
    "StreamID \<Rightarrow> ByteCount \<Rightarrow> flowControlManager \<Rightarrow> flowControlManager \<times> go_error option" where
  "fcm_AddBytesRetrans streamID n = addToBoth (fc_AddBytesRetrans n) streamID"

definition fcm_GetBytesSent :: "StreamID \<Rightarrow> flowControlManager \<Rightarrow> ByteCount result" where
  "fcm_GetBytesSent streamID f = wbind (getFlowController streamID f) (\<lambda>c. Inr (fc_bytesSent c))"

definition fcm_GetBytesRetrans :: "StreamID \<Rightarrow> flowControlManager \<Rightarrow> ByteCount result" where
  "fcm_GetBytesRetrans streamID f = wbind (getFlowController streamID f) (\<lambda>c. Inr (fc_bytesRetrans c))"

definition GetReceiveWindow :: "StreamID \<Rightarrow> flowControlManager \<Rightarrow> ByteCount result" where
  "GetReceiveWindow streamID f =
     (if streamID = 0 then Inr (fc_receiveWindow (fcm_conn f))
      else wbind (getFlowController streamID f) (\<lambda>c. Inr (fc_receiveWindow c)))"

definition fcm_SendWindowSize ::
    "connectionParametersManager \<Rightarrow> StreamID \<Rightarrow> flowControlManager \<Rightarrow> ByteCount result" where
  "fcm_SendWindowSize cpm streamID f =
     wbind (getFlowController streamID f) (\<lambda>c.
       let res = fc_SendWindowSize cpm c
       in Inr (if fc_contributesToConnection c
               then MinByteCount res (fc_SendWindowSize cpm (fcm_conn f)) else res))"

definition RemainingConnectionWindowSize :: "connectionParametersManager \<Rightarrow> flowControlManager \<Rightarrow> ByteCount" where
  "RemainingConnectionWindowSize cpm f = fc_SendWindowSize cpm (fcm_conn f)"

definition UpdateWindow :: "StreamID \<Rightarrow> ByteCount \<Rightarrow> flowControlManager \<Rightarrow> flowControlManager \<times> bool result" where
  "UpdateWindow streamID offset f =
     (if streamID = 0
      then case UpdateSendWindow offset (fcm_conn f) of (c, b) \<Rightarrow> (f\<lparr>fcm_conn := c\<rparr>, Inr b)
      else case getFlowController streamID f of
             Inl e \<Rightarrow> (f, Inl e)
           | Inr c \<Rightarrow> (case UpdateSendWindow offset c of (c, b) \<Rightarrow> (putFlowController streamID c f, Inr b)))"

record WindowUpdate =
  wup_StreamID :: StreamID
  wup_Offset :: ByteCount

definition streamWindowUpdate ::
    "RTTStats \<Rightarrow> duration list \<Rightarrow> time \<Rightarrow> bool \<Rightarrow> StreamID \<Rightarrow> flowControlManager \<times> WindowUpdate list \<Rightarrow>
     flowControlManager \<times> WindowUpdate list" where
  "streamWindowUpdate rttStats remoteRTTs now force streamID fr =
     (case (fr, fcm_streams (fst fr) streamID) of
        ((f, res), None) \<Rightarrow> (f, res)
      | ((f, res), Some c) \<Rightarrow>
          (case MaybeUpdateWindow rttStats remoteRTTs now c of
             (c, necessary, newIncrement, offset) \<Rightarrow>
               let f = putFlowController streamID c f
               in if force \<or> necessary
                  then ((if fc_contributesToConnection c \<and> newIncrement \<noteq> 0
                         then f\<lparr>fcm_conn := EnsureMinimumWindowIncrement
                                (word_of_int (truncInt (f64 (f64 (of_nat (unat newIncrement)) * (3 / 2))))) (fcm_conn f)\<rparr>
                         else f),
                        res @ [\<lparr>wup_StreamID = streamID, wup_Offset = offset\<rparr>])
                  else (f, res)))"

definition GetWindowUpdates ::
    "RTTStats \<Rightarrow> duration list \<Rightarrow> time \<Rightarrow> StreamID list \<Rightarrow> bool \<Rightarrow> flowControlManager \<Rightarrow>
     flowControlManager \<times> WindowUpdate list" where
  "GetWindowUpdates rttStats remoteRTTs now order force f =
     (case fold (streamWindowUpdate rttStats remoteRTTs now force) order (f, []) of
        (f, res) \<Rightarrow>
          (case MaybeUpdateWindow rttStats remoteRTTs now (fcm_conn f) of
             (c, necessary, _, offset) \<Rightarrow>
               (f\<lparr>fcm_conn := c\<rparr>,
                if force \<or> necessary then res @ [\<lparr>wup_StreamID = 0, wup_Offset = offset\<rparr>] else res)))"

section \<open>Accounting\<close>

text \<open>What a controller contributes to a counter of the connection.\<close>

definition contrib :: "(flowController \<Rightarrow> ByteCount) \<Rightarrow> flowController \<Rightarrow> ByteCount" where
  "contrib g c = (if fc_contributesToConnection c then g c else 0)"

definition accounted :: "(flowController \<Rightarrow> ByteCount) \<Rightarrow> flowControlManager \<Rightarrow> flowController list \<Rightarrow> bool" where
  "accounted g f gone \<longleftrightarrow>
     g (fcm_conn f) = (\<Sum>id\<in>dom (fcm_streams f). contrib g (the (fcm_streams f id))) + sum_list (map (contrib g) gone)"

lemma sum_map_upd:
  fixes h :: "'v \<Rightarrow> 'w :: ab_group_add"
  assumes "finite (dom m)"
  shows "(\<Sum>id\<in>dom (m(k \<mapsto> v)). h (the ((m(k \<mapsto> v)) id))) =
    (\<Sum>id\<in>dom m. h (the (m id))) + h v - (case m k of Some u \<Rightarrow> h u | None \<Rightarrow> 0)"
proof -
  have "(\<Sum>id\<in>dom (m(k \<mapsto> v)). h (the ((m(k \<mapsto> v)) id))) = h v + (\<Sum>id\<in>dom m - {k}. h (the (m id)))"
  proof -
    have d: "dom (m(k \<mapsto> v)) = insert k (dom m - {k})" by auto
    have e: "(\<Sum>id\<in>dom m - {k}. h (the ((m(k \<mapsto> v)) id))) = (\<Sum>id\<in>dom m - {k}. h (the (m id)))"
      by (rule sum.cong) auto
    show ?thesis unfolding d using assms e by (subst sum.insert) (simp_all only: finite_Diff, simp_all)
  qed
  moreover have "(\<Sum>id\<in>dom m. h (the (m id))) =
      (case m k of Some u \<Rightarrow> h u | None \<Rightarrow> 0) + (\<Sum>id\<in>dom m - {k}. h (the (m id)))"
  proof (cases "m k")
    case (Some u)
    then have "k \<in> dom m" by auto
    then show ?thesis using assms Some by (simp add: sum.remove)
  qed (auto intro!: arg_cong [where f = "sum _"])
  ultimately show ?thesis by simp
qed

lemma sum_map_del:
  fixes h :: "'v \<Rightarrow> 'w :: ab_group_add"
  assumes "finite (dom m)" "m k = Some u"
  shows "(\<Sum>id\<in>dom (m(k := None)). h (the ((m(k := None)) id))) = (\<Sum>id\<in>dom m. h (the (m id))) - h u"
proof -
  have "(\<Sum>id\<in>dom m - {k}. h (the ((m(k := None)) id))) = (\<Sum>id\<in>dom m - {k}. h (the (m id)))"
    by (rule sum.cong) auto
  moreover have "k \<in> dom m" using assms(2) by auto
  ultimately show ?thesis using assms by (simp add: sum.remove [of "dom m" k])
qed

definition fcm_inv :: "flowControlManager \<Rightarrow> flowController list \<Rightarrow> bool" where
  "fcm_inv f gone \<longleftrightarrow> finite (dom (fcm_streams f)) \<and> accounted fc_bytesSent f gone \<and>
     accounted fc_bytesRead f gone \<and> accounted fc_highestReceived f gone"

text \<open>A controller is replaced, and the connection moves by what it moves.\<close>

lemma accounted_put:
  assumes "accounted g f gone" "finite (dom (fcm_streams f))" "fcm_streams f k = Some c"
    "fcm_streams f' = (fcm_streams f)(k \<mapsto> c')" "g (fcm_conn f') - g (fcm_conn f) = contrib g c' - contrib g c"
  shows "accounted g f' gone"
proof -
  have s: "(\<Sum>id\<in>dom (fcm_streams f'). contrib g (the (fcm_streams f' id))) =
      (\<Sum>id\<in>dom (fcm_streams f). contrib g (the (fcm_streams f id))) + contrib g c' - contrib g c"
    unfolding assms(4) sum_map_upd [OF assms(2)] by (simp add: assms(3))
  have "g (fcm_conn f') = g (fcm_conn f) + (contrib g c' - contrib g c)"
    using assms(5) by (metis add.commute diff_add_cancel)
  then show ?thesis unfolding accounted_def s assms(1) [unfolded accounted_def] by simp
qed

lemmas keep_defs = fc_AddBytesSent_def fc_AddBytesRead_def fc_AddBytesRetrans_def Let_def

lemma getFlowController_Inr: "getFlowController k f = Inr c \<longleftrightarrow> fcm_streams f k = Some c"
  by (simp add: getFlowController_def split: option.split)

lemma addToBoth_inv:
  assumes "addToBoth add k f = (f', None)" "fcm_inv f gone"
    "\<And>c. fc_contributesToConnection (add c) = fc_contributesToConnection c"
    "\<And>c. fc_bytesSent (add c) = fc_bytesSent c + ns" "\<And>c. fc_bytesRead (add c) = fc_bytesRead c + nr"
    "\<And>c. fc_highestReceived (add c) = fc_highestReceived c"
  shows "fcm_inv f' gone"
proof -
  obtain c where c: "fcm_streams f k = Some c"
    and f': "f' = (let f = putFlowController k (add c) f
      in (if fc_contributesToConnection (add c) then f\<lparr>fcm_conn := add (fcm_conn f)\<rparr> else f))"
    using assms(1) by (auto simp: addToBoth_def getFlowController_Inr Let_def split: sum.splits)
  have s: "fcm_streams f' = (fcm_streams f)(k \<mapsto> add c)" by (simp add: f' putFlowController_def Let_def)
  have fin: "finite (dom (fcm_streams f))" using assms(2) by (simp add: fcm_inv_def)
  have "accounted g f' gone"
    if "accounted g f gone" "\<And>c. g (add c) = g c + n" for g n
    by (rule accounted_put [OF that(1) fin c s])
      (simp add: f' putFlowController_def Let_def contrib_def assms(3) that(2))
  then show ?thesis using assms(2,4,5,6) fin s unfolding fcm_inv_def
    by (metis (no_types, lifting) add.right_neutral dom_fun_upd finite.insertI finite_insert option.distinct(1))
qed

lemma MaybeUpdateWindow_keeps:
  assumes "MaybeUpdateWindow r rr now c = (c', b, i, off)"
  shows "fc_contributesToConnection c' = fc_contributesToConnection c" "fc_bytesSent c' = fc_bytesSent c"
    "fc_bytesRead c' = fc_bytesRead c" "fc_highestReceived c' = fc_highestReceived c" "fc_streamID c' = fc_streamID c"
proof -
  have m: "fc_contributesToConnection (maybeAdjustWindowIncrement r rr now c) = fc_contributesToConnection c \<and>
      fc_bytesSent (maybeAdjustWindowIncrement r rr now c) = fc_bytesSent c \<and>
      fc_bytesRead (maybeAdjustWindowIncrement r rr now c) = fc_bytesRead c \<and>
      fc_highestReceived (maybeAdjustWindowIncrement r rr now c) = fc_highestReceived c \<and>
      fc_streamID (maybeAdjustWindowIncrement r rr now c) = fc_streamID c"
    by (simp add: maybeAdjustWindowIncrement_def Let_def)
  show "fc_contributesToConnection c' = fc_contributesToConnection c" "fc_bytesSent c' = fc_bytesSent c"
    "fc_bytesRead c' = fc_bytesRead c" "fc_highestReceived c' = fc_highestReceived c" "fc_streamID c' = fc_streamID c"
    using assms m by (auto simp: MaybeUpdateWindow_def Let_def split: if_splits)
qed

lemma EnsureMinimum_keeps:
  "fc_bytesSent (EnsureMinimumWindowIncrement i c) = fc_bytesSent c"
  "fc_bytesRead (EnsureMinimumWindowIncrement i c) = fc_bytesRead c"
  "fc_highestReceived (EnsureMinimumWindowIncrement i c) = fc_highestReceived c"
  by (simp_all add: EnsureMinimumWindowIncrement_def)

lemma fcm_inv_same_conn:
  assumes "fcm_inv f gone" "fcm_streams f k = Some c" "fcm_streams f' = (fcm_streams f)(k \<mapsto> c')"
    "fc_contributesToConnection c' = fc_contributesToConnection c" "fc_bytesSent c' = fc_bytesSent c"
    "fc_bytesRead c' = fc_bytesRead c" "fc_highestReceived c' = fc_highestReceived c"
    "fc_bytesSent (fcm_conn f') = fc_bytesSent (fcm_conn f)"
    "fc_bytesRead (fcm_conn f') = fc_bytesRead (fcm_conn f)"
    "fc_highestReceived (fcm_conn f') = fc_highestReceived (fcm_conn f)"
  shows "fcm_inv f' gone"
proof -
  have fin: "finite (dom (fcm_streams f))" using assms(1) by (simp add: fcm_inv_def)
  have "accounted g f' gone" if "accounted g f gone" "g c' = g c" "g (fcm_conn f') = g (fcm_conn f)" for g
    by (rule accounted_put [OF that(1) fin assms(2,3)]) (simp add: contrib_def assms(4) that(2,3))
  then show ?thesis using assms fin by (simp add: fcm_inv_def)
qed

lemma fcm_inv_conn:
  assumes "fcm_inv f gone" "fc_bytesSent c = fc_bytesSent (fcm_conn f)" "fc_bytesRead c = fc_bytesRead (fcm_conn f)"
    "fc_highestReceived c = fc_highestReceived (fcm_conn f)"
  shows "fcm_inv (f\<lparr>fcm_conn := c\<rparr>) gone"
  using assms by (simp add: fcm_inv_def accounted_def)

lemma streamWindowUpdate_inv:
  assumes "fcm_inv (fst fr) gone"
  shows "fcm_inv (fst (streamWindowUpdate r rr now force k fr)) gone"
proof -
  obtain f res where fr: "fr = (f, res)" by force
  show ?thesis
  proof (cases "fcm_streams f k")
    case (Some c)
    obtain c' b i off where m: "MaybeUpdateWindow r rr now c = (c', b, i, off)" by (metis prod_cases4)
    note kp = MaybeUpdateWindow_keeps [OF m]
    have "fcm_inv (putFlowController k c' f) gone"
      by (rule fcm_inv_same_conn [OF _ Some, where c' = c']) (use assms fr kp in \<open>simp_all add: putFlowController_def\<close>)
    then have "fcm_inv ((putFlowController k c' f)\<lparr>fcm_conn := EnsureMinimumWindowIncrement w (fcm_conn (putFlowController k c' f))\<rparr>) gone"
      "fcm_inv (putFlowController k c' f) gone" for w
      by (auto intro: fcm_inv_conn simp: EnsureMinimum_keeps)
    then show ?thesis by (simp add: streamWindowUpdate_def fr Some m Let_def)
  qed (use assms fr in \<open>simp add: streamWindowUpdate_def\<close>)
qed

lemma GetWindowUpdates_inv:
  assumes "fcm_inv f gone"
  shows "fcm_inv (fst (GetWindowUpdates r rr now order force f)) gone"
proof -
  have "fcm_inv (fst (fold (streamWindowUpdate r rr now force) order fr)) gone" if "fcm_inv (fst fr) gone" for fr
    using that by (induction order arbitrary: fr) (simp_all add: streamWindowUpdate_inv)
  from this [of "(f, [])"] obtain f' res where f': "fold (streamWindowUpdate r rr now force) order (f, []) = (f', res)"
    "fcm_inv f' gone" using assms by (metis fst_conv prod.collapse)
  obtain c' b i off where m: "MaybeUpdateWindow r rr now (fcm_conn f') = (c', b, i, off)" by (metis prod_cases4)
  show ?thesis using fcm_inv_conn [OF f'(2)] MaybeUpdateWindow_keeps [OF m] by (simp add: GetWindowUpdates_def f' m)
qed

lemma checkReceived_None:
  assumes "checkReceived k i c f = (f', None)"
  shows "\<not> CheckFlowControlViolation c"
    "f' = (if fc_contributesToConnection c then f\<lparr>fcm_conn := IncrementHighestReceived i (fcm_conn f)\<rparr> else f)"
    "fc_contributesToConnection c \<Longrightarrow> \<not> CheckFlowControlViolation (fcm_conn f')"
  using assms by (auto simp: checkReceived_def Let_def split: if_splits)

lemma fc_UpdateHighestReceived_cases:
  assumes "fc_UpdateHighestReceived off c = (c', i, e)"
  shows "c' = c\<lparr>fc_highestReceived := max (fc_highestReceived c) off\<rparr>"
    "i = fc_highestReceived c' - fc_highestReceived c" "e = None \<longleftrightarrow> fc_highestReceived c \<le> off"
  using assms by (auto simp: fc_UpdateHighestReceived_def split: if_splits)

lemma received_inv:
  assumes "fc_UpdateHighestReceived off c = (c', i, e)" "fcm_streams f k = Some c" "fcm_inv f gone"
    "fcm_streams g = fcm_streams f" "fcm_conn g = fcm_conn f"
    "checkReceived k i c' (putFlowController k c' g) = (f', None)"
  shows "fcm_inv f' gone"
proof -
  note u = fc_UpdateHighestReceived_cases [OF assms(1)]
  note n = checkReceived_None [OF assms(6)]
  have fin: "finite (dom (fcm_streams f))" using assms(3) by (simp add: fcm_inv_def)
  have s: "fcm_streams f' = (fcm_streams f)(k \<mapsto> c')"
    unfolding n(2) using assms(4) by (simp add: putFlowController_def)
  have "accounted g' f' gone" if "accounted g' f gone"
    "g' (fcm_conn f') - g' (fcm_conn f) = contrib g' c' - contrib g' c" for g'
    by (rule accounted_put [OF that(1) fin assms(2) s that(2)])
  moreover have "contrib fc_bytesSent c' = contrib fc_bytesSent c" "contrib fc_bytesRead c' = contrib fc_bytesRead c"
    "contrib fc_highestReceived c' - contrib fc_highestReceived c = (if fc_contributesToConnection c then i else 0)"
    by (simp_all add: u(1) u(2) contrib_def)
  moreover have "fc_bytesSent (fcm_conn f') = fc_bytesSent (fcm_conn f)" "fc_bytesRead (fcm_conn f') = fc_bytesRead (fcm_conn f)"
    "fc_highestReceived (fcm_conn f') = fc_highestReceived (fcm_conn f) + (if fc_contributesToConnection c then i else 0)"
    unfolding n(2) using assms(5) by (simp_all add: putFlowController_def IncrementHighestReceived_def u(1))
  ultimately show ?thesis using assms(3) fin s by (simp add: fcm_inv_def)
qed

text \<open>
  Runs of the manager in which every operation succeeds; the second argument lists the
  controllers of the streams that have been removed, as they were then.
\<close>

inductive fcm_run :: "flowControlManager \<Rightarrow> flowController list \<Rightarrow> bool" where
  new: "fcm_run (NewFlowControlManager cpm) []"
| stream: "fcm_run f gone \<Longrightarrow> fcm_run (fcm_NewStream cpm k b f) gone"
| remove: "fcm_run f gone \<Longrightarrow> fcm_streams f k = Some c \<Longrightarrow> fcm_run (fcm_RemoveStream k f) (c # gone)"
| received: "fcm_run f gone \<Longrightarrow> fcm_UpdateHighestReceived k off f = (f', None) \<Longrightarrow> fcm_run f' gone"
| reset: "fcm_run f gone \<Longrightarrow> ResetStream k off f = (f', None) \<Longrightarrow> fcm_run f' gone"
| read: "fcm_run f gone \<Longrightarrow> fcm_AddBytesRead k n now f = (f', None) \<Longrightarrow> fcm_run f' gone"
| sent: "fcm_run f gone \<Longrightarrow> fcm_AddBytesSent k n f = (f', None) \<Longrightarrow> fcm_run f' gone"
| retrans: "fcm_run f gone \<Longrightarrow> fcm_AddBytesRetrans k n f = (f', None) \<Longrightarrow> fcm_run f' gone"
| updates: "fcm_run f gone \<Longrightarrow> fcm_run (fst (GetWindowUpdates r rr now order force f)) gone"
| window: "fcm_run f gone \<Longrightarrow> fcm_run (fst (UpdateWindow k off f)) gone"

lemma NewStream_inv: "fcm_inv f gone \<Longrightarrow> fcm_inv (fcm_NewStream cpm k b f) gone"
proof (cases "fcm_streams f k")
  case None
  assume i: "fcm_inv f gone"
  have z: "contrib g (newFlowController cpm k b) = 0"
    if "g \<in> {fc_bytesSent, fc_bytesRead, fc_highestReceived}" for g
    using that by (auto simp: contrib_def newFlowController_def Let_def)
  have fin: "finite (dom (fcm_streams f))" using i by (simp add: fcm_inv_def)
  have "accounted g (fcm_NewStream cpm k b f) gone"
    if "accounted g f gone" "g \<in> {fc_bytesSent, fc_bytesRead, fc_highestReceived}" for g
    using that(1) z [OF that(2)] sum_map_upd [OF fin, of "contrib g" k "newFlowController cpm k b"]
    unfolding accounted_def fcm_NewStream_def None by (simp add: None del: fun_upd_apply dom_fun_upd)
  then show ?thesis using i by (simp add: fcm_inv_def)
qed (simp add: fcm_NewStream_def)

lemma RemoveStream_inv: "fcm_inv f gone \<Longrightarrow> fcm_streams f k = Some c \<Longrightarrow> fcm_inv (fcm_RemoveStream k f) (c # gone)"
proof -
  assume i: "fcm_inv f gone" and k: "fcm_streams f k = Some c"
  have fin: "finite (dom (fcm_streams f))" using i by (simp add: fcm_inv_def)
  have "accounted g (fcm_RemoveStream k f) (c # gone)" if "accounted g f gone" for g
    using that sum_map_del [OF fin k, of "contrib g"]
    unfolding accounted_def fcm_RemoveStream_def by (simp del: fun_upd_apply dom_fun_upd)
  then show ?thesis using i by (simp add: fcm_inv_def)
qed

lemma UpdateWindow_inv:
  assumes "fcm_inv f gone"
  shows "fcm_inv (fst (UpdateWindow k off f)) gone"
proof -
  obtain c b where u: "UpdateSendWindow off (fcm_conn f) = (c, b)" by force
  have c: "fcm_inv (f\<lparr>fcm_conn := c\<rparr>) gone"
    by (rule fcm_inv_conn [OF assms]) (use u in \<open>auto simp: UpdateSendWindow_def split: if_splits\<close>)
  have "fcm_inv (putFlowController k c2 f) gone"
    if "fcm_streams f k = Some c1" "UpdateSendWindow off c1 = (c2, b2)" for c1 c2 b2
    by (rule fcm_inv_same_conn [OF assms that(1), where c' = c2])
      (use that(2) in \<open>auto simp: UpdateSendWindow_def putFlowController_def split: if_splits\<close>)
  then show ?thesis using assms u c
    by (auto simp: UpdateWindow_def getFlowController_Inr split: sum.split prod.split)
qed

lemma UpdateHighestReceived_inv:
  assumes "fcm_UpdateHighestReceived k off f = (f', None)" "fcm_inv f gone"
  shows "fcm_inv f' gone"
proof -
  obtain c c' i e where c: "fcm_streams f k = Some c" "fc_UpdateHighestReceived off c = (c', i, e)"
    and r: "checkReceived k i c' (putFlowController k c'
        (if e \<noteq> None then f\<lparr>fcm_numOutofOrder := fcm_numOutofOrder f + 1\<rparr> else f)) = (f', None)"
    using assms(1) by (auto simp: fcm_UpdateHighestReceived_def getFlowController_Inr Let_def
        split: sum.splits prod.splits simp del: not_None_eq if_split)
  show ?thesis by (rule received_inv [OF c(2,1) assms(2) _ _ r]) auto
qed

lemma ResetStream_inv:
  assumes "ResetStream k off f = (f', None)" "fcm_inv f gone"
  shows "fcm_inv f' gone"
proof -
  obtain c c' i where c: "fcm_streams f k = Some c" "fc_UpdateHighestReceived off c = (c', i, None)"
    and r: "checkReceived k i c' (putFlowController k c' f) = (f', None)"
    using assms(1) by (auto simp: ResetStream_def getFlowController_Inr split: sum.splits prod.splits option.splits)
  show ?thesis by (rule received_inv [OF c(2,1) assms(2) refl refl r])
qed

lemma fcm_run_inv: "fcm_run f gone \<Longrightarrow> fcm_inv f gone"
proof (induction rule: fcm_run.induct)
  case (new cpm)
  then show ?case by (simp add: fcm_inv_def accounted_def NewFlowControlManager_def newFlowController_def Let_def)
next
  case (read f gone k n now f')
  then show ?case unfolding fcm_AddBytesRead_def
    by (elim addToBoth_inv [where ns = 0 and nr = n]) (simp_all add: keep_defs)
next
  case (sent f gone k n f')
  then show ?case unfolding fcm_AddBytesSent_def
    by (elim addToBoth_inv [where ns = n and nr = 0]) (simp_all add: keep_defs)
next
  case (retrans f gone k n f')
  then show ?case unfolding fcm_AddBytesRetrans_def
    by (elim addToBoth_inv [where ns = 0 and nr = 0]) (simp_all add: keep_defs)
qed (blast intro: NewStream_inv RemoveStream_inv UpdateHighestReceived_inv ResetStream_inv GetWindowUpdates_inv UpdateWindow_inv)+

text \<open>
  C9: The connection-level counters are exact.  After any sequence of successful
  operations, streams opened and removed at any time, the bytes that the connection
  controller has counted as sent, as read and as received are the sums over all
  streams, removed ones included, that contribute to connection-level flow control.
\<close>

theorem connection_accounting:
  assumes "fcm_run f gone"
  shows "\<forall>g\<in>{fc_bytesSent, fc_bytesRead, fc_highestReceived}.
    g (fcm_conn f) =
      (\<Sum>id\<in>dom (fcm_streams f). contrib g (the (fcm_streams f id))) + sum_list (map (contrib g) gone)"
  using fcm_run_inv [OF assms] by (auto simp: fcm_inv_def accounted_def)

definition exampleParameters :: connectionParametersManager where
  "exampleParameters = NewConnectionParamatersManager PerspectiveServer Version39 32768 49152 30000000000"

theorem connection_accounting_witness:
  "\<exists>f gone. fcm_run f gone \<and> fcm_streams f 3 = None \<and> fc_bytesSent (fcm_conn f) = 150"
proof -
  let ?m = "NewFlowControlManager exampleParameters"
  let ?f = "fcm_NewStream exampleParameters 5 True (fcm_NewStream exampleParameters 3 True ?m)"
  let ?g = "fst (fcm_AddBytesSent 3 100 ?f)" and ?h = "fst (fcm_AddBytesSent 5 50 (fst (fcm_AddBytesSent 3 100 ?f)))"
  note d = fcm_AddBytesSent_def addToBoth_def getFlowController_def putFlowController_def Let_def
    fcm_NewStream_def NewFlowControlManager_def newFlowController_def fc_AddBytesSent_def
  have "fcm_run ?f []" by (intro fcm_run.stream fcm_run.new)
  then have "fcm_run ?g []" by (rule fcm_run.sent [where k = 3 and n = 100]) (simp add: d)
  then have "fcm_run ?h []" by (rule fcm_run.sent [where k = 5 and n = 50]) (simp add: d)
  then have r: "fcm_run (fcm_RemoveStream 3 ?h) [the (fcm_streams ?h 3)]"
    by (rule fcm_run.remove) (simp add: d)
  have "fc_bytesSent (fcm_conn (fcm_RemoveStream 3 ?h)) = 150"
    using connection_accounting [OF r] by (simp add: d fcm_RemoveStream_def contrib_def)
  then show ?thesis using r by (intro exI [of _ "fcm_RemoveStream 3 ?h"] exI) (auto simp: fcm_RemoveStream_def)
qed

section \<open>Windows\<close>

lemma fc_SendWindowSize_enough:
  assumes "n \<le> fc_SendWindowSize cpm c" "0 < n"
  shows "fc_bytesSent c + n \<le> getSendWindow cpm c" "unat (fc_bytesSent c + n) = unat (fc_bytesSent c) + unat n"
proof -
  let ?w = "getSendWindow cpm c"
  have le: "fc_bytesSent c \<le> ?w" "n \<le> ?w - fc_bytesSent c"
    using assms by (auto simp: fc_SendWindowSize_def Let_def split: if_splits)
  then have s: "unat (fc_bytesSent c) + unat n \<le> unat ?w"
    by (simp add: word_le_nat_alt unat_sub_if')
  then have "unat (fc_bytesSent c) + unat n < 2 ^ 64" using unsigned_less [of ?w, where 'a = nat] by simp
  then show u: "unat (fc_bytesSent c + n) = unat (fc_bytesSent c) + unat n" by (simp add: unat_word_ariths)
  show "fc_bytesSent c + n \<le> ?w" using s u by (simp add: word_le_nat_alt)
qed

text \<open>
  C10: Both directions stay inside their windows.  When \<open>UpdateHighestReceived\<close> accepts an
  offset, the highest offset of the stream, now at least the new one, is within the
  window announced for the stream, and that of the connection, for a stream that counts,
  within the one announced for the connection.  When a stream sends no more than
  \<open>SendWindowSize\<close>, the sum does not wrap around and neither the stream nor the
  connection exceeds the window that the peer granted.
\<close>

theorem windows_respected:
  assumes "fcm_streams f k = Some c"
  shows "(fcm_UpdateHighestReceived k off f = (f', None) \<longrightarrow>
      (\<exists>c'. fcm_streams f' k = Some c' \<and> fc_highestReceived c' = max (fc_highestReceived c) off \<and>
         fc_receiveWindow c' = fc_receiveWindow c \<and> fc_highestReceived c' \<le> fc_receiveWindow c \<and>
         (fc_contributesToConnection c \<longrightarrow> fc_highestReceived (fcm_conn f') \<le> fc_receiveWindow (fcm_conn f')))) \<and>
    (fcm_SendWindowSize cpm k f = Inr w \<and> 0 < n \<and> n \<le> w \<longrightarrow>
      (\<exists>f' c'. fcm_AddBytesSent k n f = (f', None) \<and> fcm_streams f' k = Some c' \<and>
         unat (fc_bytesSent c') = unat (fc_bytesSent c) + unat n \<and> fc_bytesSent c' \<le> getSendWindow cpm c' \<and>
         (fc_contributesToConnection c \<longrightarrow>
            fc_bytesSent (fcm_conn f') \<le> getSendWindow cpm (fcm_conn f'))))"
proof (intro conjI impI)
  assume u: "fcm_UpdateHighestReceived k off f = (f', None)"
  obtain c' i e where c: "fc_UpdateHighestReceived off c = (c', i, e)" by (metis prod_cases3)
  note x = fc_UpdateHighestReceived_cases [OF c]
  have "checkReceived k i c' (putFlowController k c'
      (if e \<noteq> None then f\<lparr>fcm_numOutofOrder := fcm_numOutofOrder f + 1\<rparr> else f)) = (f', None)"
    using u assms c by (simp add: fcm_UpdateHighestReceived_def getFlowController_def Let_def)
  note n = checkReceived_None [OF this]
  have "fcm_streams f' k = Some c'" unfolding n(2) by (simp add: putFlowController_def)
  moreover have "fc_highestReceived c' \<le> fc_receiveWindow c'" using n(1) by (simp add: CheckFlowControlViolation_def not_less)
  moreover have "fc_contributesToConnection c \<Longrightarrow> fc_highestReceived (fcm_conn f') \<le> fc_receiveWindow (fcm_conn f')"
    using n(3) x(1) by (simp add: CheckFlowControlViolation_def not_less)
  ultimately show "\<exists>c'. fcm_streams f' k = Some c' \<and> fc_highestReceived c' = max (fc_highestReceived c) off \<and>
         fc_receiveWindow c' = fc_receiveWindow c \<and> fc_highestReceived c' \<le> fc_receiveWindow c \<and>
         (fc_contributesToConnection c \<longrightarrow> fc_highestReceived (fcm_conn f') \<le> fc_receiveWindow (fcm_conn f'))"
    using x(1) by simp
next
  assume a: "fcm_SendWindowSize cpm k f = Inr w \<and> 0 < n \<and> n \<le> w"
  have w: "n \<le> fc_SendWindowSize cpm c" "fc_contributesToConnection c \<Longrightarrow> n \<le> fc_SendWindowSize cpm (fcm_conn f)"
    using a assms by (auto simp: fcm_SendWindowSize_def getFlowController_def MinByteCount_def Let_def split: if_splits)
  note s = fc_SendWindowSize_enough [OF w(1)] fc_SendWindowSize_enough [OF w(2)]
  have g: "getSendWindow cpm (fc_AddBytesSent n q) = getSendWindow cpm q" for q
    by (simp add: getSendWindow_def fc_AddBytesSent_def)
  show "\<exists>f' c'. fcm_AddBytesSent k n f = (f', None) \<and> fcm_streams f' k = Some c' \<and>
         unat (fc_bytesSent c') = unat (fc_bytesSent c) + unat n \<and> fc_bytesSent c' \<le> getSendWindow cpm c' \<and>
         (fc_contributesToConnection c \<longrightarrow> fc_bytesSent (fcm_conn f') \<le> getSendWindow cpm (fcm_conn f'))"
    using a assms s
    by (auto simp: fcm_AddBytesSent_def addToBoth_def getFlowController_def putFlowController_def Let_def g)
      (simp_all add: fc_AddBytesSent_def)
qed

theorem windows_respected_witness:
  "\<exists>f'. fcm_UpdateHighestReceived 3 1000 (fcm_NewStream exampleParameters 3 True (NewFlowControlManager exampleParameters)) = (f', None) \<and>
     fc_highestReceived (fcm_conn f') \<le> fc_receiveWindow (fcm_conn f')"
proof -
  let ?f = "fcm_NewStream exampleParameters 3 True (NewFlowControlManager exampleParameters)"
  have s: "fcm_streams ?f 3 = Some (newFlowController exampleParameters 3 True)"
    by (simp add: fcm_NewStream_def NewFlowControlManager_def)
  obtain f' e where u: "fcm_UpdateHighestReceived 3 1000 ?f = (f', e)" by force
  have "e = None"
    using u by (auto simp: fcm_UpdateHighestReceived_def getFlowController_def s fc_UpdateHighestReceived_def
        newFlowController_def checkReceived_def CheckFlowControlViolation_def putFlowController_def Let_def
        IncrementHighestReceived_def fcm_NewStream_def NewFlowControlManager_def exampleParameters_def
        NewConnectionParamatersManager_def GetReceiveStreamFlowControlWindow_def
        GetReceiveConnectionFlowControlWindow_def ReceiveStreamFlowControlWindow_def
        ReceiveConnectionFlowControlWindow_def split: if_splits)
  then have "fcm_UpdateHighestReceived 3 1000 ?f = (f', None)" using u by simp
  then show ?thesis
    using windows_respected [OF s, of 1000 f' exampleParameters 0 0] by (auto simp: newFlowController_def Let_def)
qed

lemma maybeAdjust_increment:
  fixes r :: RTTStats and rr :: "duration list" and now :: time
  assumes "fc_receiveWindowIncrement c \<le> fc_maxReceiveWindowIncrement c" "unat (fc_maxReceiveWindowIncrement c) < 2 ^ 62"
  defines "c' \<equiv> maybeAdjustWindowIncrement r rr now c"
  shows "fc_receiveWindowIncrement c \<le> fc_receiveWindowIncrement c'"
    "fc_receiveWindowIncrement c' \<le> fc_maxReceiveWindowIncrement c" "fc_bytesRead c' = fc_bytesRead c"
    "fc_maxReceiveWindowIncrement c' = fc_maxReceiveWindowIncrement c"
proof -
  have "unat (fc_receiveWindowIncrement c) < 2 ^ 62" using assms(1,2) by (simp add: word_le_nat_alt)
  then have "unat (2 * fc_receiveWindowIncrement c) = 2 * unat (fc_receiveWindowIncrement c)"
    by (simp add: unat_word_ariths)
  then have "fc_receiveWindowIncrement c \<le> 2 * fc_receiveWindowIncrement c" by (simp add: word_le_nat_alt)
  then show "fc_receiveWindowIncrement c \<le> fc_receiveWindowIncrement c'"
    "fc_receiveWindowIncrement c' \<le> fc_maxReceiveWindowIncrement c" "fc_bytesRead c' = fc_bytesRead c"
    "fc_maxReceiveWindowIncrement c' = fc_maxReceiveWindowIncrement c"
    using assms(1) by (simp_all add: c'_def maybeAdjustWindowIncrement_def MinByteCount_def Let_def less_imp_le)
qed

text \<open>
  C25: The receive window only grows.  For a controller whose reader has not gone past its
  window and whose increment is within the maximum, \<open>MaybeUpdateWindow\<close> announces a new
  offset exactly when less than half an increment is left; the window never moves back,
  the increment never shrinks and never exceeds the maximum, and after an update a full
  increment is open again, so that no second update is due before half of it is read.
\<close>

theorem receive_window_grows:
  assumes "fc_bytesRead c \<le> fc_receiveWindow c" "fc_receiveWindowIncrement c \<le> fc_maxReceiveWindowIncrement c"
    "unat (fc_maxReceiveWindowIncrement c) < 2 ^ 62" "unat (fc_receiveWindow c) < 2 ^ 62"
    "MaybeUpdateWindow r rr now c = (c', necessary, newIncrement, offset)"
  shows "offset = fc_receiveWindow c' \<and> fc_receiveWindow c \<le> fc_receiveWindow c' \<and>
    fc_receiveWindowIncrement c \<le> fc_receiveWindowIncrement c' \<and>
    fc_receiveWindowIncrement c' \<le> fc_maxReceiveWindowIncrement c' \<and>
    (necessary \<longleftrightarrow>
       unat (fc_receiveWindow c) - unat (fc_bytesRead c) < unat (fc_receiveWindowIncrement c) div 2) \<and>
    (necessary \<longrightarrow>
       unat (fc_receiveWindow c') = unat (fc_bytesRead c') + unat (fc_receiveWindowIncrement c') \<and>
       \<not> fst (snd (MaybeUpdateWindow r rr now' c')))"
proof -
  let ?a = "maybeAdjustWindowIncrement r rr now c"
  note m = maybeAdjust_increment [OF assms(2,3), of r rr now]
  have d: "unat (fc_receiveWindow c - fc_bytesRead c) = unat (fc_receiveWindow c) - unat (fc_bytesRead c)"
    using assms(1) by (simp add: unat_sub_if' word_le_nat_alt)
  have h: "fc_receiveWindow c - fc_bytesRead c < fc_receiveWindowIncrement c div 2 \<longleftrightarrow>
      unat (fc_receiveWindow c) - unat (fc_bytesRead c) < unat (fc_receiveWindowIncrement c) div 2"
    by (simp add: word_less_nat_alt d unat_div)
  have sum: "unat (fc_bytesRead c + fc_receiveWindowIncrement ?a) = unat (fc_bytesRead c) + unat (fc_receiveWindowIncrement ?a)"
    using assms(1,3,4) m(2) by (simp add: unat_word_ariths word_le_nat_alt)
  show ?thesis
  proof (cases "fc_receiveWindow c - fc_bytesRead c < fc_receiveWindowIncrement c div 2")
    case True
    have c': "c' = ?a\<lparr>fc_lastWindowUpdateTime := now, fc_receiveWindow := fc_bytesRead c + fc_receiveWindowIncrement ?a\<rparr>"
      "necessary" "offset = fc_bytesRead c + fc_receiveWindowIncrement ?a"
      using assms(5) True m(3) by (auto simp: MaybeUpdateWindow_def Let_def)
    have "fc_receiveWindow c \<le> fc_bytesRead c + fc_receiveWindowIncrement ?a"
      using True h sum assms(1) m(1) by (simp add: word_le_nat_alt)
    moreover have "\<not> fst (snd (MaybeUpdateWindow r rr now' c'))"
    proof -
      have "fc_receiveWindow c' - fc_bytesRead c' = fc_receiveWindowIncrement c'" by (simp add: c'(1) m(3))
      moreover have "\<not> x < x div 2" for x :: ByteCount by (simp add: word_less_nat_alt unat_div)
      ultimately show ?thesis by (simp add: MaybeUpdateWindow_def Let_def)
    qed
    ultimately show ?thesis using c' m sum True h by simp
  next
    case False
    then have "c' = c" "\<not> necessary" "offset = fc_receiveWindow c" using assms(5) by (auto simp: MaybeUpdateWindow_def Let_def)
    then show ?thesis using False h assms(2) by simp
  qed
qed

theorem receive_window_grows_witness:
  "\<exists>c' i off. MaybeUpdateWindow NewRTTStats [] 9 ((newFlowController exampleParameters 3 True)\<lparr>fc_bytesRead := 20000\<rparr>) = (c', True, i, off) \<and>
     32768 \<le> fc_receiveWindow c'"
proof -
  let ?c = "(newFlowController exampleParameters 3 True)\<lparr>fc_bytesRead := 20000\<rparr>"
  obtain c' b i off where m: "MaybeUpdateWindow NewRTTStats [] 9 ?c = (c', b, i, off)" by (metis prod_cases4)
  note d = newFlowController_def exampleParameters_def NewConnectionParamatersManager_def
    GetReceiveStreamFlowControlWindow_def GetMaxReceiveStreamFlowControlWindow_def ReceiveStreamFlowControlWindow_def Let_def
  have "32768 \<le> fc_receiveWindow c' \<and> b = (unat (fc_receiveWindow ?c) - 20000 < unat (fc_receiveWindowIncrement ?c) div 2)"
    using receive_window_grows [OF _ _ _ _ m] by (simp add: d)
  then show ?thesis using m by (auto simp: d)
qed

end
