(* ===== verification/Streams.thy ===== *)
theory Streams
  imports StreamDelivery FlowControl
begin

text \<open>
  The streams of a session (\<open>stream.go\<close>).  An operation takes the stream and, where it
  calls it, the flow control manager, and returns both.  The mutex is not modelled: an
  operation is one step.  The channels of capacity one are flags, the callback \<open>onData\<close> is
  a counter, the calls of \<open>onReset\<close> are a list, the context is a flag that tells whether it
  is cancelled.  \<open>Read\<close> and \<open>Write\<close> wait on a channel; a call that waits is a call whose
  result says so.  A \<open>Read\<close> that is woken up goes on as an operation of its own
  (\<open>stream_Read_woken\<close>); a \<open>Write\<close> goes on by the checks of \<open>writeLoop\<close>.  Between two waits
  a call is not interleaved with other operations.
\<close>

section \<open>The stream\<close>

record Priority =
  prio_Dependency :: StreamID
  prio_Weight :: byte
  prio_Exclusive :: bool

record stream =
  st_streamID :: StreamID
  st_pathVolume :: "PathID \<rightharpoonup> rat"
  st_priority :: Priority
  st_size :: ByteCount
  st_checksize :: bool
  st_onData :: nat
  st_onReset :: "(StreamID \<times> ByteCount) list"
  st_readPosInFrame :: int
  st_writeOffset :: ByteCount
  st_readOffset :: ByteCount
  st_err :: "go_error option"
  st_cancelled :: bool
  st_finishedReading :: bool
  st_finishedWriting :: bool
  st_resetLocally :: bool
  st_resetRemotely :: bool
  st_frameQueue :: streamFrameSorter
  st_readChan :: bool
  st_readDeadline :: time
  st_dataForWriting :: "byte list option"
  st_finSent :: bool
  st_rstSent :: bool
  st_writeChan :: bool
  st_writeDeadline :: time
  st_ctxDone :: bool

abbreviation (input) errDeadline :: go_error where
  "errDeadline \<equiv> GoError ''deadline exceeded''"

definition newStreamPrioritySize :: "StreamID \<Rightarrow> Priority \<Rightarrow> stream" where
  "newStreamPrioritySize streamID priority =
     \<lparr>st_streamID = streamID, st_pathVolume = Map.empty, st_priority = priority, st_size = 0,
      st_checksize = False, st_onData = 0, st_onReset = [], st_readPosInFrame = 0,
      st_writeOffset = 0, st_readOffset = 0, st_err = None, st_cancelled = False,
      st_finishedReading = False, st_finishedWriting = False, st_resetLocally = False,
      st_resetRemotely = False, st_frameQueue = newStreamFrameSorter, st_readChan = False,
      st_readDeadline = 0, st_dataForWriting = None, st_finSent = False, st_rstSent = False,
      st_writeChan = False, st_writeDeadline = 0, st_ctxDone = False\<rparr>"

definition newStreamPriority :: "StreamID \<Rightarrow> Priority \<Rightarrow> stream" where
  "newStreamPriority streamID priority = newStreamPrioritySize streamID priority"

definition newStream :: "StreamID \<Rightarrow> stream" where
  "newStream streamID =
     newStreamPrioritySize streamID \<lparr>prio_Dependency = 0, prio_Weight = NOT 0, prio_Exclusive = False\<rparr>"

definition signalRead :: "stream \<Rightarrow> stream" where
  "signalRead s = s\<lparr>st_readChan := True\<rparr>"

definition signalWrite :: "stream \<Rightarrow> stream" where
  "signalWrite s = s\<lparr>st_writeChan := True\<rparr>"

definition onData :: "stream \<Rightarrow> stream" where
  "onData s = s\<lparr>st_onData := Suc (st_onData s)\<rparr>"

definition finishedWriteAndSentFin :: "stream \<Rightarrow> bool" where
  "finishedWriteAndSentFin s \<longleftrightarrow> st_finishedWriting s \<and> st_finSent s"

definition stream_finished :: "stream \<Rightarrow> bool" where
  "stream_finished s \<longleftrightarrow> st_cancelled s \<or>
     (st_finishedReading s \<and> finishedWriteAndSentFin s) \<or>
     (st_resetRemotely s \<and> st_rstSent s) \<or>
     (st_finishedReading s \<and> st_rstSent s) \<or>
     (finishedWriteAndSentFin s \<and> st_resetRemotely s)"

section \<open>Reading\<close>

datatype read_result = ReadBlock | ReadReturn "byte list" "go_error option"

text \<open>
  The inner loop of \<open>Read\<close>: it ends with an error or with a frame, whose position is then
  set, or it waits (\<open>None\<close>).
\<close>

definition awaitFrame :: "time \<Rightarrow> stream \<Rightarrow> (stream \<times> go_error option) option" where
  "awaitFrame now s =
     (if st_resetLocally s \<or> st_cancelled s then Some (s, st_err s)
      else if st_readDeadline s \<noteq> 0 \<and> \<not> now < st_readDeadline s then Some (s, Some errDeadline)
      else case sorter_Head (st_frameQueue s) of
             Some frame \<Rightarrow> Some (s\<lparr>st_readPosInFrame := sint (st_readOffset s - sf_Offset frame)\<rparr>, None)
           | None \<Rightarrow> None)"

text \<open>
  One frame, or a part of it, is copied behind the \<open>bytesRead\<close> bytes that \<open>acc\<close> holds; \<open>n\<close>
  is the length of the buffer.  The last component tells whether the frame was the last one.
\<close>

definition readFrame :: "time \<Rightarrow> nat \<Rightarrow> byte list \<Rightarrow> StreamFrame \<Rightarrow> stream \<Rightarrow> flowControlManager \<Rightarrow>
    (stream \<times> flowControlManager \<times> byte list \<times> bool) result" where
  "readFrame now n acc frame s f =
     (let dataLen = sint (StreamFrame_DataLen frame);
          pos = st_readPosInFrame s;
          m = min (int n - int (length acc)) (dataLen - pos)
      in if length acc > n then Inl (GoError ''BUG: bytesRead (%d) > len(p) (%d) in stream.Read'')
         else if pos > dataLen
         then Inl (GoError ''BUG: readPosInFrame (%d) > frame.DataLen (%d) in stream.Read'')
         else if pos < 0 then Inl (GoPanic ''slice bounds out of range'')
         else
           let acc = acc @ take (nat m) (drop (nat pos) (sf_Data frame));
               s = s\<lparr>st_readPosInFrame := pos + m, st_readOffset := st_readOffset s + word_of_int m\<rparr>;
               f = (if st_resetRemotely s then f else fst (fcm_AddBytesRead (st_streamID s) (word_of_int m) now f));
               s = onData s
           in if st_readPosInFrame s \<ge> dataLen
              then let s = s\<lparr>st_frameQueue := fst (sorter_Pop (st_frameQueue s))\<rparr>
                   in if sf_FinBit frame then Inr (s\<lparr>st_finishedReading := True\<rparr>, f, acc, True)
                      else Inr (s, f, acc, False)
              else Inr (s, f, acc, False))"

partial_function (option) readLoop ::
    "time \<Rightarrow> nat \<Rightarrow> byte list \<Rightarrow> stream \<Rightarrow> flowControlManager \<Rightarrow>
     (stream \<times> flowControlManager \<times> read_result) option" where
  "readLoop now n acc s f =
     (if length acc < n
      then if sorter_Head (st_frameQueue s) = None \<and> acc \<noteq> [] then Some (s, f, ReadReturn acc (st_err s))
           else case awaitFrame now s of
                  None \<Rightarrow> Some (s, f, ReadBlock)
                | Some (s, Some err) \<Rightarrow> Some (s, f, ReadReturn acc (Some err))
                | Some (s, None) \<Rightarrow>
                    (case sorter_Head (st_frameQueue s) of
                       None \<Rightarrow> Some (s, f, ReadReturn acc (Some (GoPanic ''nil pointer dereference'')))
                     | Some frame \<Rightarrow>
                         (case readFrame now n acc frame s f of
                            Inl err \<Rightarrow> Some (s, f, ReadReturn acc (Some err))
                          | Inr (s, f, acc, fin) \<Rightarrow>
                              if fin then Some (s, f, ReadReturn acc (Some EOF))
                              else readLoop now n acc s f))
      else Some (s, f, ReadReturn acc None))"

declare readLoop.simps [code]

definition stream_Read :: "time \<Rightarrow> nat \<Rightarrow> stream \<Rightarrow> flowControlManager \<Rightarrow>
    (stream \<times> flowControlManager \<times> read_result) option" where
  "stream_Read now n s f =
     (if st_cancelled s \<or> st_resetLocally s then Some (s, f, ReadReturn [] (st_err s))
      else if st_finishedReading s then Some (s, f, ReadReturn [] (Some EOF))
      else readLoop now n [] s f)"

text \<open>
  A call waits only before it has read anything.  When it is woken up, by the channel or by the
  timer of its deadline, it takes the head of the queue and goes on with the checks of the inner
  loop: the state \<open>s\<close> is the one that it finds then.
\<close>

definition stream_Read_woken :: "time \<Rightarrow> nat \<Rightarrow> stream \<Rightarrow> flowControlManager \<Rightarrow>
    (stream \<times> flowControlManager \<times> read_result) option" where
  "stream_Read_woken now n s f = readLoop now n [] s f"

definition AddStreamFrame :: "StreamFrame \<Rightarrow> stream \<Rightarrow> flowControlManager \<Rightarrow>
    stream \<times> flowControlManager \<times> go_error option" where
  "AddStreamFrame frame s f =
     (case fcm_UpdateHighestReceived (st_streamID s) (sf_Offset frame + StreamFrame_DataLen frame) f of
        (f, Some err) \<Rightarrow> (s, f, Some err)
      | (f, None) \<Rightarrow>
          (case sorter_Push frame (st_frameQueue s) of
             (q, err) \<Rightarrow>
               let s = s\<lparr>st_frameQueue := q\<rparr>
               in if err \<noteq> None \<and> err \<noteq> Some errDuplicateStreamData then (s, f, err)
                  else (signalRead s, f, None)))"

definition CloseRemote :: "ByteCount \<Rightarrow> stream \<Rightarrow> flowControlManager \<Rightarrow> stream \<times> flowControlManager" where
  "CloseRemote offset s f =
     (case AddStreamFrame \<lparr>sf_StreamID = 0, sf_FinBit = True, sf_DataLenPresent = False, sf_Offset = offset, sf_Data = []\<rparr> s f of
        (s, f, _) \<Rightarrow> (s, f))"

section \<open>Writing\<close>

datatype write_result = WriteBlock | WriteReturn nat "go_error option"

text \<open>The loop of \<open>Write\<close> and what follows it, for a buffer of \<open>n\<close> bytes.\<close>

definition writeLoop :: "time \<Rightarrow> nat \<Rightarrow> stream \<Rightarrow> write_result" where
  "writeLoop now n s =
     (if st_writeDeadline s \<noteq> 0 \<and> \<not> now < st_writeDeadline s then WriteReturn 0 (Some errDeadline)
      else if st_dataForWriting s = None \<or> st_err s \<noteq> None
      then if st_err s \<noteq> None
           then WriteReturn (n - (case st_dataForWriting s of None \<Rightarrow> 0 | Some d \<Rightarrow> length d)) (st_err s)
           else WriteReturn n None
      else WriteBlock)"

definition stream_Write :: "time \<Rightarrow> byte list \<Rightarrow> stream \<Rightarrow> stream \<times> write_result" where
  "stream_Write now p s =
     (if st_resetLocally s \<or> st_err s \<noteq> None then (s, WriteReturn 0 (st_err s))
      else if st_finishedWriting s then (s, WriteReturn 0 (Some (GoError ''write on closed stream %d'')))
      else if p = [] then (s, WriteReturn 0 None)
      else let s = onData (s\<lparr>st_dataForWriting := Some p\<rparr>) in (s, writeLoop now (length p) s))"

definition lenOfDataForWriting :: "stream \<Rightarrow> ByteCount" where
  "lenOfDataForWriting s =
     (if st_err s = None then case st_dataForWriting s of None \<Rightarrow> 0 | Some d \<Rightarrow> word_of_nat (length d) else 0)"

definition getDataForWriting :: "ByteCount \<Rightarrow> stream \<Rightarrow> stream \<times> byte list option" where
  "getDataForWriting maxBytes s =
     (case st_dataForWriting s of
        None \<Rightarrow> (s, None)
      | Some d \<Rightarrow>
          if st_err s \<noteq> None then (s, None)
          else if word_of_nat (length d) > maxBytes
          then let ret = take (unat maxBytes) d
               in (s\<lparr>st_dataForWriting := Some (drop (unat maxBytes) d),
                     st_writeOffset := st_writeOffset s + word_of_nat (length ret)\<rparr>, Some ret)
          else (let s = signalWrite (s\<lparr>st_dataForWriting := None\<rparr>)
                in s\<lparr>st_writeOffset := st_writeOffset s + word_of_nat (length d)\<rparr>, Some d))"

definition stream_Close :: "stream \<Rightarrow> stream" where
  "stream_Close s = onData (s\<lparr>st_finishedWriting := True, st_ctxDone := True\<rparr>)"

definition shouldSendReset :: "stream \<Rightarrow> bool" where
  "shouldSendReset s \<longleftrightarrow> \<not> st_rstSent s \<and>
     (st_resetLocally s \<or> st_resetRemotely s) \<and> \<not> finishedWriteAndSentFin s"

definition shouldSendFin :: "stream \<Rightarrow> bool" where
  "shouldSendFin s \<longleftrightarrow>
     st_finishedWriting s \<and> \<not> st_finSent s \<and> st_err s = None \<and> st_dataForWriting s = None"

definition sentFin :: "stream \<Rightarrow> stream" where
  "sentFin s = s\<lparr>st_finSent := True\<rparr>"

section \<open>Deadlines, errors and resets\<close>

definition SetReadDeadline :: "time \<Rightarrow> stream \<Rightarrow> stream" where
  "SetReadDeadline t s =
     (let s' = s\<lparr>st_readDeadline := t\<rparr> in if t < st_readDeadline s then signalRead s' else s')"

definition SetWriteDeadline :: "time \<Rightarrow> stream \<Rightarrow> stream" where
  "SetWriteDeadline t s =
     (let s' = s\<lparr>st_writeDeadline := t\<rparr> in if t < st_writeDeadline s then signalWrite s' else s')"

definition SetDeadline :: "time \<Rightarrow> stream \<Rightarrow> stream" where
  "SetDeadline t s = SetWriteDeadline t (SetReadDeadline t s)"

definition Cancel :: "go_error option \<Rightarrow> stream \<Rightarrow> stream" where
  "Cancel err s =
     (let s = s\<lparr>st_cancelled := True, st_ctxDone := True\<rparr>
      in if st_err s = None then signalWrite (signalRead (s\<lparr>st_err := err\<rparr>)) else s)"

definition sendReset :: "stream \<Rightarrow> stream" where
  "sendReset s =
     (if shouldSendReset s
      then s\<lparr>st_onReset := st_onReset s @ [(st_streamID s, st_writeOffset s)], st_rstSent := True\<rparr> else s)"

definition stream_Reset :: "go_error option \<Rightarrow> stream \<Rightarrow> stream" where
  "stream_Reset err s =
     (if st_resetLocally s then s
      else let s = s\<lparr>st_resetLocally := True, st_ctxDone := True\<rparr>;
               s = (if st_err s = None then signalWrite (signalRead (s\<lparr>st_err := err\<rparr>)) else s)
           in sendReset s)"

definition RegisterRemoteError :: "go_error option \<Rightarrow> stream \<Rightarrow> stream" where
  "RegisterRemoteError err s =
     (if st_resetRemotely s then s
      else let s = s\<lparr>st_resetRemotely := True, st_ctxDone := True\<rparr>;
               s = (if st_err s = None then signalWrite (s\<lparr>st_err := err\<rparr>) else s)
           in sendReset s)"

end
