(* ===== verification/StreamReading.thy ===== *)
theory StreamReading
  imports Streams
begin

text \<open>
  Reading from a stream: whatever frames of the stream are added, whatever buffers are used,
  \<open>Read\<close> returns or waits, never hits one of its internal errors, and the bytes it returns
  are the bytes of the stream, in order.  A call that waits and is woken up does the same,
  unless the stream was reset or cancelled without an error meanwhile: then it panics.
\<close>

lemma head_frame:
  assumes "run_inv data N q R out F" "sorter_Head q = Some h"
  shows "sf_Offset h = ss_readPosition q \<and> unat (frame_end h) \<le> N \<and>
    unat (frame_end h) = unat (sf_Offset h) + length (sf_Data h) \<and>
    (frame_at data h \<and> ss_readPosition q \<noteq> word_of_nat N \<or>
     sf_Data h = [] \<and> sf_FinBit h \<and> ss_readPosition q = word_of_nat N)"
proof (cases "ss_readPosition q = word_of_nat N")
  case True
  have N: "N < 2 ^ 64" using assms(1) by (simp add: run_inv_def)
  have "sf_Offset h = word_of_nat N" "sf_Data h = []" "sf_FinBit h"
    using run_inv_Head(2) [OF assms(1) True assms(2)] by auto
  then show ?thesis using True N by (simp add: frame_end_def StreamFrame_DataLen_def unat_of_nat)
next
  case False
  have inv: "sorter_inv data (clearAt (word_of_nat N) q)" and R: "R \<subseteq> {..<N}"
    "\<And>b. b < MaxByteCount \<Longrightarrow> in_gap (ss_gaps q) b \<longleftrightarrow> unat b \<notin> R"
    using assms(1) by (auto simp: run_inv_def)
  have "ss_queuedFrames (clearAt (word_of_nat N) q) (ss_readPosition q) = Some h"
    using assms(2) False by (simp add: sorter_Head_def)
  then have h: "sf_Offset h = ss_readPosition q" "frame_at data h"
    "\<And>b. ss_readPosition q \<le> b \<Longrightarrow> b < frame_end h \<Longrightarrow> \<not> in_gap (ss_gaps q) b"
    using inv unfolding sorter_inv_def queued_ok_def by force+
  have lt: "sf_Offset h < frame_end h" by (rule frame_nonempty [OF h(2)])
  let ?b = "frame_end h - 1"
  have b: "unat ?b = unat (frame_end h) - 1" using lt by (subst unat_sub) (auto simp: word_le_nat_alt word_less_nat_alt)
  have "\<not> in_gap (ss_gaps q) ?b"
    using h(1,3) lt b by (auto simp: word_le_nat_alt word_less_nat_alt)
  moreover have "?b < MaxByteCount" using frame_below_max [OF h(2)] b by (simp add: word_less_nat_alt)
  ultimately have "unat ?b < N" using R by blast
  then show ?thesis using h False b unat_frame_end [OF h(2)] by simp
qed

definition rd_inv :: "(nat \<Rightarrow> byte) \<Rightarrow> nat \<Rightarrow> stream \<Rightarrow> byte list \<Rightarrow> bool" where
  "rd_inv data N s out \<longleftrightarrow> N < 2 ^ 63 \<and> (\<exists>R ob F. sorter_run data N (st_frameQueue s) R ob F) \<and>
     out = map data [0..<unat (st_readOffset s)] \<and>
     (st_readOffset s = ss_readPosition (st_frameQueue s) \<or>
      (\<exists>h. sorter_Head (st_frameQueue s) = Some h \<and>
         ss_readPosition (st_frameQueue s) < st_readOffset s \<and> st_readOffset s < frame_end h))"

definition same_control :: "stream \<Rightarrow> stream \<Rightarrow> bool" where
  "same_control s s' \<longleftrightarrow> st_cancelled s' = st_cancelled s \<and> st_resetLocally s' = st_resetLocally s \<and>
     st_err s' = st_err s \<and> st_readDeadline s' = st_readDeadline s"

lemma sint_of_nat_small: "k < 2 ^ 63 \<Longrightarrow> sint (word_of_nat k :: u64) = int k"
  by (simp add: signed_of_nat signed_take_bit_int_eq_self)

lemma head_position:
  assumes "rd_inv data N s out" "sorter_Head (st_frameQueue s) = Some h"
  obtains R ob F where "sorter_run data N (st_frameQueue s) R ob F"
    "sf_Offset h = ss_readPosition (st_frameQueue s)"
    "unat (frame_end h) = unat (sf_Offset h) + length (sf_Data h)"
    "unat (sf_Offset h) \<le> unat (st_readOffset s)" "unat (st_readOffset s) \<le> unat (frame_end h)"
    "unat (st_readOffset s) < unat (frame_end h) \<or> sf_Data h = [] \<and> sf_FinBit h"
    "sf_Data h = map data [unat (sf_Offset h)..<unat (frame_end h)]"
    "unat (frame_end h) < 2 ^ 63"
proof -
  obtain R ob F where r: "sorter_run data N (st_frameQueue s) R ob F" using assms(1) by (auto simp: rd_inv_def)
  note h = head_frame [OF sorter_run_inv [OF r] assms(2)]
  have ro: "st_readOffset s = ss_readPosition (st_frameQueue s) \<or>
      ss_readPosition (st_frameQueue s) < st_readOffset s \<and> st_readOffset s < frame_end h"
    using assms by (auto simp: rd_inv_def)
  have N: "N < 2 ^ 63" using assms(1) by (simp add: rd_inv_def)
  have ne: "frame_at data h \<Longrightarrow> sf_Data h \<noteq> []" by (simp add: frame_at_def)
  show thesis
  proof (rule that [OF r])
    show "unat (sf_Offset h) \<le> unat (st_readOffset s)" "unat (st_readOffset s) \<le> unat (frame_end h)"
      using ro h by (auto simp: word_less_nat_alt)
    show "unat (st_readOffset s) < unat (frame_end h) \<or> sf_Data h = [] \<and> sf_FinBit h"
      using ro h ne by (auto simp: word_less_nat_alt)
    show "sf_Data h = map data [unat (sf_Offset h)..<unat (frame_end h)]"
      using h by (auto simp: frame_at_def)
    show "sf_Offset h = ss_readPosition (st_frameQueue s)"
      "unat (frame_end h) = unat (sf_Offset h) + length (sf_Data h)" using h by blast+
    show "unat (frame_end h) < 2 ^ 63" using h N by linarith
  qed
qed

lemma readFrame_ok:
  assumes inv: "rd_inv data N s out" and h: "sorter_Head (st_frameQueue s) = Some h"
    and pos: "st_readPosInFrame s = sint (st_readOffset s - sf_Offset h)" and n: "length acc < n"
  shows "\<exists>s' f' bs fin. readFrame now n acc h s f = Inr (s', f', acc @ bs, fin) \<and> rd_inv data N s' (out @ bs) \<and>
    length (acc @ bs) \<le> n \<and> (fin \<or> bs \<noteq> []) \<and> same_control s s'"
proof (rule head_position [OF inv h])
  fix R ob F
  assume r: "sorter_run data N (st_frameQueue s) R ob F"
    "sf_Offset h = ss_readPosition (st_frameQueue s)"
    "unat (frame_end h) = unat (sf_Offset h) + length (sf_Data h)"
    "unat (sf_Offset h) \<le> unat (st_readOffset s)" "unat (st_readOffset s) \<le> unat (frame_end h)"
    "unat (st_readOffset s) < unat (frame_end h) \<or> sf_Data h = [] \<and> sf_FinBit h"
    "sf_Data h = map data [unat (sf_Offset h)..<unat (frame_end h)]" "unat (frame_end h) < 2 ^ 63"
  define p where "p = unat (st_readOffset s) - unat (sf_Offset h)"
  define L where "L = length (sf_Data h)"
  define k where "k = min (n - length acc) (L - p)"
  define bs where "bs = take k (drop p (sf_Data h))"
  have pL: "p \<le> L" using r(3-5) by (simp add: p_def L_def)
  have "st_readOffset s - sf_Offset h = word_of_nat p"
    using r(4) by (simp add: p_def word_unat_eq_iff unat_sub word_le_nat_alt unat_of_nat)
  then have P: "st_readPosInFrame s = int p" using pos sint_of_nat_small [of p] r(3-5,8) by (simp add: p_def)
  have D: "sint (StreamFrame_DataLen h) = int L" using sint_of_nat_small [of L] r(3,8) by (simp add: L_def StreamFrame_DataLen_def)
  have m: "min (int n - int (length acc)) (int L - int p) = int k" using n pL by (simp add: k_def)
  define s1 where "s1 = onData (s\<lparr>st_readPosInFrame := int p + int k, st_readOffset := st_readOffset s + word_of_nat k\<rparr>)"
  define s2 where "s2 = s1\<lparr>st_frameQueue := fst (sorter_Pop (st_frameQueue s1))\<rparr>"
  define f1 where "f1 = (if st_resetRemotely s then f else fst (fcm_AddBytesRead (st_streamID s) (word_of_nat k) now f))"
  have rf: "readFrame now n acc h s f =
      (if L \<le> p + k then if sf_FinBit h then Inr (s2\<lparr>st_finishedReading := True\<rparr>, f1, acc @ bs, True) else Inr (s2, f1, acc @ bs, False)
       else Inr (s1, f1, acc @ bs, False))"
    using n pL by (auto simp: readFrame_def Let_def P D m s1_def s2_def f1_def bs_def onData_def)
  have ro: "unat (st_readOffset s1) = unat (st_readOffset s) + k"
  proof -
    have "unat (st_readOffset s) + k < 2 ^ 63" using r(3-5,8) pL by (simp add: k_def L_def p_def)
    then have "unat (st_readOffset s + word_of_nat k) = unat (st_readOffset s) + k"
      by (simp add: unat_word_ariths unat_of_nat)
    then show ?thesis by (simp add: s1_def onData_def)
  qed
  have b: "bs = map data [unat (st_readOffset s)..<unat (st_readOffset s) + k]"
  proof -
    have "drop p (sf_Data h) = map data [unat (st_readOffset s)..<unat (frame_end h)]"
      using r(4,7) by (metis drop_map drop_upt p_def le_add_diff_inverse)
    then show ?thesis using r(3-5) by (simp add: bs_def take_map take_upt k_def L_def p_def)
  qed
  have out: "out @ bs = map data [0..<unat (st_readOffset s1)]"
    using inv b ro by (simp add: rd_inv_def upt_add_eq_append [of 0, simplified])
  have q1: "st_frameQueue s1 = st_frameQueue s" by (simp add: s1_def onData_def)
  have N: "N < 2 ^ 63" using inv by (simp add: rd_inv_def)
  have inv2: "rd_inv data N s2 (out @ bs)" if "L \<le> p + k"
  proof -
    have "sorter_Pop (st_frameQueue s) = (fst (sorter_Pop (st_frameQueue s)), Some h)"
      using h by (simp add: sorter_Pop_def)
    from sorter_run.pop [OF r(1) this]
    have run: "\<exists>R ob F. sorter_run data N (st_frameQueue s2) R ob F" by (auto simp: s2_def q1)
    have "ss_readPosition (st_frameQueue s2) = frame_end h"
      using h r(2) by (simp add: s2_def q1 sorter_Pop_def frame_end_def)
    moreover have "unat (st_readOffset s1) = unat (frame_end h)"
      using that ro r(3-5) by (simp add: k_def p_def L_def)
    ultimately have "st_readOffset s2 = ss_readPosition (st_frameQueue s2)"
      by (simp add: s2_def word_unat_eq_iff)
    then show ?thesis using run out N by (simp add: rd_inv_def s2_def)
  qed
  have inv1: "rd_inv data N s1 (out @ bs)" if "\<not> L \<le> p + k"
  proof -
    have "0 < k" "unat (st_readOffset s1) < unat (frame_end h)"
      using that n ro r(3-5) by (auto simp: k_def p_def L_def)
    then have "ss_readPosition (st_frameQueue s1) < st_readOffset s1" "st_readOffset s1 < frame_end h"
      using ro r(2,4) by (auto simp: word_less_nat_alt q1)
    then show ?thesis using r(1) out N h by (auto simp: rd_inv_def q1)
  qed
  have len: "length (acc @ bs) \<le> n" using n by (simp add: b k_def)
  have ne: "bs \<noteq> [] \<or> sf_FinBit h \<and> L \<le> p + k"
    using r(3,4,6) n pL by (auto simp: b k_def p_def L_def)
  have fin: "rd_inv data N (s2\<lparr>st_finishedReading := True\<rparr>) (out @ bs) = rd_inv data N s2 (out @ bs)"
    by (simp add: rd_inv_def)
  have sc: "same_control s s1" "same_control s s2" "same_control s (s2\<lparr>st_finishedReading := True\<rparr>)"
    by (simp_all add: same_control_def s1_def s2_def onData_def)
  show ?thesis
  proof (cases "L \<le> p + k")
    case True
    then show ?thesis using rf inv2 [OF True] len ne fin sc by (cases "sf_FinBit h") auto
  next
    case False
    then show ?thesis using rf inv1 [OF False] len ne sc by auto
  qed
qed

lemma readLoop_ok:
  assumes "rd_inv data N s out" "\<not> st_cancelled s" "\<not> st_resetLocally s" "length acc \<le> n"
  shows "\<exists>s' f' r. readLoop now n acc s f = Some (s', f', r) \<and>
    (r = ReadBlock \<and> acc = [] \<and> s' = s \<and> sorter_Head (st_frameQueue s) = None \<or>
     (\<exists>bs err. r = ReadReturn (acc @ bs) err \<and> length (acc @ bs) \<le> n \<and> rd_inv data N s' (out @ bs) \<and>
        err \<in> {None, Some EOF, Some errDeadline, st_err s}))"
  using assms
proof (induction "n - length acc" arbitrary: acc s f out rule: less_induct)
  case less
  note [simp] = readLoop.simps [of now n acc s f]
  have here: "rd_inv data N s (out @ []) \<and> acc = acc @ []" using less.prems by simp
  show ?case
  proof (cases "length acc < n")
    case False
    then show ?thesis using here less.prems(4) by (intro exI [of _ s] exI [of _ f] exI [of _ "ReadReturn acc None"]) auto
  next
    case n: True
    show ?thesis
    proof (cases "sorter_Head (st_frameQueue s)")
      case None
      have "readLoop now n acc s f = Some (s, f, if acc \<noteq> [] then ReadReturn acc (st_err s)
          else if st_readDeadline s \<noteq> 0 \<and> \<not> now < st_readDeadline s then ReadReturn acc (Some errDeadline) else ReadBlock)"
        using n None less.prems(2,3) by (simp add: awaitFrame_def)
      then show ?thesis using here n None by (cases "acc = []") (auto intro: less_imp_le)
    next
      case (Some h)
      define s1 where "s1 = s\<lparr>st_readPosInFrame := sint (st_readOffset s - sf_Offset h)\<rparr>"
      show ?thesis
      proof (cases "st_readDeadline s \<noteq> 0 \<and> \<not> now < st_readDeadline s")
        case True
        then show ?thesis using n here less.prems(2,3) Some by (auto simp: awaitFrame_def)
      next
        case False
        then have aw: "awaitFrame now s = Some (s1, None)" using Some less.prems(2,3) by (auto simp: awaitFrame_def s1_def)
        have q: "sorter_Head (st_frameQueue s1) = Some h" using Some by (simp add: s1_def)
        have i1: "rd_inv data N s1 out" using less.prems(1) by (simp add: rd_inv_def s1_def)
        have p1: "st_readPosInFrame s1 = sint (st_readOffset s1 - sf_Offset h)" by (simp add: s1_def)
        obtain s2 f2 bs fin where rf: "readFrame now n acc h s1 f = Inr (s2, f2, acc @ bs, fin)"
          and i2: "rd_inv data N s2 (out @ bs)" "length (acc @ bs) \<le> n" "fin \<or> bs \<noteq> []" "same_control s1 s2"
          using readFrame_ok [OF i1 q p1 n] by blast
        have sc: "\<not> st_cancelled s2" "\<not> st_resetLocally s2" "st_err s2 = st_err s"
          using i2(4) less.prems(2,3) by (simp_all add: same_control_def s1_def)
        have step: "readLoop now n acc s f =
            (if fin then Some (s2, f2, ReadReturn (acc @ bs) (Some EOF)) else readLoop now n (acc @ bs) s2 f2)"
          using n Some aw q rf by simp
        show ?thesis
        proof (cases fin)
          case True
          then show ?thesis using step i2(1,2) by (intro exI [of _ s2] exI [of _ f2] exI [of _ "ReadReturn (acc @ bs) (Some EOF)"]) auto
        next
          case False
          then have bs: "bs \<noteq> []" using i2(3) by simp
          have "n - length (acc @ bs) < n - length acc" using bs n by (cases bs) auto
          from less.hyps [OF this i2(1) sc(1,2) i2(2), of f2]
          obtain s' f' r where l: "readLoop now n (acc @ bs) s2 f2 = Some (s', f', r)"
            and r: "r = ReadBlock \<and> acc @ bs = [] \<and> s' = s2 \<and> sorter_Head (st_frameQueue s2) = None \<or>
              (\<exists>bs' err. r = ReadReturn ((acc @ bs) @ bs') err \<and> length ((acc @ bs) @ bs') \<le> n \<and> rd_inv data N s' ((out @ bs) @ bs') \<and>
                err \<in> {None, Some EOF, Some errDeadline, st_err s2})" by blast
          obtain bs' err where "r = ReadReturn (acc @ bs @ bs') err" "length (acc @ bs @ bs') \<le> n" "rd_inv data N s' (out @ bs @ bs')"
            "err \<in> {None, Some EOF, Some errDeadline, st_err s}" using r bs sc(3) by auto
          then show ?thesis using step False l by auto
        qed
      qed
    qed
  qed
qed

text \<open>
  A stream that was reset or cancelled without an error: \<open>Reset(nil)\<close>, \<open>Cancel(nil)\<close>.  The wait
  loop is left for it, but without an error and without a frame.
\<close>

definition closedSilently :: "stream \<Rightarrow> bool" where
  "closedSilently s \<longleftrightarrow> (st_resetLocally s \<or> st_cancelled s) \<and> st_err s = None"

text \<open>
  What a call with a buffer of \<open>n\<close> bytes may come to when \<open>out\<close> has been read so far: it waits,
  which it does only while the next byte is not there, or it returns the next bytes.
\<close>

definition read_ends :: "(nat \<Rightarrow> byte) \<Rightarrow> stream \<Rightarrow> byte list \<Rightarrow> nat \<Rightarrow>
    (stream \<times> flowControlManager \<times> read_result) option \<Rightarrow> bool" where
  "read_ends data s out n res \<longleftrightarrow> (\<exists>s' f' r. res = Some (s', f', r) \<and>
     (r = ReadBlock \<and> s' = s \<and> sorter_Head (st_frameQueue s) = None \<or>
      (\<exists>bs err. r = ReadReturn bs err \<and> length bs \<le> n \<and> out @ bs = map data [0..<length (out @ bs)] \<and>
         err \<in> {None, Some EOF, Some errDeadline, st_err s})))"

lemma woken_ok:
  assumes "rd_inv data N s out" "\<not> closedSilently s"
  shows "\<exists>s' f' r. stream_Read_woken now n s f = Some (s', f', r) \<and>
    (r = ReadBlock \<and> s' = s \<and> sorter_Head (st_frameQueue s) = None \<or>
     (\<exists>bs err. r = ReadReturn bs err \<and> length bs \<le> n \<and> rd_inv data N s' (out @ bs) \<and>
        err \<in> {None, Some EOF, Some errDeadline, st_err s}))"
proof (cases "st_resetLocally s \<or> st_cancelled s")
  case True
  then obtain e where e: "st_err s = Some e" using assms(2) by (auto simp: closedSilently_def)
  then have "awaitFrame now s = Some (s, Some e)" using True by (simp add: awaitFrame_def)
  then have "stream_Read_woken now n s f = Some (s, f, if n = 0 then ReadReturn [] None else ReadReturn [] (Some e))"
    using e by (simp add: stream_Read_woken_def readLoop.simps [of now n "[]" s f])
  then show ?thesis using assms(1) e by (cases "n = 0") auto
next
  case False
  then show ?thesis using readLoop_ok [OF assms(1), of "[]" n now f] by (auto simp: stream_Read_woken_def)
qed

lemma read_ok:
  assumes "rd_inv data N s out"
  shows "\<exists>s' f' r. stream_Read now n s f = Some (s', f', r) \<and>
    (r = ReadBlock \<and> s' = s \<and> sorter_Head (st_frameQueue s) = None \<or>
     (\<exists>bs err. r = ReadReturn bs err \<and> length bs \<le> n \<and> rd_inv data N s' (out @ bs) \<and>
        err \<in> {None, Some EOF, Some errDeadline, st_err s}))"
proof (cases "st_cancelled s \<or> st_resetLocally s \<or> st_finishedReading s")
  case True
  then show ?thesis using assms by (auto simp: stream_Read_def)
next
  case False
  then have "stream_Read now n s f = stream_Read_woken now n s f" "\<not> closedSilently s"
    by (simp_all add: stream_Read_def stream_Read_woken_def closedSilently_def)
  then show ?thesis using woken_ok [OF assms] by simp
qed

section \<open>Runs of a stream\<close>

text \<open>
  The life of the reading side: frames of the stream \<open>data\<close> of \<open>N\<close> bytes are added, \<open>Read\<close> is
  called, a call that waits is woken up, and operations in between leave queue and read offset
  alone.
\<close>

inductive stream_run :: "(nat \<Rightarrow> byte) \<Rightarrow> nat \<Rightarrow> stream \<Rightarrow> byte list \<Rightarrow> bool" for data N where
  new: "N < 2 ^ 63 \<Longrightarrow> stream_run data N (newStreamPrioritySize streamID p) []"
| add: "stream_run data N s out \<Longrightarrow> frame_of data N frame \<or> fin_of N frame \<Longrightarrow>
    AddStreamFrame frame s f = (s', f', None) \<Longrightarrow> stream_run data N s' out"
| read: "stream_run data N s out \<Longrightarrow> stream_Read now n s f = Some (s', f', ReadReturn bs err) \<Longrightarrow>
    stream_run data N s' (out @ bs)"
| woken: "stream_run data N s out \<Longrightarrow> \<not> closedSilently s \<Longrightarrow>
    stream_Read_woken now n s f = Some (s', f', ReadReturn bs err) \<Longrightarrow> stream_run data N s' (out @ bs)"
| other: "stream_run data N s out \<Longrightarrow> st_frameQueue s' = st_frameQueue s \<Longrightarrow> st_readOffset s' = st_readOffset s \<Longrightarrow>
    stream_run data N s' out"

lemma Push_keeps_head:
  assumes r: "sorter_run data N q R ob F" and f: "frame_of data N f \<or> fin_of N f" and p: "sorter_Push f q = (q', err)"
    and e: "err = None \<or> err = Some errDuplicateStreamData"
  shows "(\<exists>R ob F. sorter_run data N q' R ob F) \<and> ss_readPosition q' = ss_readPosition q \<and>
    (ss_readPosition q \<noteq> word_of_nat N \<longrightarrow> (\<forall>h. sorter_Head q = Some h \<longrightarrow> sorter_Head q' = Some h))"
proof -
  note ri = sorter_run_inv [OF r]
  have ne: "err \<noteq> Some errTooManyGapsInReceivedStreamData"
    using e by (auto simp: errTooManyGapsInReceivedStreamData_def errDuplicateStreamData_def)
  show ?thesis
  proof (cases "frame_of data N f")
    case True
    have inv: "sorter_inv data (clearAt (word_of_nat N) q)" and N: "N < 2 ^ 64 - 1" using ri by (auto simp: run_inv_def)
    have fa: "frame_at data f" using True by (simp add: frame_of_def)
    have "frame_end f \<le> word_of_nat N"
      using unat_frame_end [OF fa] True N by (simp add: word_le_nat_alt unat_of_nat frame_of_def)
    from sorter_Push_clear [OF fa this p] inv
    have "sorter_Push f (clearAt (word_of_nat N) q) = (clearAt (word_of_nat N) q', err)" by (simp add: sorter_inv_def)
    from Push_ok [OF inv fa this] ne have "pushed data f (clearAt (word_of_nat N) q) (clearAt (word_of_nat N) q')" by blast
    then show ?thesis using sorter_run.push [OF r True p ne] Head_clear by (fastforce simp: pushed_def)
  next
    case False
    then have fo: "fin_of N f" using f by simp
    have N: "N < 2 ^ 64 - 1" using ri by (auto simp: run_inv_def)
    have o: "sf_Offset f = word_of_nat N" using fo N by (auto simp: fin_of_def word_unat_eq_iff unat_of_nat)
    have q': "q' = q\<lparr>ss_queuedFrames := (ss_queuedFrames q)(word_of_nat N \<mapsto> f)\<rparr>"
      using fo p o by (auto simp: sorter_Push_def fin_of_def StreamFrame_DataLen_def)
    show ?thesis using sorter_run.fin [OF r fo p] by (auto simp: q' sorter_Head_def)
  qed
qed

lemma AddStreamFrame_ok:
  assumes inv: "rd_inv data N s out" and f: "frame_of data N frame \<or> fin_of N frame"
    and a: "AddStreamFrame frame s f = (s', f', None)"
  shows "rd_inv data N s' out"
proof -
  obtain R ob F where r: "sorter_run data N (st_frameQueue s) R ob F" using inv by (auto simp: rd_inv_def)
  obtain q' err where p: "sorter_Push frame (st_frameQueue s) = (q', err)" by (cases "sorter_Push frame (st_frameQueue s)")
  have s': "s' = signalRead (s\<lparr>st_frameQueue := q'\<rparr>)" and e: "err = None \<or> err = Some errDuplicateStreamData"
    using a p by (auto simp: AddStreamFrame_def Let_def split: prod.splits option.splits if_splits)
  note k = Push_keeps_head [OF r f p e]
  have "ss_readPosition (st_frameQueue s) \<noteq> word_of_nat N"
    if "sorter_Head (st_frameQueue s) = Some h" "ss_readPosition (st_frameQueue s) < st_readOffset s"
      "st_readOffset s < frame_end h" for h
    using head_frame [OF sorter_run_inv [OF r] that(1)] that(2,3) by (auto simp: word_less_nat_alt)
  then show ?thesis using inv k by (auto simp: rd_inv_def s' signalRead_def)
qed

lemma stream_run_inv: "stream_run data N s out \<Longrightarrow> rd_inv data N s out"
proof (induction rule: stream_run.induct)
  case (new streamID p)
  then have "sorter_run data N newStreamFrameSorter {} [] False" by (intro sorter_run.new) simp
  moreover have "ss_readPosition newStreamFrameSorter = 0" by (simp add: newStreamFrameSorter_def)
  ultimately show ?case using new by (auto simp: rd_inv_def newStreamPrioritySize_def)
next
  case (add s out frame f s' f')
  then show ?case using AddStreamFrame_ok by blast
next
  case (read s out now n f s' f' bs err)
  then show ?case using read_ok [OF read.IH, of now n f] by auto
next
  case (woken s out now n f s' f' bs err)
  then show ?case using woken_ok [OF woken.IH woken.hyps(2), of now n f] by auto
next
  case (other s out s')
  then show ?case by (simp add: rd_inv_def)
qed

lemma rd_inv_length:
  assumes "rd_inv data N s out"
  shows "length out \<le> N"
proof -
  obtain R ob F where r: "sorter_run data N (st_frameQueue s) R ob F" using assms by (auto simp: rd_inv_def)
  show ?thesis
  proof (cases "st_readOffset s = ss_readPosition (st_frameQueue s)")
    case True
    have "{0..<length out} \<subseteq> R" "R \<subseteq> {..<N}"
      using sorter_run_inv [OF r] run_inv_prefix [OF sorter_run_inv [OF r]] True assms by (auto simp: run_inv_def rd_inv_def)
    then show ?thesis by (metis atLeastLessThan_iff lessThan_iff linorder_not_le order_refl subset_iff zero_le)
  next
    case False
    then obtain h where "sorter_Head (st_frameQueue s) = Some h" "st_readOffset s < frame_end h"
      using assms by (auto simp: rd_inv_def)
    then show ?thesis using head_frame [OF sorter_run_inv [OF r]] assms by (fastforce simp: rd_inv_def word_less_nat_alt)
  qed
qed

text \<open>
  C2: Reading ends and delivers.  Take any stream of less than two to the 63 bytes, frames of it
  added in any order, and any calls of \<open>Read\<close>, wake-ups of waiting calls and other operations in
  between.  Then the bytes returned so far are the first bytes of the stream, in order.  The next
  call of \<open>Read\<close>, with any buffer, ends in one of two ways: it waits, which it does only while
  the next byte has not arrived, or it returns bytes that continue the stream, with no error, the
  end of the stream, an exceeded deadline or the error set on the stream; it neither panics nor
  reports one of its internal errors.  The same holds for a waiting call that is woken up, unless
  the stream was reset or cancelled without an error in the meantime.  In that case the call
  panics on a nil frame if no frame is there, and nothing is claimed if one is there, since the
  call then uses the position in an earlier frame.
\<close>

theorem Read_delivers:
  assumes "stream_run data N s out"
  shows "out = map data [0..<length out] \<and> length out \<le> N \<and>
    read_ends data s out n (stream_Read now n s f) \<and>
    (\<not> closedSilently s \<longrightarrow> read_ends data s out n (stream_Read_woken now n s f)) \<and>
    (closedSilently s \<and> sorter_Head (st_frameQueue s) = None \<and> 0 < n \<longrightarrow>
       stream_Read_woken now n s f = Some (s, f, ReadReturn [] (Some (GoPanic ''nil pointer dereference''))))"
proof (intro conjI impI)
  note inv = stream_run_inv [OF assms]
  have pre: "bs = map data [0..<length bs]" if "rd_inv data N s' bs" for s' bs
    using that by (simp add: rd_inv_def)
  show "out = map data [0..<length out]" by (rule pre [OF inv])
  show "length out \<le> N" by (rule rd_inv_length [OF inv])
  show "read_ends data s out n (stream_Read now n s f)"
    unfolding read_ends_def using read_ok [OF inv, of now n f] pre by blast
  show "read_ends data s out n (stream_Read_woken now n s f)" if "\<not> closedSilently s"
    unfolding read_ends_def using woken_ok [OF inv that, of now n f] pre by blast
  assume "closedSilently s \<and> sorter_Head (st_frameQueue s) = None \<and> 0 < n"
  then show "stream_Read_woken now n s f = Some (s, f, ReadReturn [] (Some (GoPanic ''nil pointer dereference'')))"
    by (auto simp: stream_Read_woken_def closedSilently_def awaitFrame_def readLoop.simps [of now n "[]" s f])
qed

definition example_flow :: flowControlManager where
  "example_flow = fcm_NewStream exampleParameters 5 True (NewFlowControlManager exampleParameters)"

definition example_stream :: stream where
  "example_stream =
     fst (AddStreamFrame (example_frame 0 3)
       (fst (AddStreamFrame (example_frame 2 4)
          (newStreamPrioritySize 5 \<lparr>prio_Dependency = 0, prio_Weight = 255, prio_Exclusive = False\<rparr>) example_flow)) example_flow)"

definition example_read :: stream where
  "example_read = fst (the (stream_Read 0 3 example_stream example_flow))"

lemma fst_triple: "snd (snd t) = c \<Longrightarrow> t = (fst t, fst (snd t), c)"
  by (cases t) auto

lemma example_stream_run: "stream_run word_of_nat 6 example_read [0, 1, 2]"
proof -
  define s0 where "s0 = newStreamPrioritySize 5 \<lparr>prio_Dependency = 0, prio_Weight = 255, prio_Exclusive = False\<rparr>"
  define s1 where "s1 = fst (AddStreamFrame (example_frame 2 4) s0 example_flow)"
  have "stream_run word_of_nat 6 s0 []" unfolding s0_def by (rule stream_run.new) simp
  moreover have "snd (snd (AddStreamFrame (example_frame 2 4) s0 example_flow)) = None" unfolding s0_def by code_simp
  then have "AddStreamFrame (example_frame 2 4) s0 example_flow = (s1, fst (snd (AddStreamFrame (example_frame 2 4) s0 example_flow)), None)"
    unfolding s1_def by (rule fst_triple)
  ultimately have r1: "stream_run word_of_nat 6 s1 []" using example_frame_at [of 2 4] by (auto intro: stream_run.add)
  have "snd (snd (AddStreamFrame (example_frame 0 3) s1 example_flow)) = None" unfolding s1_def s0_def by code_simp
  then have "AddStreamFrame (example_frame 0 3) s1 example_flow = (example_stream, fst (snd (AddStreamFrame (example_frame 0 3) s1 example_flow)), None)"
    unfolding example_stream_def s1_def s0_def by (rule fst_triple)
  then have r2: "stream_run word_of_nat 6 example_stream []" using r1 example_frame_at [of 0 3] by (auto intro: stream_run.add)
  have "map_option (\<lambda>t. snd (snd t)) (stream_Read 0 3 example_stream example_flow) = Some (ReadReturn [0, 1, 2] None)"
    by code_simp
  then obtain t where t: "stream_Read 0 3 example_stream example_flow = Some t" "snd (snd t) = ReadReturn [0, 1, 2] None" by auto
  then have "stream_Read 0 3 example_stream example_flow = Some (example_read, fst (snd t), ReadReturn [0, 1, 2] None)"
    using fst_triple [OF t(2)] by (simp add: example_read_def)
  from stream_run.read [OF r2 this] show ?thesis by simp
qed

definition example_new :: stream where
  "example_new = newStreamPrioritySize 5 \<lparr>prio_Dependency = 0, prio_Weight = 255, prio_Exclusive = False\<rparr>"

lemma example_reset_run: "stream_run data 6 (stream_Reset None example_new) []"
proof (rule stream_run.other)
  show "stream_run data 6 example_new []" unfolding example_new_def by (rule stream_run.new) simp
qed (simp_all add: stream_Reset_def sendReset_def signalRead_def signalWrite_def Let_def)

text \<open>A call that returns bytes, and a call that waits for the first byte when \<open>Reset(nil)\<close> wakes it up.\<close>

theorem Read_delivers_witness:
  "read_ends word_of_nat example_read [0, 1, 2] 4 (stream_Read 0 4 example_read example_flow) \<and>
   read_ends word_of_nat example_read [0, 1, 2] 4 (stream_Read_woken 0 4 example_read example_flow) \<and>
   map_option (\<lambda>t. snd (snd t)) (stream_Read 0 4 example_new example_flow) = Some ReadBlock \<and>
   map_option (\<lambda>t. snd (snd t)) (stream_Read_woken 0 4 (stream_Reset None example_new) example_flow) =
     Some (ReadReturn [] (Some (GoPanic ''nil pointer dereference'')))"
proof -
  have "\<not> closedSilently example_read" by code_simp
  moreover have "closedSilently (stream_Reset None example_new)"
    "sorter_Head (st_frameQueue (stream_Reset None example_new)) = None" by code_simp+
  moreover have "map_option (\<lambda>t. snd (snd t)) (stream_Read 0 4 example_new example_flow) = Some ReadBlock" by code_simp
  ultimately show ?thesis
    using Read_delivers [OF example_stream_run, of 4 0 example_flow]
      Read_delivers [OF example_reset_run [of word_of_nat], of 4 0 example_flow] by simp
qed

section \<open>An early end of the stream\<close>

text \<open>
  The FIN bit of a frame is kept when the frame is cut at its end.  Take a stream of four bytes
  whose last frame, with all bytes and FIN, was split for retransmission: when the second half
  arrives before the original, the original is cut to its first half but still carries FIN, and
  \<open>Read\<close> reports the end of the stream after two of four bytes, all of which have arrived.
\<close>

definition fin_frame :: "nat \<Rightarrow> nat \<Rightarrow> StreamFrame" where
  "fin_frame a b = (example_frame a b)\<lparr>sf_FinBit := True\<rparr>"

lemma Read_EOF_early:
  "frame_of word_of_nat 4 (fin_frame 2 4) \<and> frame_of word_of_nat 4 (fin_frame 0 4) \<and>
   (let s0 = newStreamPrioritySize 5 \<lparr>prio_Dependency = 0, prio_Weight = 255, prio_Exclusive = False\<rparr>;
        s1 = fst (AddStreamFrame (fin_frame 2 4) s0 example_flow);
        s2 = fst (AddStreamFrame (fin_frame 0 4) s1 example_flow)
    in map_option (\<lambda>t. snd (snd t)) (stream_Read 0 10 s2 example_flow) = Some (ReadReturn [0, 1] (Some EOF)))"
proof (intro conjI)
  show "frame_of word_of_nat 4 (fin_frame 2 4)" "frame_of word_of_nat 4 (fin_frame 0 4)"
    by (simp_all add: frame_of_def frame_at_def fin_frame_def example_frame_def unat_of_nat)
qed code_simp

end
