(* ===== verification/StreamTree.thy ===== *)
theory StreamTree
  imports Streams
begin

text \<open>
  The tree of stream priorities (\<open>stream_tree.go\<close>).  The nodes form a graph of pointers that
  the operations change in place, so the model has an explicit store: a list of nodes, where the
  index is the address of a node and the root has address 0.  The pointer from a node to its stream is the stream's
  ID; operations that look into streams take the streams as the argument \<open>str\<close>.  A panic is
  an error of the result; the recursions along pointers are partial functions, \<open>None\<close> is a
  call that does not return.  The printing of the tree, which leaves the tree as it is, is
  left out.
\<close>

section \<open>Nodes and the store\<close>

datatype nodeState = nodeIdle | nodeActive | nodeClosed

record node =
  nd_id :: StreamID
  nd_stream :: "StreamID option"
  nd_weight :: byte
  nd_childrensWeight :: u32
  nd_state :: nodeState
  nd_activeChildren :: u16
  nd_parent :: "nat option"
  nd_children :: "nat list"
  nd_nextChild :: u16
  nd_visited :: bool

record streamTree =
  tr_store :: "node list"
  tr_openStreams :: int
  tr_nodeMap :: "StreamID \<rightharpoonup> nat"

abbreviation (input) DefaultStreamWeight :: byte where "DefaultStreamWeight \<equiv> 15"

definition newNode :: "StreamID \<Rightarrow> StreamID option \<Rightarrow> nat option \<Rightarrow> node" where
  "newNode streamID strm parent =
     \<lparr>nd_id = streamID, nd_stream = strm, nd_weight = DefaultStreamWeight, nd_childrensWeight = 0,
      nd_state = nodeActive, nd_activeChildren = 0, nd_parent = parent, nd_children = [],
      nd_nextChild = 0, nd_visited = False\<rparr>"

definition newStreamTree :: streamTree where
  "newStreamTree =
     \<lparr>tr_store = [newNode 0 None None], tr_openStreams = 0, tr_nodeMap = Map.empty\<rparr>"

abbreviation nodeAt :: "streamTree \<Rightarrow> nat \<Rightarrow> node" where
  "nodeAt t a \<equiv> tr_store t ! a"

definition updNode :: "nat \<Rightarrow> (node \<Rightarrow> node) \<Rightarrow> streamTree \<Rightarrow> streamTree" where
  "updNode a g t = t\<lparr>tr_store := (tr_store t)[a := g (nodeAt t a)]\<rparr>"

definition setVisited :: "nat \<Rightarrow> streamTree \<Rightarrow> streamTree" where
  "setVisited n = updNode n (\<lambda>x. x\<lparr>nd_visited := True\<rparr>)"

definition obind :: "'a result option \<Rightarrow> ('a \<Rightarrow> 'b result option) \<Rightarrow> 'b result option" where
  "obind m g = Option.bind m (\<lambda>r. case r of Inl e \<Rightarrow> Some (Inl e) | Inr x \<Rightarrow> g x)"

lemma obind_mono [partial_function_mono]:
  assumes "mono_option B" "\<And>y. mono_option (\<lambda>f. C y f)"
  shows "mono_option (\<lambda>f. obind (B f) (\<lambda>y. C y f))"
  unfolding obind_def
proof (rule bind_mono [OF assms(1)])
  fix r
  show "mono_option (\<lambda>f. case r of Inl e \<Rightarrow> Some (Inl e) | Inr x \<Rightarrow> C x f)"
    by (cases r) (auto intro: assms(2) monotoneI option.leq_refl)
qed

section \<open>Weights\<close>

partial_function (option) addWeight :: "nat \<Rightarrow> nat \<Rightarrow> streamTree \<Rightarrow> streamTree result option" where
  "addWeight n child t =
     (let t = updNode n (\<lambda>x. x\<lparr>nd_childrensWeight := nd_childrensWeight x + (ucast (nd_weight (nodeAt t child)) + 1),
                               nd_activeChildren := nd_activeChildren x + 1,
                               nd_children := nd_children x @ [child]\<rparr>) t;
          x = nodeAt t n
      in case nd_parent x of
           None \<Rightarrow> Some (Inr t)
         | Some p \<Rightarrow>
             if nd_state x \<noteq> nodeActive \<and> nd_activeChildren x = 1 then addWeight p n t else Some (Inr t))"

text \<open>The index of a child, 0 if it is not there.\<close>

fun childIndex :: "nat \<Rightarrow> nat list \<Rightarrow> nat" where
  "childIndex c [] = 0"
| "childIndex c (x # xs) = (if x = c then 0 else if c \<in> set xs then Suc (childIndex c xs) else 0)"

definition removeAt :: "nat \<Rightarrow> 'a list \<Rightarrow> 'a list" where
  "removeAt i xs = take i xs @ drop (Suc i) xs"

partial_function (option) removeWeight :: "nat \<Rightarrow> nat \<Rightarrow> streamTree \<Rightarrow> streamTree result option" where
  "removeWeight n child t =
     (let x = nodeAt t n; children = removeAt (childIndex child (nd_children x)) (nd_children x)
      in if nd_children x = [] then Some (Inl (GoPanic ''slice bounds out of range''))
         else if children \<noteq> [] \<and> (word_of_nat (length children) :: u16) = 0
         then Some (Inl (GoPanic ''integer divide by zero''))
         else
           let t = updNode n (\<lambda>x. x\<lparr>nd_children := children,
                  nd_nextChild := (if children = [] then 0 else nd_nextChild x mod word_of_nat (length children)),
                  nd_childrensWeight := nd_childrensWeight x - (ucast (nd_weight (nodeAt t child)) - 1),
                  nd_activeChildren := nd_activeChildren x - 1\<rparr>) t;
               x = nodeAt t n
           in case nd_parent x of
                None \<Rightarrow> Some (Inr t)
              | Some p \<Rightarrow> if nd_activeChildren x = 0 then removeWeight p n t else Some (Inr t))"

declare addWeight.simps [code] removeWeight.simps [code]

definition deactivateNode :: "nat \<Rightarrow> streamTree \<Rightarrow> streamTree result option" where
  "deactivateNode n t =
     (let t = updNode n (\<lambda>x. x\<lparr>nd_state := nodeClosed, nd_stream := None\<rparr>) t; x = nodeAt t n
      in case nd_parent x of
           Some p \<Rightarrow> if nd_activeChildren x = 0 then removeWeight p n t else Some (Inr t)
         | None \<Rightarrow> Some (Inr t))"

section \<open>Adding nodes and changing priorities\<close>

definition addNode :: "StreamID \<Rightarrow> streamTree \<Rightarrow> streamTree result option" where
  "addNode streamID t =
     (let a = length (tr_store t);
          t = t\<lparr>tr_store := tr_store t @ [newNode streamID (Some streamID) (Some 0)]\<rparr>
      in obind (addWeight 0 a t) (\<lambda>t. Some (Inr (t\<lparr>tr_nodeMap := (tr_nodeMap t)(streamID \<mapsto> a)\<rparr>))))"

definition maybeSetWeight :: "StreamID \<Rightarrow> byte \<Rightarrow> streamTree \<Rightarrow> streamTree result" where
  "maybeSetWeight streamID weight t =
     (if streamID = 1 \<or> streamID = 3 then Inr t
      else case tr_nodeMap t streamID of
             None \<Rightarrow> Inl (GoError ''setting weight of unknown stream %d'')
           | Some n \<Rightarrow>
               let x = nodeAt t n
               in if nd_weight x = weight then Inr t
                  else if nd_state x = nodeActive \<or> nd_activeChildren x > 0
                  then case nd_parent x of
                         None \<Rightarrow> Inl (GoPanic ''nil pointer dereference'')
                       | Some p \<Rightarrow>
                           let t = updNode p (\<lambda>y. y\<lparr>nd_childrensWeight :=
                                     word_of_int (uint (nd_childrensWeight y) + (uint weight - uint (nd_weight x)))\<rparr>) t
                           in Inr (updNode n (\<lambda>x. x\<lparr>nd_weight := weight\<rparr>) t)
                  else Inr (updNode n (\<lambda>x. x\<lparr>nd_weight := weight\<rparr>) t))"

text \<open>
  The walk up from the new parent.  When it meets the child, the new parent is moved to the
  child's old parent; the walk goes on.
\<close>

partial_function (option) moveNewParent ::
    "nat \<Rightarrow> nat \<Rightarrow> nat \<Rightarrow> nat option \<Rightarrow> streamTree \<Rightarrow> streamTree result option" where
  "moveNewParent n child newParent oldParent t =
     (case nd_parent (nodeAt t n) of
        None \<Rightarrow> Some (Inr t)
      | Some _ \<Rightarrow>
          obind
            (if n = child
             then let np = nodeAt t newParent
                  in obind
                       (if nd_state np = nodeActive \<or> nd_activeChildren np > 0
                        then case nd_parent np of
                               None \<Rightarrow> Some (Inl (GoPanic ''nil pointer dereference''))
                             | Some p \<Rightarrow>
                                 obind (removeWeight p newParent t)
                                   (\<lambda>t. case oldParent of Some ow \<Rightarrow> addWeight ow newParent t | None \<Rightarrow> Some (Inr t))
                        else Some (Inr t))
                       (\<lambda>t. Some (Inr (updNode newParent (\<lambda>x. x\<lparr>nd_parent := oldParent\<rparr>) t)))
             else Some (Inr t))
            (\<lambda>t. case nd_parent (nodeAt t n) of
                   None \<Rightarrow> Some (Inl (GoPanic ''nil pointer dereference''))
                 | Some p \<Rightarrow> moveNewParent p child newParent oldParent t))"

declare moveNewParent.simps [code]

text \<open>
  The loop that makes the children of the new parent children of the exclusive child.  It
  ranges over the slice \<open>newParent.children\<close> as it was at the start, of length \<open>n\<close>, while
  \<open>removeWeight\<close> moves the elements of its backing array \<open>arr\<close> to the left.
\<close>

definition shiftArray :: "nat \<Rightarrow> nat \<Rightarrow> nat list \<Rightarrow> nat list" where
  "shiftArray i len arr = take i arr @ drop (Suc i) (take len arr) @ drop (len - 1) arr"

fun takeChildren :: "nat \<Rightarrow> nat \<Rightarrow> nat \<Rightarrow> nat \<Rightarrow> nat list \<Rightarrow> streamTree \<Rightarrow> streamTree result option" where
  "takeChildren 0 i child newParent arr t = Some (Inr t)"
| "takeChildren (Suc k) i child newParent arr t =
     (let c = arr ! i; x = nodeAt t c
      in if c \<noteq> newParent
         then if nd_state x = nodeActive \<or> nd_activeChildren x > 0
              then obind (addWeight child c t) (\<lambda>t.
                     let cs = nd_children (nodeAt t newParent);
                         arr' = shiftArray (childIndex c cs) (length cs) arr
                     in obind (removeWeight newParent c t) (\<lambda>t.
                          takeChildren k (Suc i) child newParent arr'
                            (updNode c (\<lambda>x. x\<lparr>nd_parent := Some child\<rparr>) t)))
              else takeChildren k (Suc i) child newParent arr (updNode c (\<lambda>x. x\<lparr>nd_parent := Some child\<rparr>) t)
         else takeChildren k (Suc i) child newParent arr t)"

definition maybeSetParent :: "StreamID \<Rightarrow> StreamID \<Rightarrow> bool \<Rightarrow> streamTree \<Rightarrow> streamTree result option" where
  "maybeSetParent childID parentID exclusive t =
     (if childID = parentID then Some (Inl (GoError ''setting stream %d as its own parent''))
      else if childID = 1 then Some (Inl (GoError ''setting parent of crypto stream''))
      else if childID = 3 then Some (Inl (GoError ''setting parent of header stream''))
      else if parentID = 1 then Some (Inl (GoError ''setting parent to crypto stream''))
      else let parentID = (if parentID = 3 then 0 else parentID)
           in case tr_nodeMap t childID of
                None \<Rightarrow> Some (Inl (GoError ''setting unknown stream %d as exclusive child of stream %d''))
              | Some child \<Rightarrow>
                  let oldParent = nd_parent (nodeAt t child)
                  in if \<not> exclusive \<and> (case oldParent of Some p \<Rightarrow> nd_id (nodeAt t p) = parentID | None \<Rightarrow> False)
                     then Some (Inr t)
                     else case tr_nodeMap t parentID of
                            None \<Rightarrow> Some (Inl (GoError ''setting stream %d as exclusive child of unknown stream %d''))
                          | Some newParent \<Rightarrow>
                              (case nd_parent (nodeAt t newParent) of
                                 None \<Rightarrow> Some (Inl (GoPanic ''nil pointer dereference''))
                               | Some n \<Rightarrow>
                                   obind (moveNewParent n child newParent oldParent t) (\<lambda>t.
                                   obind (case nd_parent (nodeAt t child) of
                                            None \<Rightarrow> Some (Inr t)
                                          | Some p \<Rightarrow>
                                              obind (if nd_state (nodeAt t child) = nodeActive \<or> nd_activeChildren (nodeAt t child) > 0
                                                     then removeWeight p child t else Some (Inr t))
                                                (\<lambda>t. Some (Inr (updNode child (\<lambda>x. x\<lparr>nd_parent := None\<rparr>) t)))) (\<lambda>t.
                                   obind (if exclusive
                                          then let cs = nd_children (nodeAt t newParent)
                                               in takeChildren (length cs) 0 child newParent cs t
                                          else Some (Inr t)) (\<lambda>t.
                                   let t = updNode child (\<lambda>x. x\<lparr>nd_parent := Some newParent\<rparr>) t
                                   in if nd_state (nodeAt t child) = nodeActive \<or> nd_activeChildren (nodeAt t child) > 0
                                      then addWeight newParent child t else Some (Inr t))))))"

definition setActive :: "StreamID \<Rightarrow> streamTree \<Rightarrow> streamTree result option" where
  "setActive streamID t =
     (if streamID = 1 \<or> streamID = 3 then Some (Inr t)
      else case tr_nodeMap t streamID of
             None \<Rightarrow> Some (Inl (GoError ''setting unknown stream %d active''))
           | Some n \<Rightarrow>
               let t = updNode n (\<lambda>x. x\<lparr>nd_state := nodeActive\<rparr>) t
               in case nd_parent (nodeAt t n) of
                    None \<Rightarrow> Some (Inl (GoPanic ''nil pointer dereference''))
                  | Some p \<Rightarrow> obind (addWeight p n t) (\<lambda>t. Some (Inr (t\<lparr>tr_openStreams := tr_openStreams t + 1\<rparr>))))"

section \<open>Traversal\<close>

definition nextIndex :: "u16 \<Rightarrow> nat \<Rightarrow> u16 result" where
  "nextIndex i len =
     (if (word_of_nat len :: u16) = 0 then Inl (GoPanic ''integer divide by zero'')
      else Inr ((i + 1) mod word_of_nat len))"

definition advance :: "nat \<Rightarrow> streamTree \<Rightarrow> streamTree result" where
  "advance n t =
     wbind (nextIndex (nd_nextChild (nodeAt t n)) (length (nd_children (nodeAt t n))))
       (\<lambda>i. Inr (updNode n (\<lambda>x. x\<lparr>nd_nextChild := i\<rparr>) t))"

partial_function (option) skipNode :: "nat \<Rightarrow> streamTree \<Rightarrow> streamTree result option" where
  "skipNode n t =
     (case nd_parent (nodeAt t n) of
        None \<Rightarrow> Some (Inr t)
      | Some p \<Rightarrow> obind (Some (advance p t)) (\<lambda>t. skipNode p t))"

definition closeFinished :: "(StreamID \<Rightarrow> stream) \<Rightarrow> nat \<Rightarrow> streamTree \<Rightarrow> streamTree result option" where
  "closeFinished str n t =
     (case nd_stream (nodeAt t n) of
        Some sid \<Rightarrow>
          if finishedWriteAndSentFin (str sid)
          then deactivateNode n (t\<lparr>tr_openStreams := tr_openStreams t - 1\<rparr>) else Some (Inr t)
      | None \<Rightarrow> Some (Inr t))"

text \<open>
  The two traversals.  A call with \<open>None\<close> visits the node \<open>n\<close>; a call with \<open>Some i\<close> is the
  loop over the children of \<open>n\<close> at index \<open>i\<close>.  The result are the addresses of the nodes.
\<close>

partial_function (option) traverseAll ::
    "(StreamID \<Rightarrow> stream) \<Rightarrow> nat option \<Rightarrow> nat \<Rightarrow> streamTree \<Rightarrow> (nat list \<times> streamTree) result option" where
  "traverseAll str loop n t =
     (case loop of
        None \<Rightarrow>
          obind (closeFinished str n t) (\<lambda>t.
            let here = (if nd_stream (nodeAt t n) \<noteq> None then [n] else [])
            in if nd_activeChildren (nodeAt t n) > 0
               then obind (traverseAll str (Some 0) n t) (\<lambda>r. Some (Inr (here @ fst r, snd r)))
               else Some (Inr (here, t)))
      | Some i \<Rightarrow>
          let x = nodeAt t n
          in if i < length (nd_children x)
             then if unat (nd_nextChild x) < length (nd_children x)
                  then obind (traverseAll str None (nd_children x ! unat (nd_nextChild x)) t) (\<lambda>r.
                         obind (Some (advance n (snd r))) (\<lambda>t.
                           obind (traverseAll str (Some (Suc i)) n t) (\<lambda>r'.
                             Some (Inr (fst r @ fst r', snd r')))))
                  else Some (Inl (GoPanic ''index out of range''))
             else Some (Inr ([], t)))"

partial_function (option) traverse ::
    "(StreamID \<Rightarrow> stream) \<Rightarrow> nat option \<Rightarrow> nat \<Rightarrow> streamTree \<Rightarrow> (nat list \<times> streamTree) result option" where
  "traverse str loop n t =
     (case loop of
        None \<Rightarrow>
          obind (closeFinished str n t) (\<lambda>t.
            let t = (case nd_stream (nodeAt t n) of
                       Some sid \<Rightarrow> if st_checksize (str sid) then setVisited n t else t
                     | None \<Rightarrow> t);
                x = nodeAt t n
            in obind
                 (if \<not> nd_visited x \<and> nd_stream x \<noteq> None
                  then Some (Inr (if nd_state x = nodeActive then [n] else [], t))
                  else if nd_activeChildren x > 0 \<and>
                    (case nd_stream x of
                       None \<Rightarrow> True
                     | Some sid \<Rightarrow> finishedWriteAndSentFin (str sid) \<or> nd_id x = 1 \<or> nd_id x = 3)
                  then traverse str (Some 0) n t
                  else Some (Inr ([], t)))
                 (\<lambda>r. case nd_parent (nodeAt (snd r) n) of
                        None \<Rightarrow> Some (Inr r)
                      | Some p \<Rightarrow>
                          if nd_children (nodeAt (snd r) p) \<noteq> []
                          then obind (Some (advance p (snd r))) (\<lambda>t. Some (Inr (fst r, t)))
                          else Some (Inr r)))
      | Some i \<Rightarrow>
          let x = nodeAt t n
          in if i < length (nd_children x)
             then if unat (nd_nextChild x) < length (nd_children x)
                  then obind (traverse str None (nd_children x ! unat (nd_nextChild x)) t) (\<lambda>r.
                         obind (traverse str (Some (Suc i)) n (snd r)) (\<lambda>r'.
                           Some (Inr (fst r @ fst r', snd r'))))
                  else Some (Inl (GoPanic ''index out of range''))
             else Some (Inr ([], t)))"

declare skipNode.simps [code] traverseAll.simps [code] traverse.simps [code]

definition schedule :: "(StreamID \<Rightarrow> stream) \<Rightarrow> streamTree \<Rightarrow> (StreamID option list \<times> streamTree) result option" where
  "schedule str t =
     obind (traverse str None 0 t) (\<lambda>r. Some (Inr (map (\<lambda>a. nd_stream (nodeAt (snd r) a)) (fst r), snd r)))"

definition scheduleAll :: "(StreamID \<Rightarrow> stream) \<Rightarrow> streamTree \<Rightarrow> (StreamID option list \<times> streamTree) result option" where
  "scheduleAll str t =
     obind (traverseAll str None 0 t) (\<lambda>r. Some (Inr (map (\<lambda>a. nd_stream (nodeAt (snd r) a)) (fst r), snd r)))"

section \<open>Examples\<close>

definition childIDs :: "StreamID \<Rightarrow> streamTree \<Rightarrow> StreamID list" where
  "childIDs streamID t =
     (case tr_nodeMap t streamID of None \<Rightarrow> [] | Some a \<Rightarrow> map (\<lambda>c. nd_id (nodeAt t c)) (nd_children (nodeAt t a)))"

fun steps :: "(streamTree \<Rightarrow> streamTree result option) list \<Rightarrow> streamTree \<Rightarrow> streamTree result option" where
  "steps [] t = Some (Inr t)"
| "steps (g # gs) t = obind (g t) (steps gs)"

text \<open>
  An exclusive dependency on a stream with three children: all children should become
  children of the exclusive child, but one of them is lost and another one is there twice.
\<close>

lemma exclusive_loses_child:
  "obind (steps [addNode 5, addNode 7, addNode 9, addNode 11, addNode 13,
              maybeSetParent 7 5 False, maybeSetParent 9 5 False, maybeSetParent 11 5 False,
              maybeSetParent 13 5 True] newStreamTree)
     (\<lambda>t. Some (Inr (childIDs 5 t, childIDs 13 t))) = Some (Inr ([13], [7, 11, 11]))"
  by code_simp

text \<open>A stream is added and closed: the weight of the root's children is off by two.\<close>

lemma removed_weight:
  "obind (steps [addNode 5, addNode 7, deactivateNode 2] newStreamTree)
     (\<lambda>t. Some (Inr (nd_childrensWeight (nodeAt t 0), map (\<lambda>c. nd_weight (nodeAt t c)) (nd_children (nodeAt t 0))))) =
   Some (Inr (18, [15]))"
  by code_simp

text \<open>An exclusive dependency on the root, the default parent, is refused.\<close>

lemma exclusive_root_refused:
  "obind (steps [addNode 5, maybeSetParent 5 0 True] newStreamTree) (\<lambda>t. Some (Inr ())) =
   Some (Inl (GoError ''setting stream %d as exclusive child of unknown stream %d''))"
  by code_simp

end
