(* ===== verification/StreamsMap.thy ===== *)
theory StreamsMap
  imports StreamTree GoNumbers
begin

text \<open>
  The streams of a session by their ID (\<open>streams_map.go\<close>): opening by either side, accepting,
  removing, and the iterations that the sending of data uses.  The function that makes a new
  stream, which the session passes in and which registers the stream with the flow control
  manager, is the argument \<open>mk\<close>; \<open>e\<close> is the state it changes.  A pointer to a stream is its
  ID.  The function of an iteration gets the ID and the whole state.  A call that waits on a
  condition variable has the result \<open>Waiting\<close>.
\<close>

section \<open>The map\<close>

datatype 'a waiting = Waiting | Done 'a

record streamsMap =
  sm_perspective :: Perspective
  sm_streams :: "StreamID \<rightharpoonup> stream"
  sm_openStreams :: "StreamID list"
  sm_roundRobinIndex :: u32
  sm_roundRobinIndexSend :: u32
  sm_roundRobinIndexStream :: u32
  sm_nextStream :: StreamID
  sm_highestStreamOpenedByPeer :: StreamID
  sm_closeErr :: "go_error option"
  sm_nextStreamToAccept :: StreamID
  sm_newStreamPrioritySize :: bool
  sm_priorityOrder :: "StreamID list"
  sm_numOutgoingStreams :: u32
  sm_numIncomingStreams :: u32
  sm_streamTree :: "streamTree option"

abbreviation (input) errStreamsMapAccess :: go_error where
  "errStreamsMapAccess \<equiv> GoError ''streamsMap: Error accessing the streams map''"

abbreviation (input) MaxNewStreamIDDelta :: StreamID where
  "MaxNewStreamIDDelta \<equiv> 4 * MaxStreamsPerConnection"

definition newStreamsMapTree :: "Perspective \<Rightarrow> streamTree option \<Rightarrow> streamsMap" where
  "newStreamsMapTree pers tree =
     \<lparr>sm_perspective = pers, sm_streams = Map.empty, sm_openStreams = [], sm_roundRobinIndex = 0,
      sm_roundRobinIndexSend = 0, sm_roundRobinIndexStream = 0,
      sm_nextStream = (if pers = PerspectiveClient then 1 else 2),
      sm_highestStreamOpenedByPeer = 0, sm_closeErr = None,
      sm_nextStreamToAccept = (if pers = PerspectiveClient then 2 else 1),
      sm_newStreamPrioritySize = True, sm_priorityOrder = [],
      sm_numOutgoingStreams = 0, sm_numIncomingStreams = 0, sm_streamTree = tree\<rparr>"

definition newStreamsMapPrioritySize :: "Perspective \<Rightarrow> streamsMap" where
  "newStreamsMapPrioritySize pers = newStreamsMapTree pers None"

definition newStreamsMapPriority :: "Perspective \<Rightarrow> streamsMap" where
  "newStreamsMapPriority pers = (newStreamsMapTree pers None)\<lparr>sm_newStreamPrioritySize := False\<rparr>"

definition newStreamsMap :: "Perspective \<Rightarrow> streamsMap" where
  "newStreamsMap pers = (newStreamsMapTree pers None)\<lparr>sm_newStreamPrioritySize := False\<rparr>"

definition putStream :: "stream \<Rightarrow> streamsMap \<Rightarrow> (streamsMap \<times> go_error option) option" where
  "putStream s m =
     (case sm_streams m (st_streamID s) of
        Some _ \<Rightarrow> Some (m, Some (GoError ''a stream with ID %d already exists''))
      | None \<Rightarrow>
          let m = m\<lparr>sm_streams := (sm_streams m)(st_streamID s \<mapsto> s),
                    sm_openStreams := sm_openStreams m @ [st_streamID s]\<rparr>
          in case sm_streamTree m of
               None \<Rightarrow> Some (m, None)
             | Some t \<Rightarrow>
                 (case addNode (st_streamID s) t of
                    None \<Rightarrow> None
                  | Some (Inl err) \<Rightarrow> Some (m, Some err)
                  | Some (Inr t) \<Rightarrow> Some (m\<lparr>sm_streamTree := Some t\<rparr>, None)))"

section \<open>Opening streams\<close>

type_synonym 'e mkStream = "StreamID \<Rightarrow> Priority \<Rightarrow> 'e \<Rightarrow> stream \<times> 'e"

abbreviation (input) defaultPriority :: Priority where
  "defaultPriority \<equiv> \<lparr>prio_Dependency = 0, prio_Weight = NOT 0, prio_Exclusive = False\<rparr>"

text \<open>
  The function that the session passes in: the stream is registered with the flow control
  manager; the crypto and the header stream do not count for the connection.
\<close>

definition session_newStreamPrioritySize :: "connectionParametersManager \<Rightarrow> flowControlManager mkStream" where
  "session_newStreamPrioritySize cpm streamID priority f =
     (newStreamPrioritySize streamID priority, fcm_NewStream cpm streamID (streamID \<noteq> 1 \<and> streamID \<noteq> 3) f)"

text \<open>The stream is made and put into the map; an error of \<open>putStream\<close> is dropped.\<close>

definition createStream :: "'e mkStream \<Rightarrow> StreamID \<Rightarrow> Priority \<Rightarrow> streamsMap \<times> 'e \<Rightarrow>
    ((streamsMap \<times> 'e) \<times> StreamID option result) option" where
  "createStream mk streamID priority me =
     (if \<not> sm_newStreamPrioritySize (fst me) then Some (me, Inl (GoPanic ''nil pointer dereference''))
      else case mk streamID priority (snd me) of
             (s, e) \<Rightarrow>
               (case putStream s (fst me) of
                  None \<Rightarrow> None
                | Some (m, _) \<Rightarrow> Some ((m, e), Inr (Some (st_streamID s)))))"

definition openRemoteStreamPrioritySize :: "'e mkStream \<Rightarrow> connectionParametersManager \<Rightarrow> StreamID \<Rightarrow> Priority \<Rightarrow>
    streamsMap \<times> 'e \<Rightarrow> ((streamsMap \<times> 'e) \<times> StreamID option result) option" where
  "openRemoteStreamPrioritySize mk cpm streamID priority me =
     (let m = fst me
      in if sm_numIncomingStreams m \<ge> GetMaxIncomingStreams cpm then Some (me, Inl (ErrorCode TooManyOpenStreams))
         else if streamID + MaxNewStreamIDDelta < sm_highestStreamOpenedByPeer m
         then Some (me, Inl (QuicError InvalidStreamID
                ''attempted to open stream %d, which is a lot smaller than the highest opened stream, %d''))
         else
           let m = (if sm_perspective m = PerspectiveServer
                    then m\<lparr>sm_numIncomingStreams := sm_numIncomingStreams m + 1\<rparr>
                    else m\<lparr>sm_numOutgoingStreams := sm_numOutgoingStreams m + 1\<rparr>);
               m = (if streamID > sm_highestStreamOpenedByPeer m
                    then m\<lparr>sm_highestStreamOpenedByPeer := streamID\<rparr> else m)
           in createStream mk streamID priority (m, snd me))"

definition openRemoteStreamPriority :: "'e mkStream \<Rightarrow> connectionParametersManager \<Rightarrow> StreamID \<Rightarrow> Priority \<Rightarrow>
    streamsMap \<times> 'e \<Rightarrow> ((streamsMap \<times> 'e) \<times> StreamID option result) option" where
  "openRemoteStreamPriority = openRemoteStreamPrioritySize"

definition openRemoteStream :: "'e mkStream \<Rightarrow> connectionParametersManager \<Rightarrow> StreamID \<Rightarrow>
    streamsMap \<times> 'e \<Rightarrow> ((streamsMap \<times> 'e) \<times> StreamID option result) option" where
  "openRemoteStream mk cpm streamID = openRemoteStreamPrioritySize mk cpm streamID defaultPriority"

text \<open>The loop that opens all streams of the peer up to \<open>streamID\<close>.\<close>

partial_function (option) openUpTo :: "'e mkStream \<Rightarrow> connectionParametersManager \<Rightarrow> Priority \<Rightarrow> StreamID \<Rightarrow> StreamID \<Rightarrow>
    streamsMap \<times> 'e \<Rightarrow> ((streamsMap \<times> 'e) \<times> go_error option) option" where
  "openUpTo mk cpm priority streamID sid me =
     (if sid \<le> streamID
      then case openRemoteStreamPrioritySize mk cpm sid priority me of
             None \<Rightarrow> None
           | Some (me, Inl err) \<Rightarrow> Some (me, Some err)
           | Some (me, Inr _) \<Rightarrow> openUpTo mk cpm priority streamID (sid + 2) me
      else Some (me, None))"

declare openUpTo.simps [code]

text \<open>
  What the three variants of \<open>GetOrOpenStream\<close> have in common.  \<open>Inr None\<close> is the nil stream:
  a stream that is closed already.  \<open>prints\<close> tells whether the variant prints the tree at the
  end, which panics if there is no tree.
\<close>

definition getOrOpen :: "bool \<Rightarrow> 'e mkStream \<Rightarrow> connectionParametersManager \<Rightarrow> StreamID \<Rightarrow> Priority \<Rightarrow>
    streamsMap \<times> 'e \<Rightarrow> ((streamsMap \<times> 'e) \<times> StreamID option result) option" where
  "getOrOpen prints mk cpm streamID priority me =
     (let m = fst me
      in if sm_streams m streamID \<noteq> None then Some (me, Inr (Some streamID))
         else if sm_perspective m = PerspectiveServer \<and> streamID mod 2 = 0
         then if streamID \<le> sm_nextStream m then Some (me, Inr None)
              else Some (me, Inl (QuicError InvalidStreamID ''attempted to open stream %d from client-side''))
         else if sm_perspective m = PerspectiveClient \<and> streamID mod 2 = 1
         then if streamID \<le> sm_nextStream m then Some (me, Inr None)
              else Some (me, Inl (QuicError InvalidStreamID ''attempted to open stream %d from server-side''))
         else if streamID \<le> sm_highestStreamOpenedByPeer m then Some (me, Inr None)
         else
           let sid = sm_highestStreamOpenedByPeer m + 2;
               sid = (if sid = 2 \<and> sm_perspective m = PerspectiveServer then 1 else sid)
           in case openUpTo mk cpm priority streamID sid me of
                None \<Rightarrow> None
              | Some (me, Some err) \<Rightarrow> Some (me, Inl err)
              | Some (me, None) \<Rightarrow>
                  if prints \<and> sm_streamTree (fst me) = None then Some (me, Inl (GoPanic ''nil pointer dereference''))
                  else Some (me, Inr (if sm_streams (fst me) streamID = None then None else Some streamID)))"

definition GetOrOpenStreamPriority :: "'e mkStream \<Rightarrow> connectionParametersManager \<Rightarrow> StreamID \<Rightarrow> Priority \<Rightarrow>
    streamsMap \<times> 'e \<Rightarrow> ((streamsMap \<times> 'e) \<times> StreamID option result) option" where
  "GetOrOpenStreamPriority = getOrOpen False"

definition GetOrOpenStreamPrioritySize :: "'e mkStream \<Rightarrow> connectionParametersManager \<Rightarrow> StreamID \<Rightarrow> Priority \<Rightarrow>
    streamsMap \<times> 'e \<Rightarrow> ((streamsMap \<times> 'e) \<times> StreamID option result) option" where
  "GetOrOpenStreamPrioritySize = getOrOpen False"

definition GetOrOpenStream :: "'e mkStream \<Rightarrow> connectionParametersManager \<Rightarrow> StreamID \<Rightarrow>
    streamsMap \<times> 'e \<Rightarrow> ((streamsMap \<times> 'e) \<times> StreamID option result) option" where
  "GetOrOpenStream mk cpm streamID me = getOrOpen True mk cpm streamID defaultPriority me"

definition openStreamImpl :: "'e mkStream \<Rightarrow> connectionParametersManager \<Rightarrow> Priority \<Rightarrow>
    streamsMap \<times> 'e \<Rightarrow> ((streamsMap \<times> 'e) \<times> StreamID option result) option" where
  "openStreamImpl mk cpm priority me =
     (let m = fst me; streamID = sm_nextStream m
      in if sm_numOutgoingStreams m \<ge> GetMaxOutgoingStreams cpm then Some (me, Inl (ErrorCode TooManyOpenStreams))
         else
           let m = (if sm_perspective m = PerspectiveServer
                    then m\<lparr>sm_numOutgoingStreams := sm_numOutgoingStreams m + 1\<rparr>
                    else m\<lparr>sm_numIncomingStreams := sm_numIncomingStreams m + 1\<rparr>)
           in createStream mk streamID priority (m\<lparr>sm_nextStream := sm_nextStream m + 2\<rparr>, snd me))"

text \<open>The priority of the new stream is entered into the tree.\<close>

definition setPriority :: "StreamID \<Rightarrow> Priority \<Rightarrow> streamsMap \<Rightarrow> (streamsMap \<times> go_error option) option" where
  "setPriority streamID priority m =
     (case sm_streamTree m of
        None \<Rightarrow> Some (m, None)
      | Some t \<Rightarrow>
          (case maybeSetWeight streamID (prio_Weight priority) t of
             Inl err \<Rightarrow> Some (m, Some err)
           | Inr t \<Rightarrow>
               (case maybeSetParent streamID (prio_Dependency priority) (prio_Exclusive priority) t of
                  None \<Rightarrow> None
                | Some (Inl err) \<Rightarrow> Some (m\<lparr>sm_streamTree := Some t\<rparr>, Some err)
                | Some (Inr t) \<Rightarrow> Some (m\<lparr>sm_streamTree := Some t\<rparr>, None))))"

definition openStreamPriorityImpl :: "'e mkStream \<Rightarrow> connectionParametersManager \<Rightarrow> Priority \<Rightarrow>
    streamsMap \<times> 'e \<Rightarrow> ((streamsMap \<times> 'e) \<times> StreamID option result) option" where
  "openStreamPriorityImpl mk cpm priority me =
     (case openStreamImpl mk cpm priority me of
        Some ((m, e), Inr sid) \<Rightarrow>
          (case setPriority (sm_nextStream (fst me)) priority m of
             None \<Rightarrow> None
           | Some (m, Some err) \<Rightarrow> Some ((m, e), Inl err)
           | Some (m, None) \<Rightarrow> Some ((m, e), Inr sid))
      | r \<Rightarrow> r)"

definition openStreamPrioritySizeImpl :: "'e mkStream \<Rightarrow> connectionParametersManager \<Rightarrow> Priority \<Rightarrow>
    streamsMap \<times> 'e \<Rightarrow> ((streamsMap \<times> 'e) \<times> StreamID option result) option" where
  "openStreamPrioritySizeImpl mk cpm priority me =
     (case openStreamPriorityImpl mk cpm priority me of
        Some (me, Inr sid) \<Rightarrow>
          if sm_streamTree (fst me) = None then Some (me, Inl (GoPanic ''nil pointer dereference''))
          else Some (me, Inr sid)
      | r \<Rightarrow> r)"

definition OpenStream :: "'e mkStream \<Rightarrow> connectionParametersManager \<Rightarrow>
    streamsMap \<times> 'e \<Rightarrow> ((streamsMap \<times> 'e) \<times> StreamID option result) option" where
  "OpenStream mk cpm me =
     (case sm_closeErr (fst me) of
        Some err \<Rightarrow> Some (me, Inl err)
      | None \<Rightarrow> openStreamImpl mk cpm defaultPriority me)"

text \<open>One round of the loop of the \<open>Sync\<close> variants.\<close>

definition openSync :: "(streamsMap \<times> 'e \<Rightarrow> ((streamsMap \<times> 'e) \<times> StreamID option result) option) \<Rightarrow>
    streamsMap \<times> 'e \<Rightarrow> ((streamsMap \<times> 'e) \<times> StreamID option result waiting) option" where
  "openSync impl me =
     (case sm_closeErr (fst me) of
        Some err \<Rightarrow> Some (me, Done (Inl err))
      | None \<Rightarrow>
          map_option (\<lambda>(me, r). (me, if r = Inl (ErrorCode TooManyOpenStreams) then Waiting else Done r)) (impl me))"

definition OpenStreamSync :: "'e mkStream \<Rightarrow> connectionParametersManager \<Rightarrow>
    streamsMap \<times> 'e \<Rightarrow> ((streamsMap \<times> 'e) \<times> StreamID option result waiting) option" where
  "OpenStreamSync mk cpm = openSync (openStreamImpl mk cpm defaultPriority)"

definition OpenStreamPrioritySync :: "'e mkStream \<Rightarrow> connectionParametersManager \<Rightarrow> Priority \<Rightarrow>
    streamsMap \<times> 'e \<Rightarrow> ((streamsMap \<times> 'e) \<times> StreamID option result waiting) option" where
  "OpenStreamPrioritySync mk cpm priority = openSync (openStreamPriorityImpl mk cpm priority)"

definition OpenStreamPrioritySizeSync :: "'e mkStream \<Rightarrow> connectionParametersManager \<Rightarrow> Priority \<Rightarrow>
    streamsMap \<times> 'e \<Rightarrow> ((streamsMap \<times> 'e) \<times> StreamID option result waiting) option" where
  "OpenStreamPrioritySizeSync mk cpm priority = openSync (openStreamPrioritySizeImpl mk cpm priority)"

definition AcceptStream :: "streamsMap \<Rightarrow> streamsMap \<times> StreamID result waiting" where
  "AcceptStream m =
     (case sm_closeErr m of
        Some err \<Rightarrow> (m, Done (Inl err))
      | None \<Rightarrow>
          (case sm_streams m (sm_nextStreamToAccept m) of
             None \<Rightarrow> (m, Waiting)
           | Some s \<Rightarrow> (m\<lparr>sm_nextStreamToAccept := sm_nextStreamToAccept m + 2\<rparr>,
                         Done (Inr (sm_nextStreamToAccept m)))))"

section \<open>Removing streams\<close>

text \<open>
  The first occurrence of the stream is taken out of the list of open streams; the two
  indices move with the streams behind it.
\<close>

definition dropOpenStream :: "StreamID \<Rightarrow> streamsMap \<Rightarrow> streamsMap" where
  "dropOpenStream streamID m =
     (if streamID \<in> set (sm_openStreams m)
      then let i = length (takeWhile (\<lambda>s. s \<noteq> streamID) (sm_openStreams m))
           in m\<lparr>sm_openStreams := removeAt i (sm_openStreams m),
                sm_roundRobinIndex := (if word_of_nat i < sm_roundRobinIndex m then sm_roundRobinIndex m - 1 else sm_roundRobinIndex m),
                sm_roundRobinIndexSend :=
                  (if word_of_nat i < sm_roundRobinIndexSend m then sm_roundRobinIndexSend m - 1 else sm_roundRobinIndexSend m)\<rparr>
      else m)"

definition sm_RemoveStream :: "StreamID \<Rightarrow> streamsMap \<Rightarrow> streamsMap \<times> go_error option" where
  "sm_RemoveStream streamID m =
     (if sm_streams m streamID = None then (m, Some (GoError ''attempted to remove non-existing stream: %d''))
      else
        let m = (if streamID mod 2 = 0 then m\<lparr>sm_numOutgoingStreams := sm_numOutgoingStreams m - 1\<rparr>
                 else m\<lparr>sm_numIncomingStreams := sm_numIncomingStreams m - 1\<rparr>);
            m = dropOpenStream streamID m
        in (m\<lparr>sm_priorityOrder := remove1 streamID (sm_priorityOrder m),
              sm_streams := (sm_streams m)(streamID := None)\<rparr>, None))"

definition CloseWithError :: "go_error option \<Rightarrow> streamsMap \<Rightarrow> streamsMap result" where
  "CloseWithError err m =
     (if \<forall>s\<in>set (sm_openStreams m). sm_streams m s \<noteq> None
      then Inr (m\<lparr>sm_closeErr := err,
           sm_streams := (\<lambda>s. if s \<in> set (sm_openStreams m) then map_option (Cancel err) (sm_streams m s) else sm_streams m s)\<rparr>)
      else Inl (GoPanic ''nil pointer dereference''))"

section \<open>Iterations\<close>

type_synonym 's streamLambda = "StreamID \<Rightarrow> 's \<Rightarrow> 's \<times> bool \<times> go_error option"

definition iterateFunc :: "StreamID \<Rightarrow> (streamsMap \<times> 'e) streamLambda \<Rightarrow> streamsMap \<times> 'e \<Rightarrow>
    (streamsMap \<times> 'e) \<times> bool \<times> go_error option" where
  "iterateFunc streamID fn me =
     (if sm_streams (fst me) streamID = None then (me, True, Some errStreamsMapAccess) else fn streamID me)"

text \<open>The loop of \<open>Iterate\<close> and of \<open>RoundRobinIterateSchedule\<close>; the flag tells whether it got to the end.\<close>

fun iterateAll :: "(streamsMap \<times> 'e) streamLambda \<Rightarrow> StreamID list \<Rightarrow> streamsMap \<times> 'e \<Rightarrow>
    (streamsMap \<times> 'e) \<times> bool \<times> go_error option" where
  "iterateAll fn [] me = (me, True, None)"
| "iterateAll fn (i # is) me =
     (case iterateFunc i fn me of
        (me, cont, Some err) \<Rightarrow> (me, False, Some err)
      | (me, cont, None) \<Rightarrow> if cont then iterateAll fn is me else (me, False, None))"

definition Iterate :: "(streamsMap \<times> 'e) streamLambda \<Rightarrow> streamsMap \<times> 'e \<Rightarrow> (streamsMap \<times> 'e) \<times> go_error option" where
  "Iterate fn me = (case iterateAll fn (sm_openStreams (fst me)) me of (me, _, err) \<Rightarrow> (me, err))"

definition RoundRobinIterateSchedule :: "(streamsMap \<times> 'e) streamLambda \<Rightarrow> streamsMap \<times> 'e \<Rightarrow>
    (streamsMap \<times> 'e) \<times> bool \<times> go_error option" where
  "RoundRobinIterateSchedule fn me = iterateAll fn (sm_priorityOrder (fst me)) me"

text \<open>
  The crypto and the header stream come first, whether or not they exist.  The result tells
  whether the iteration goes on.
\<close>

fun iterateFirst :: "(streamsMap \<times> 'e) streamLambda \<Rightarrow> StreamID list \<Rightarrow> streamsMap \<times> 'e \<Rightarrow>
    (streamsMap \<times> 'e) \<times> bool \<times> go_error option" where
  "iterateFirst fn [] me = (me, True, None)"
| "iterateFirst fn (i # is) me =
     (case iterateFunc i fn me of
        (me, cont, err) \<Rightarrow>
          if err \<noteq> None \<and> err \<noteq> Some errStreamsMapAccess then (me, False, err)
          else if cont then iterateFirst fn is me else (me, False, None))"

fun roundRobinLoop :: "(streamsMap \<times> 'e) streamLambda \<Rightarrow> u32 \<Rightarrow> u32 \<Rightarrow> u32 list \<Rightarrow> streamsMap \<times> 'e \<Rightarrow>
    (streamsMap \<times> 'e) \<times> go_error option" where
  "roundRobinLoop fn numStreams startIndex [] me = (me, None)"
| "roundRobinLoop fn numStreams startIndex (i # is) me =
     (let idx = unat ((i + startIndex) mod numStreams)
      in if idx \<ge> length (sm_openStreams (fst me)) then (me, Some (GoPanic ''index out of range''))
         else
           let streamID = sm_openStreams (fst me) ! idx
           in if streamID = 1 \<or> streamID = 3 then roundRobinLoop fn numStreams startIndex is me
              else case iterateFunc streamID fn me of
                     (me, cont, Some err) \<Rightarrow> (me, Some err)
                   | ((m, e), cont, None) \<Rightarrow>
                       let me = (m\<lparr>sm_roundRobinIndex := (sm_roundRobinIndex m + 1) mod numStreams\<rparr>, e)
                       in if cont then roundRobinLoop fn numStreams startIndex is me else (me, None))"

definition numStreams :: "streamsMap \<Rightarrow> u32" where
  "numStreams m = word_of_nat (card (dom (sm_streams m)))"

definition RoundRobinIterate :: "(streamsMap \<times> 'e) streamLambda \<Rightarrow> streamsMap \<times> 'e \<Rightarrow> (streamsMap \<times> 'e) \<times> go_error option" where
  "RoundRobinIterate fn me =
     (let n = numStreams (fst me); startIndex = sm_roundRobinIndex (fst me)
      in case iterateFirst fn [1, 3] me of
           (me, cont, err) \<Rightarrow>
             if cont then roundRobinLoop fn n startIndex (map word_of_nat [0..<unat n]) me else (me, err))"

section \<open>Iterations over the streams of a path\<close>

fun popOfPathLoop :: "(streamsMap \<times> 'e) streamLambda \<Rightarrow> StreamID list \<Rightarrow> u32 \<Rightarrow> u32 list \<Rightarrow> streamsMap \<times> 'e \<Rightarrow>
    (streamsMap \<times> 'e) \<times> go_error option" where
  "popOfPathLoop fn ids startIndex [] me = (me, None)"
| "popOfPathLoop fn ids startIndex (i # is) me =
     (let n = word_of_nat (length ids); sid = ids ! unat ((i + startIndex) mod n)
      in if sid = 1 \<or> sid = 3 then popOfPathLoop fn ids startIndex is me
         else case iterateFunc sid fn me of
                ((m, e), cont, err) \<Rightarrow>
                  if err \<noteq> None \<and> err \<noteq> Some errStreamsMapAccess then ((m, e), err)
                  else
                    let me = (m\<lparr>sm_roundRobinIndexStream := (sm_roundRobinIndexStream m + 1) mod n\<rparr>, e)
                    in if cont then popOfPathLoop fn ids startIndex is me else (me, None))"

definition RoundRobinIteratePopOfPath :: "(streamsMap \<times> 'e) streamLambda \<Rightarrow> StreamID list \<Rightarrow> streamsMap \<times> 'e \<Rightarrow>
    (streamsMap \<times> 'e) \<times> go_error option" where
  "RoundRobinIteratePopOfPath fn ids me =
     popOfPathLoop fn ids (sm_roundRobinIndexStream (fst me)) (map word_of_nat [0..<length ids]) me"

text \<open>
  The stream that a random number selects.  The loop runs over a Go map, so \<open>order\<close> is the list
  of its keys in the order of the loop; \<open>randInt\<close> is the random number below 100000.
\<close>

fun fetchFlow :: "(StreamID \<Rightarrow> rat) \<Rightarrow> int \<Rightarrow> rat \<Rightarrow> StreamID list \<Rightarrow> StreamID" where
  "fetchFlow probability randInt sumPro [] = 0"
| "fetchFlow probability randInt sumPro (sid # order) =
     (let sumPro = f32 (sumPro + probability sid)
      in if f32 (of_int randInt) < f32 (f32 100000 * sumPro) then sid
         else fetchFlow probability randInt sumPro order)"

fun sumWeights :: "(streamsMap \<times> 'e) streamLambda \<Rightarrow> StreamID list \<Rightarrow> rat \<Rightarrow> streamsMap \<times> 'e \<Rightarrow>
    (streamsMap \<times> 'e) \<times> bool \<times> rat \<times> go_error option" where
  "sumWeights fn [] wsum me = (me, True, wsum, None)"
| "sumWeights fn (sid # ids) wsum me =
     (if sid = 3
      then case iterateFunc sid fn me of
             (me, cont, err) \<Rightarrow>
               if err \<noteq> None \<and> err \<noteq> Some errStreamsMapAccess then (me, False, wsum, err)
               else if cont then sumWeights fn ids wsum me else (me, False, wsum, None)
      else case sm_streams (fst me) sid of
             None \<Rightarrow> (me, False, wsum, Some (GoPanic ''nil pointer dereference''))
           | Some s \<Rightarrow> sumWeights fn ids (f32 (wsum + of_nat (unat (prio_Weight (st_priority s))))) me)"

definition popProbability :: "streamsMap \<Rightarrow> rat \<Rightarrow> StreamID \<Rightarrow> rat" where
  "popProbability m wsum sid =
     (case sm_streams m sid of
        None \<Rightarrow> 0
      | Some s \<Rightarrow> f32 (of_nat (unat (prio_Weight (st_priority s))) / wsum))"

definition PriorityIteratePopOfPath ::
    "(streamsMap \<times> 'e) streamLambda \<Rightarrow> (StreamID list \<Rightarrow> StreamID list) \<Rightarrow> int \<Rightarrow> StreamID list \<Rightarrow> streamsMap \<times> 'e \<Rightarrow>
     (streamsMap \<times> 'e) \<times> go_error option" where
  "PriorityIteratePopOfPath fn order randInt ids me =
     (case sumWeights fn ids 0 me of
        (me, False, wsum, err) \<Rightarrow> (me, err)
      | (me, True, wsum, err) \<Rightarrow>
          let keys = remdups (filter (\<lambda>sid. sid \<noteq> 1 \<and> sid \<noteq> 3) ids);
              cid = fetchFlow (popProbability (fst me) wsum) randInt 0 (order keys)
          in if cid = 0 then (me, Some (GoError ''fail to select stream to pop''))
             else case iterateFunc cid fn me of
                    (me, cont, err) \<Rightarrow>
                      if err \<noteq> None \<and> err \<noteq> Some errStreamsMapAccess then (me, err) else (me, None))"

section \<open>Sending\<close>

text \<open>
  The result of the function for sending: whether the packet was not empty, whether a path has
  a window, and whether the stream does not exist.
\<close>

record sendFlags =
  notEmptyPackets :: bool
  hasWindows :: bool
  allStreamNotExisted :: bool

type_synonym 's streamLambdaSend = "StreamID \<Rightarrow> 's \<Rightarrow> 's \<times> sendFlags \<times> go_error option"

definition iterateFuncPacketSend :: "StreamID \<Rightarrow> (streamsMap \<times> 'e) streamLambdaSend \<Rightarrow> streamsMap \<times> 'e \<Rightarrow>
    (streamsMap \<times> 'e) \<times> sendFlags \<times> go_error option" where
  "iterateFuncPacketSend streamID fn me =
     (if sm_streams (fst me) streamID = None
      then (me, \<lparr>notEmptyPackets = False, hasWindows = False, allStreamNotExisted = True\<rparr>, Some errStreamsMapAccess)
      else fn streamID me)"

definition joinFlags :: "sendFlags \<Rightarrow> sendFlags \<Rightarrow> sendFlags" where
  "joinFlags a b =
     \<lparr>notEmptyPackets = (notEmptyPackets a \<or> notEmptyPackets b), hasWindows = (hasWindows a \<or> hasWindows b),
      allStreamNotExisted = (allStreamNotExisted a \<and> allStreamNotExisted b)\<rparr>"

fun sendFirst :: "(streamsMap \<times> 'e) streamLambdaSend \<Rightarrow> StreamID list \<Rightarrow> sendFlags \<Rightarrow> streamsMap \<times> 'e \<Rightarrow>
    (streamsMap \<times> 'e) \<times> sendFlags \<times> go_error option" where
  "sendFirst fn [] fl me = (me, fl, None)"
| "sendFirst fn (i # is) fl me =
     (case iterateFuncPacketSend i fn me of
        (me, fl', err) \<Rightarrow>
          if err \<noteq> None \<and> err \<noteq> Some errStreamsMapAccess then (me, fl, err)
          else sendFirst fn is (joinFlags fl fl') me)"

abbreviation (input) noFlags :: sendFlags where
  "noFlags \<equiv> \<lparr>notEmptyPackets = False, hasWindows = False, allStreamNotExisted = True\<rparr>"

partial_function (option) RoundRobinSendingPrioritizeStream ::
    "(streamsMap \<times> 'e) streamLambdaSend \<Rightarrow> streamsMap \<times> 'e \<Rightarrow>
     ((streamsMap \<times> 'e) \<times> sendFlags \<times> go_error option) option" where
  "RoundRobinSendingPrioritizeStream fn me =
     (case sendFirst fn [1, 3] noFlags me of
        (me, fl, Some err) \<Rightarrow>
          Some (me, \<lparr>notEmptyPackets = False, hasWindows = False, allStreamNotExisted = False\<rparr>, Some err)
      | (me, fl, None) \<Rightarrow>
          if \<not> notEmptyPackets fl \<or> \<not> hasWindows fl \<or> allStreamNotExisted fl then Some (me, fl, None)
          else RoundRobinSendingPrioritizeStream fn me)"

fun sendLoop :: "(streamsMap \<times> 'e) streamLambdaSend \<Rightarrow> u32 \<Rightarrow> u32 \<Rightarrow> u32 list \<Rightarrow> sendFlags \<Rightarrow> streamsMap \<times> 'e \<Rightarrow>
    (streamsMap \<times> 'e) \<times> sendFlags \<times> go_error option" where
  "sendLoop fn n startIndex [] fl me = (me, fl, None)"
| "sendLoop fn n startIndex (i # is) fl me =
     (let idx = unat ((i + startIndex) mod n)
      in if idx \<ge> length (sm_openStreams (fst me)) then (me, fl, Some (GoPanic ''index out of range''))
         else
           let streamID = sm_openStreams (fst me) ! idx
           in if streamID = 1 \<or> streamID = 3 then sendLoop fn n startIndex is fl me
              else case iterateFuncPacketSend streamID fn me of
                     (me, fl', Some err) \<Rightarrow> (me, fl, Some err)
                   | ((m, e), fl', None) \<Rightarrow>
                       sendLoop fn n startIndex is (joinFlags fl fl')
                         (m\<lparr>sm_roundRobinIndexSend := (sm_roundRobinIndexSend m + 1) mod n\<rparr>, e))"

partial_function (option) RoundRobinIterateSend ::
    "(streamsMap \<times> 'e) streamLambdaSend \<Rightarrow> streamsMap \<times> 'e \<Rightarrow> ((streamsMap \<times> 'e) \<times> go_error option) option" where
  "RoundRobinIterateSend fn me =
     (let n = numStreams (fst me); startIndex = sm_roundRobinIndexSend (fst me)
      in case sendFirst fn [1, 3] noFlags me of
           (me, fl, Some err) \<Rightarrow> Some (me, Some err)
         | (me, fl, None) \<Rightarrow>
             (case sendLoop fn n startIndex (map word_of_nat [0..<unat n]) fl me of
                (me, fl, Some err) \<Rightarrow> Some (me, Some err)
              | (me, fl, None) \<Rightarrow>
                  if allStreamNotExisted fl \<or> \<not> notEmptyPackets fl \<or> \<not> hasWindows fl then Some (me, None)
                  else RoundRobinIterateSend fn me))"

declare RoundRobinSendingPrioritizeStream.simps [code] RoundRobinIterateSend.simps [code]

text \<open>
  The order of the streams for path scheduling.  \<open>sort.Slice\<close> leaves the order of streams with
  the same weight open, so the sorting of the pairs of ID and weight is the argument \<open>sortSlice\<close>.
\<close>

definition sortStreamPriorityOrder ::
    "((StreamID \<times> byte) list \<Rightarrow> (StreamID \<times> byte) list) \<Rightarrow> (StreamID \<Rightarrow> stream) \<Rightarrow> streamsMap \<Rightarrow>
     (streamsMap \<times> bool) result option" where
  "sortStreamPriorityOrder sortSlice str m =
     (case sm_streamTree m of
        None \<Rightarrow> Some (Inl (GoPanic ''nil pointer dereference''))
      | Some t \<Rightarrow>
          obind (schedule str t) (\<lambda>(strs, t).
            let m = m\<lparr>sm_streamTree := Some t\<rparr>
            in if strs = [] then Some (Inr (m, False))
               else if None \<in> set strs then Some (Inl (GoPanic ''nil pointer dereference''))
               else
                 let orders = map (\<lambda>s. (the s, prio_Weight (st_priority (str (the s))))) strs
                 in Some (Inr (m\<lparr>sm_priorityOrder := map fst (sortSlice orders)\<rparr>, True))))"

end
