(* ===== verification/StreamsInvariant.thy ===== *)
theory StreamsInvariant
  imports StreamsMap
begin

text \<open>
  The consistency of the streams map: the list of open streams and the map hold the same
  streams, the counters count the streams of either side, and on the server the limits hold.
  Then the round robin iteration is fair.
\<close>

section \<open>IDs\<close>

abbreviation odd_id :: "StreamID \<Rightarrow> bool" where "odd_id k \<equiv> k mod 2 = 1"

lemma mod2_nat: "(k :: StreamID) mod 2 = 1 \<longleftrightarrow> odd (unat k)" "(k :: StreamID) mod 2 = 0 \<longleftrightarrow> even (unat k)"
  by (simp_all add: word_unat_eq_iff unat_mod odd_iff_mod_2_eq_one even_iff_mod_2_eq_zero)

lemma mod2_cases: "(k :: StreamID) mod 2 = 0 \<longleftrightarrow> \<not> odd_id k"
  by (simp add: mod2_nat)

lemma odd_add2 [simp]: "odd_id (k + 2) = odd_id k"
proof -
  have "(unat k + 2) mod 2 ^ 32 mod 2 = (unat k + 2) mod 2" by (rule mod_mod_cancel) simp
  then show ?thesis by (simp add: mod2_nat unat_word_ariths odd_iff_mod_2_eq_one)
qed

lemma less_add2: "(k :: StreamID) < 0xFFFFFFFE \<Longrightarrow> k < k + 2 \<and> (j < k + 2 \<and> odd_id j = odd_id k \<longrightarrow> j \<le> k)"
proof (intro conjI impI)
  assume "k < 0xFFFFFFFE"
  then have k: "unat (k + 2) = unat k + 2"
    by (subst unat_plus_if') (auto simp: word_less_nat_alt)
  then show "k < k + 2" by (simp add: word_less_nat_alt)
  assume "j < k + 2 \<and> odd_id j = odd_id k"
  then have "unat j < unat k + 2" "odd (unat j) = odd (unat k)" using k by (auto simp: word_less_nat_alt mod2_nat)
  then have "unat j \<noteq> Suc (unat k)" by auto
  then show "j \<le> k" using \<open>unat j < unat k + 2\<close> by (simp add: word_le_nat_alt)
qed

text \<open>The parity of the streams that this side opens; the peer opens the others.\<close>

definition own :: "streamsMap \<Rightarrow> StreamID \<Rightarrow> bool" where
  "own m k \<longleftrightarrow> (if sm_perspective m = PerspectiveServer then \<not> odd_id k else odd_id k)"

definition countOdd :: "streamsMap \<Rightarrow> nat" where
  "countOdd m = length (filter (\<lambda>k. odd_id k) (sm_openStreams m))"

definition countEven :: "streamsMap \<Rightarrow> nat" where
  "countEven m = length (filter (\<lambda>k. \<not> odd_id k) (sm_openStreams m))"

definition sm_inv :: "connectionParametersManager \<Rightarrow> streamsMap \<Rightarrow> bool" where
  "sm_inv cpm m \<longleftrightarrow> sm_newStreamPrioritySize m \<and>
     distinct (sm_openStreams m) \<and> set (sm_openStreams m) = dom (sm_streams m) \<and>
     (\<forall>k s. sm_streams m k = Some s \<longrightarrow> st_streamID s = k) \<and>
     (\<forall>k\<in>dom (sm_streams m). if own m k then k < sm_nextStream m else k \<le> sm_highestStreamOpenedByPeer m) \<and>
     own m (sm_nextStream m) \<and> (sm_highestStreamOpenedByPeer m = 0 \<or> \<not> own m (sm_highestStreamOpenedByPeer m)) \<and>
     sm_numIncomingStreams m = word_of_nat (countOdd m) \<and> sm_numOutgoingStreams m = word_of_nat (countEven m) \<and>
     (sm_perspective m = PerspectiveServer \<longrightarrow>
        countOdd m \<le> unat (GetMaxIncomingStreams cpm) \<and> countEven m \<le> unat (GetMaxOutgoingStreams cpm))"

lemma new_sm_inv: "sm_inv cpm (newStreamsMapTree pers tree)"
  by (cases pers) (simp_all add: sm_inv_def newStreamsMapTree_def own_def countOdd_def countEven_def)

section \<open>Opening\<close>

text \<open>A function for new streams gives them the ID it is asked for.\<close>

definition mk_ok :: "'e mkStream \<Rightarrow> bool" where
  "mk_ok mk \<longleftrightarrow> (\<forall>k p e. st_streamID (fst (mk k p e)) = k)"

definition same_frame :: "streamsMap \<Rightarrow> streamsMap \<Rightarrow> bool" where
  "same_frame m m' \<longleftrightarrow> sm_perspective m' = sm_perspective m \<and> sm_newStreamPrioritySize m' = sm_newStreamPrioritySize m \<and>
     sm_nextStream m' = sm_nextStream m \<and> sm_highestStreamOpenedByPeer m' = sm_highestStreamOpenedByPeer m \<and>
     sm_numIncomingStreams m' = sm_numIncomingStreams m \<and> sm_numOutgoingStreams m' = sm_numOutgoingStreams m"

lemma createStream_ok:
  assumes "createStream mk k p (m, e) = Some ((m', e'), r)" "sm_newStreamPrioritySize m" "mk_ok mk" "sm_streams m k = None"
  shows "\<exists>s. st_streamID s = k \<and> sm_streams m' = (sm_streams m)(k \<mapsto> s) \<and> sm_openStreams m' = sm_openStreams m @ [k] \<and>
    same_frame m m' \<and> r = Inr (Some k)"
proof -
  obtain s e2 where s: "mk k p e = (s, e2)" by (cases "mk k p e")
  then have k: "st_streamID s = k" using assms(3) by (metis mk_ok_def fst_conv)
  have "putStream s m = Some (m', snd (the (putStream s m)))" "r = Inr (Some k)"
    using assms(1,2) s k by (auto simp: createStream_def split: option.splits prod.splits)
  then show ?thesis using k assms(4)
    by (auto simp: putStream_def Let_def same_frame_def split: option.splits sum.splits)
qed

lemma sm_inv_same_frame:
  assumes "same_frame m m'" "sm_streams m' = sm_streams m" "sm_openStreams m' = sm_openStreams m"
  shows "sm_inv cpm m' = sm_inv cpm m"
  using assms by (simp add: sm_inv_def same_frame_def own_def countOdd_def countEven_def)

lemma count_add:
  assumes "sm_openStreams m' = sm_openStreams m @ [k]"
  shows "countOdd m' = countOdd m + (if odd_id k then 1 else 0)" "countEven m' = countEven m + (if odd_id k then 0 else 1)"
  using assms by (simp_all add: countOdd_def countEven_def)

lemma below_limit:
  assumes "\<not> L \<le> (word_of_nat n :: u32)" "n \<le> unat L"
  shows "n + 1 \<le> unat L"
proof -
  have "unat L < 2 ^ 32" using unsigned_less [of L] by simp
  then have "n < 2 ^ 32" using assms(2) by simp
  then show ?thesis using assms(1) by (simp add: word_le_nat_alt unat_of_nat)
qed

lemma own_counts:
  "own m k \<Longrightarrow> sm_perspective m = PerspectiveServer \<Longrightarrow> \<not> odd_id k"
  "own m k \<Longrightarrow> sm_perspective m \<noteq> PerspectiveServer \<Longrightarrow> odd_id k"
  "\<not> own m k \<Longrightarrow> sm_perspective m = PerspectiveServer \<Longrightarrow> odd_id k"
  "\<not> own m k \<Longrightarrow> sm_perspective m \<noteq> PerspectiveServer \<Longrightarrow> \<not> odd_id k"
  by (auto simp: own_def)

lemma openStreamImpl_inv:
  assumes inv: "sm_inv cpm m" and mk: "mk_ok mk" and w: "sm_nextStream m < 0xFFFFFFFE"
    and o: "openStreamImpl mk cpm p (m, e) = Some ((m', e'), r)"
  shows "sm_inv cpm m'"
proof (cases "GetMaxOutgoingStreams cpm \<le> sm_numOutgoingStreams m")
  case True
  then show ?thesis using o inv by (simp add: openStreamImpl_def)
next
  case False
  define k where "k = sm_nextStream m"
  define m1 where "m1 = (if sm_perspective m = PerspectiveServer
      then m\<lparr>sm_numOutgoingStreams := sm_numOutgoingStreams m + 1\<rparr>
      else m\<lparr>sm_numIncomingStreams := sm_numIncomingStreams m + 1\<rparr>)\<lparr>sm_nextStream := k + 2\<rparr>"
  have c: "createStream mk k p (m1, e) = Some ((m', e'), r)"
    using o False by (auto simp: openStreamImpl_def Let_def k_def m1_def split: if_splits)
  have m1: "sm_streams m1 = sm_streams m" "sm_openStreams m1 = sm_openStreams m" "sm_nextStream m1 = k + 2"
    "sm_newStreamPrioritySize m1" "sm_perspective m1 = sm_perspective m"
    "sm_highestStreamOpenedByPeer m1 = sm_highestStreamOpenedByPeer m"
    "sm_numIncomingStreams m1 = (if sm_perspective m = PerspectiveServer then sm_numIncomingStreams m else sm_numIncomingStreams m + 1)"
    "sm_numOutgoingStreams m1 = (if sm_perspective m = PerspectiveServer then sm_numOutgoingStreams m + 1 else sm_numOutgoingStreams m)"
    using inv by (auto simp: m1_def sm_inv_def)
  have ownk: "own m k" using inv by (simp add: sm_inv_def k_def)
  then have kd: "k \<notin> dom (sm_streams m)" using inv unfolding sm_inv_def k_def by (metis less_irrefl)
  then obtain s where s: "st_streamID s = k" "sm_streams m' = (sm_streams m)(k \<mapsto> s)"
    "sm_openStreams m' = sm_openStreams m @ [k]" "same_frame m1 m'"
    using createStream_ok [OF c m1(4) mk] m1(1,2) by auto
  have own': "own m' j = own m j" for j using s(4) m1(5) by (simp add: own_def same_frame_def)
  have kk: "k < k + 2" "own m (k + 2)" using less_add2 [of k] w ownk by (auto simp: k_def own_def)
  have cnt: "countOdd m' = countOdd m + (if odd_id k then 1 else 0)" "countEven m' = countEven m + (if odd_id k then 0 else 1)"
    using count_add [OF s(3)] by auto
  have lim: "countEven m + 1 \<le> unat (GetMaxOutgoingStreams cpm)" if "sm_perspective m = PerspectiveServer"
    using below_limit False inv that by (auto simp: sm_inv_def)
  have old: "\<forall>j\<in>dom (sm_streams m). if own m j then j < k else j \<le> sm_highestStreamOpenedByPeer m"
    using inv unfolding sm_inv_def k_def by blast
  have "if own m j then j < k + 2 else j \<le> sm_highestStreamOpenedByPeer m" if "j \<in> dom (sm_streams m) \<or> j = k" for j
    using that old ownk kk(1) by (metis less_trans)
  then show ?thesis
    using inv s m1 own' kk(2) cnt lim ownk kd own_counts [of m k] unfolding sm_inv_def same_frame_def k_def
    by (cases "sm_perspective m = PerspectiveServer") auto
qed

lemma openRemote_inv:
  assumes inv: "sm_inv cpm m" and mk: "mk_ok mk" and sid: "\<not> own m k" "sm_highestStreamOpenedByPeer m < k"
    and o: "openRemoteStreamPrioritySize mk cpm k p (m, e) = Some ((m', e'), r)"
  shows "sm_inv cpm m' \<and> sm_perspective m' = sm_perspective m \<and> (\<forall>x. r = Inr x \<longrightarrow> sm_highestStreamOpenedByPeer m' = k)"
proof (cases "GetMaxIncomingStreams cpm \<le> sm_numIncomingStreams m \<or> k + MaxNewStreamIDDelta < sm_highestStreamOpenedByPeer m")
  case True
  then show ?thesis using o inv by (auto simp: openRemoteStreamPrioritySize_def Let_def split: if_splits)
next
  case False
  define m1 where "m1 = (if sm_perspective m = PerspectiveServer
      then m\<lparr>sm_numIncomingStreams := sm_numIncomingStreams m + 1\<rparr>
      else m\<lparr>sm_numOutgoingStreams := sm_numOutgoingStreams m + 1\<rparr>)\<lparr>sm_highestStreamOpenedByPeer := k\<rparr>"
  have c: "createStream mk k p (m1, e) = Some ((m', e'), r)"
    using o False sid(2) by (auto simp: openRemoteStreamPrioritySize_def Let_def m1_def split: if_splits)
  have m1: "sm_streams m1 = sm_streams m" "sm_openStreams m1 = sm_openStreams m" "sm_nextStream m1 = sm_nextStream m"
    "sm_newStreamPrioritySize m1" "sm_perspective m1 = sm_perspective m" "sm_highestStreamOpenedByPeer m1 = k"
    "sm_numIncomingStreams m1 = (if sm_perspective m = PerspectiveServer then sm_numIncomingStreams m + 1 else sm_numIncomingStreams m)"
    "sm_numOutgoingStreams m1 = (if sm_perspective m = PerspectiveServer then sm_numOutgoingStreams m else sm_numOutgoingStreams m + 1)"
    using inv by (auto simp: m1_def sm_inv_def)
  have old: "\<forall>j\<in>dom (sm_streams m). if own m j then j < sm_nextStream m else j \<le> sm_highestStreamOpenedByPeer m"
    using inv unfolding sm_inv_def by blast
  then have kd: "k \<notin> dom (sm_streams m)" using sid by (metis leD)
  then obtain s where s: "st_streamID s = k" "sm_streams m' = (sm_streams m)(k \<mapsto> s)"
    "sm_openStreams m' = sm_openStreams m @ [k]" "same_frame m1 m'"
    using createStream_ok [OF c m1(4) mk] m1(1,2) by auto
  have own': "own m' j = own m j" for j using s(4) m1(5) by (simp add: own_def same_frame_def)
  have cnt: "countOdd m' = countOdd m + (if odd_id k then 1 else 0)" "countEven m' = countEven m + (if odd_id k then 0 else 1)"
    using count_add [OF s(3)] by auto
  have lim: "countOdd m + 1 \<le> unat (GetMaxIncomingStreams cpm)" if "sm_perspective m = PerspectiveServer"
    using below_limit False inv that by (auto simp: sm_inv_def)
  have new: "if own m j then j < sm_nextStream m else j \<le> k" if "j \<in> dom (sm_streams m) \<or> j = k" for j
    using that old sid by (metis less_imp_le order_refl order_trans)
  have "sm_inv cpm m'"
    using new inv s m1 own' cnt lim sid(1) kd own_counts [of m k] unfolding sm_inv_def same_frame_def
    by (cases "sm_perspective m = PerspectiveServer") auto
  then show ?thesis using s(4) m1(5,6) by (simp add: same_frame_def)
qed

lemma openUpTo_inv:
  assumes "openUpTo mk cpm p k sid me = Some r"
  shows "sm_inv cpm (fst me) \<and> mk_ok mk \<and> \<not> own (fst me) sid \<and>
    sm_highestStreamOpenedByPeer (fst me) < sid \<and> k < 0xFFFFFFFE \<longrightarrow> sm_inv cpm (fst (fst r))"
  using assms
proof (rule openUpTo.raw_induct [rotated], intro impI)
  fix f and mk :: "'a mkStream" and cpm p k sid me r
  assume IH: "\<And>mk cpm p k sid me r. f mk cpm p k sid me = Some r \<Longrightarrow>
      sm_inv cpm (fst me) \<and> mk_ok mk \<and> \<not> own (fst me) sid \<and>
      sm_highestStreamOpenedByPeer (fst me) < sid \<and> k < 0xFFFFFFFE \<longrightarrow> sm_inv cpm (fst (fst r))"
    and body: "(if sid \<le> k
      then case openRemoteStreamPrioritySize mk cpm sid p me of
             None \<Rightarrow> None
           | Some (me, Inl err) \<Rightarrow> Some (me, Some err)
           | Some (me, Inr _) \<Rightarrow> f mk cpm p k (sid + 2) me
      else Some (me, None)) = Some r"
    and H: "sm_inv cpm (fst me) \<and> mk_ok mk \<and> \<not> own (fst me) sid \<and>
      sm_highestStreamOpenedByPeer (fst me) < sid \<and> k < 0xFFFFFFFE"
  show "sm_inv cpm (fst (fst r))"
  proof (cases "sid \<le> k")
    case False
    then show ?thesis using body H by auto
  next
    case True
    obtain m e where me: "me = (m, e)" by (cases me)
    obtain m' e' x where o: "openRemoteStreamPrioritySize mk cpm sid p (m, e) = Some ((m', e'), x)"
      using body True me by (cases "openRemoteStreamPrioritySize mk cpm sid p (m, e)") auto
    have i: "sm_inv cpm m'" "sm_perspective m' = sm_perspective m" "\<And>y. x = Inr y \<Longrightarrow> sm_highestStreamOpenedByPeer m' = sid"
      using openRemote_inv [OF _ _ _ _ o] H me by auto
    show ?thesis
    proof (cases x)
      case (Inl err)
      then show ?thesis using body True me o i(1) by auto
    next
      case (Inr y)
      then have rec: "f mk cpm p k (sid + 2) (m', e') = Some r" using body True me o by simp
      have "sid < 0xFFFFFFFE" using True H by (blast intro: le_less_trans)
      then have "sid < sid + 2" using less_add2 by blast
      moreover have "\<not> own m' (sid + 2)" using H me i(2) by (auto simp: own_def split: if_splits)
      ultimately show ?thesis using IH [OF rec] i(1) i(3) [OF Inr] H by simp
    qed
  qed
qed

lemma getOrOpen_known:
  assumes "sm_streams m k \<noteq> None \<or> own m k \<or> k \<le> sm_highestStreamOpenedByPeer m"
  shows "\<exists>r. getOrOpen prints mk cpm k p (m, e) = Some ((m, e), r)"
  using assms by (cases "sm_perspective m") (auto simp: getOrOpen_def Let_def own_def mod2_nat)

lemma getOrOpen_unknown:
  assumes "\<not> (sm_streams m k \<noteq> None \<or> own m k \<or> k \<le> sm_highestStreamOpenedByPeer m)"
  shows "getOrOpen prints mk cpm k p (m, e) =
     (let sid = (if sm_highestStreamOpenedByPeer m + 2 = 2 \<and> sm_perspective m = PerspectiveServer then 1
            else sm_highestStreamOpenedByPeer m + 2)
      in case openUpTo mk cpm p k sid (m, e) of
           None \<Rightarrow> None
         | Some (me, Some err) \<Rightarrow> Some (me, Inl err)
         | Some (me, None) \<Rightarrow>
             if prints \<and> sm_streamTree (fst me) = None then Some (me, Inl (GoPanic ''nil pointer dereference''))
             else Some (me, Inr (if sm_streams (fst me) k = None then None else Some k)))"
  using assms by (cases "sm_perspective m") (simp_all add: getOrOpen_def Let_def own_def mod2_nat)

lemma getOrOpen_inv:
  assumes inv: "sm_inv cpm m" and mk: "mk_ok mk" and w: "k < 0xFFFFFFFE"
    and o: "getOrOpen prints mk cpm k p (m, e) = Some ((m', e'), r)"
  shows "sm_inv cpm m'"
proof (cases "sm_streams m k \<noteq> None \<or> own m k \<or> k \<le> sm_highestStreamOpenedByPeer m")
  case True
  then show ?thesis using getOrOpen_known [OF True, of prints mk cpm p e] o inv by auto
next
  case False
  define sid where "sid = (if sm_highestStreamOpenedByPeer m + 2 = 2 \<and> sm_perspective m = PerspectiveServer then 1
    else sm_highestStreamOpenedByPeer m + 2)"
  obtain x where go: "openUpTo mk cpm p k sid (m, e) = Some ((m', e'), x)"
    using o unfolding getOrOpen_unknown [OF False] Let_def sid_def [symmetric]
    by (auto split: option.splits if_splits)
  have h: "sm_highestStreamOpenedByPeer m < 0xFFFFFFFE" using False w by (auto simp: not_le intro: less_trans)
  have "\<not> own m sid \<and> sm_highestStreamOpenedByPeer m < sid"
  proof (cases "sm_highestStreamOpenedByPeer m = 0")
    case True
    then show ?thesis by (auto simp: sid_def own_def)
  next
    case False
    then have "\<not> own m (sm_highestStreamOpenedByPeer m)" using inv by (simp add: sm_inv_def)
    moreover have "sm_highestStreamOpenedByPeer m + 2 \<noteq> 2" using False by simp
    ultimately show ?thesis using less_add2 [OF h] by (auto simp: sid_def own_def)
  qed
  then show ?thesis using openUpTo_inv [OF go] inv mk w by simp
qed

section \<open>Removing\<close>

lemma removeAt_first: "k \<in> set xs \<Longrightarrow> removeAt (length (takeWhile (\<lambda>s. s \<noteq> k) xs)) xs = remove1 k xs"
  by (induction xs) (auto simp: removeAt_def)

lemma filter_remove1: "k \<in> set xs \<Longrightarrow> distinct xs \<Longrightarrow>
    length (filter P (remove1 k xs)) + (if P k then 1 else 0) = length (filter P xs)"
  by (induction xs) auto

lemma sm_RemoveStream_inv:
  assumes inv: "sm_inv cpm m" and r: "sm_RemoveStream k m = (m', err)"
  shows "sm_inv cpm m'"
proof (cases "sm_streams m k")
  case None
  then show ?thesis using r inv by (simp add: sm_RemoveStream_def)
next
  case (Some s)
  then have k: "k \<in> set (sm_openStreams m)" "distinct (sm_openStreams m)" using inv by (auto simp: sm_inv_def)
  have m': "sm_openStreams m' = remove1 k (sm_openStreams m)" "sm_streams m' = (sm_streams m)(k := None)"
    "sm_perspective m' = sm_perspective m" "sm_newStreamPrioritySize m' = sm_newStreamPrioritySize m"
    "sm_nextStream m' = sm_nextStream m" "sm_highestStreamOpenedByPeer m' = sm_highestStreamOpenedByPeer m"
    "sm_numIncomingStreams m' = sm_numIncomingStreams m - (if odd_id k then 1 else 0)"
    "sm_numOutgoingStreams m' = sm_numOutgoingStreams m - (if odd_id k then 0 else 1)"
    using r Some k removeAt_first [OF k(1)] mod2_cases [of k]
    by (cases "odd_id k"; fastforce simp: sm_RemoveStream_def dropOpenStream_def Let_def)+
  have own': "own m' j = own m j" for j using m'(3) by (simp add: own_def)
  have c: "countOdd m = countOdd m' + (if odd_id k then 1 else 0)" "countEven m = countEven m' + (if odd_id k then 0 else 1)"
    using filter_remove1 [OF k, of "\<lambda>k. odd_id k"] filter_remove1 [OF k, of "\<lambda>k. \<not> odd_id k"]
    by (auto simp: countOdd_def countEven_def m'(1) split: if_splits)
  have old: "distinct (sm_openStreams m)" "set (sm_openStreams m) = dom (sm_streams m)"
    "\<And>j s. sm_streams m j = Some s \<Longrightarrow> st_streamID s = j"
    "\<And>j. j \<in> dom (sm_streams m) \<Longrightarrow> if own m j then j < sm_nextStream m else j \<le> sm_highestStreamOpenedByPeer m"
    "sm_numIncomingStreams m = word_of_nat (countOdd m)" "sm_numOutgoingStreams m = word_of_nat (countEven m)"
    using inv unfolding sm_inv_def by blast+
  have n: "sm_numIncomingStreams m' = word_of_nat (countOdd m')" "sm_numOutgoingStreams m' = word_of_nat (countEven m')"
    using m'(7,8) old(5,6) c by simp_all
  have lim: "sm_perspective m = PerspectiveServer \<longrightarrow>
      countOdd m' \<le> unat (GetMaxIncomingStreams cpm) \<and> countEven m' \<le> unat (GetMaxOutgoingStreams cpm)"
    using inv c unfolding sm_inv_def by linarith
  have d: "dom (sm_streams m') = dom (sm_streams m) - {k}" by (auto simp: m'(2))
  have "if own m' j then j < sm_nextStream m' else j \<le> sm_highestStreamOpenedByPeer m'" if "j \<in> dom (sm_streams m')" for j
    using old(4) [of j] that by (simp add: own' m'(5,6) d)
  moreover have "st_streamID s = j" if "sm_streams m' j = Some s" for j s
    using that old(3) by (auto simp: m'(2) split: if_splits)
  moreover have "distinct (sm_openStreams m')" "set (sm_openStreams m') = dom (sm_streams m')"
    using old(1,2) by (simp_all add: m'(1) d)
  moreover have "sm_newStreamPrioritySize m'" "own m (sm_nextStream m)"
    "sm_highestStreamOpenedByPeer m = 0 \<or> \<not> own m (sm_highestStreamOpenedByPeer m)"
    using inv m'(4) unfolding sm_inv_def by blast+
  ultimately show ?thesis using n lim unfolding sm_inv_def own' m'(3,5,6) by blast
qed

section \<open>Runs\<close>

lemma setPriority_frame:
  assumes "setPriority k p m = Some (m', err)"
  shows "same_frame m m' \<and> sm_streams m' = sm_streams m \<and> sm_openStreams m' = sm_openStreams m"
  using assms by (auto simp: setPriority_def same_frame_def split: option.splits sum.splits)

lemma openStreamPriorityImpl_inv:
  assumes inv: "sm_inv cpm m" and mk: "mk_ok mk" and w: "sm_nextStream m < 0xFFFFFFFE"
    and o: "openStreamPriorityImpl mk cpm p (m, e) = Some ((m', e'), r)"
  shows "sm_inv cpm m'"
proof (cases "openStreamImpl mk cpm p (m, e)")
  case None
  then show ?thesis using o by (simp add: openStreamPriorityImpl_def)
next
  case (Some t)
  obtain m1 e1 r1 where t: "t = ((m1, e1), r1)" by (metis prod.collapse)
  have i: "sm_inv cpm m1" using openStreamImpl_inv [OF inv mk w] Some t by blast
  show ?thesis
  proof (cases r1)
    case (Inl err)
    then show ?thesis using o Some t i by (simp add: openStreamPriorityImpl_def)
  next
    case (Inr x)
    then obtain err where "setPriority (sm_nextStream m) p m1 = Some (m', err)"
      using o Some t by (auto simp: openStreamPriorityImpl_def split: option.splits)
    then show ?thesis using setPriority_frame sm_inv_same_frame i by blast
  qed
qed

lemma openStreamPrioritySizeImpl_inv:
  assumes "sm_inv cpm m" "mk_ok mk" "sm_nextStream m < 0xFFFFFFFE"
    "openStreamPrioritySizeImpl mk cpm p (m, e) = Some ((m', e'), r)"
  shows "sm_inv cpm m'"
proof -
  obtain r' where "openStreamPriorityImpl mk cpm p (m, e) = Some ((m', e'), r')"
    using assms(4) by (auto simp: openStreamPrioritySizeImpl_def split: option.splits sum.splits if_splits prod.splits)
  then show ?thesis using openStreamPriorityImpl_inv [OF assms(1-3)] by blast
qed

text \<open>The operations on a streams map, and the changes of the streams themselves.\<close>

inductive sm_run :: "'e mkStream \<Rightarrow> connectionParametersManager \<Rightarrow> streamsMap \<times> 'e \<Rightarrow> bool" for mk cpm where
  new: "sm_run mk cpm (newStreamsMapTree pers tree, e)"
| opens: "sm_run mk cpm (m, e) \<Longrightarrow> sm_nextStream m < 0xFFFFFFFE \<Longrightarrow>
    openStreamImpl mk cpm p (m, e) = Some ((m', e'), r) \<or> openStreamPrioritySizeImpl mk cpm p (m, e) = Some ((m', e'), r) \<Longrightarrow>
    sm_run mk cpm (m', e')"
| get: "sm_run mk cpm (m, e) \<Longrightarrow> k < 0xFFFFFFFE \<Longrightarrow> getOrOpen prints mk cpm k p (m, e) = Some ((m', e'), r) \<Longrightarrow>
    sm_run mk cpm (m', e')"
| remove: "sm_run mk cpm (m, e) \<Longrightarrow> sm_RemoveStream k m = (m', err) \<Longrightarrow> sm_run mk cpm (m', e')"
| accept: "sm_run mk cpm (m, e) \<Longrightarrow> AcceptStream m = (m', r) \<Longrightarrow> sm_run mk cpm (m', e')"
| closing: "sm_run mk cpm (m, e) \<Longrightarrow> CloseWithError err m = Inr m' \<Longrightarrow> sm_run mk cpm (m', e')"
| streams: "sm_run mk cpm (m, e) \<Longrightarrow> same_frame m m' \<Longrightarrow> sm_openStreams m' = sm_openStreams m \<Longrightarrow>
    dom (sm_streams m') = dom (sm_streams m) \<Longrightarrow> (\<forall>k s. sm_streams m' k = Some s \<longrightarrow> st_streamID s = k) \<Longrightarrow>
    sm_run mk cpm (m', e')"

lemma sm_inv_streams:
  assumes "sm_inv cpm m" "same_frame m m'" "sm_openStreams m' = sm_openStreams m"
    "dom (sm_streams m') = dom (sm_streams m)" "\<forall>k s. sm_streams m' k = Some s \<longrightarrow> st_streamID s = k"
  shows "sm_inv cpm m'"
proof -
  have "own m' j = own m j" for j using assms(2) by (simp add: own_def same_frame_def)
  moreover have "countOdd m' = countOdd m" "countEven m' = countEven m" using assms(3) by (simp_all add: countOdd_def countEven_def)
  ultimately show ?thesis using assms unfolding sm_inv_def same_frame_def by simp
qed

lemma Cancel_id [simp]: "st_streamID (Cancel err s) = st_streamID s"
  by (simp add: Cancel_def Let_def signalRead_def signalWrite_def)

lemma sm_run_inv:
  assumes "mk_ok mk"
  shows "sm_run mk cpm me \<Longrightarrow> sm_inv cpm (fst me)"
proof (induction rule: sm_run.induct)
  case (new pers tree e)
  then show ?case using new_sm_inv by simp
next
  case (opens m e p m' e' r)
  have i: "sm_inv cpm m" using opens.IH by simp
  from opens.hyps(3) show ?case
    using openStreamImpl_inv [OF i assms opens.hyps(2)] openStreamPrioritySizeImpl_inv [OF i assms opens.hyps(2)] by auto
next
  case (get m e k prints p m' e' r)
  have "sm_inv cpm m" using get.IH by simp
  from getOrOpen_inv [OF this assms get.hyps(2,3)] show ?case by simp
next
  case (remove m e k m' err e')
  have "sm_inv cpm m" using remove.IH by simp
  from sm_RemoveStream_inv [OF this remove.hyps(2)] show ?case by simp
next
  case (accept m e m' r e')
  have "same_frame m m' \<and> sm_streams m' = sm_streams m \<and> sm_openStreams m' = sm_openStreams m"
    using accept.hyps(2) by (auto simp: AcceptStream_def same_frame_def split: option.splits)
  then show ?case using accept.IH sm_inv_same_frame [of m m' cpm] by simp
next
  case (closing m e err m' e')
  have id: "\<And>k s. sm_streams m k = Some s \<Longrightarrow> st_streamID s = k" using closing.IH by (simp add: sm_inv_def)
  have m': "sm_openStreams m' = sm_openStreams m" "same_frame m m'"
    "sm_streams m' = (\<lambda>s. if s \<in> set (sm_openStreams m) then map_option (Cancel err) (sm_streams m s) else sm_streams m s)"
    using closing.hyps(2) by (auto simp: CloseWithError_def same_frame_def split: if_splits)
  have "dom (sm_streams m') = dom (sm_streams m)" by (auto simp: m'(3) dom_def split: if_splits)
  moreover have "\<forall>k s. sm_streams m' k = Some s \<longrightarrow> st_streamID s = k" using id by (auto simp: m'(3) split: if_splits)
  ultimately have "sm_inv cpm m'" using sm_inv_streams [of cpm m m'] closing.IH m'(1,2) by simp
  then show ?case by simp
next
  case (streams m e m' e')
  have "sm_inv cpm m" using streams.IH by simp
  from sm_inv_streams [OF this streams.hyps(2-5)] show ?case by simp
qed

text \<open>
  C15: The streams map is consistent in every run.  The list of open streams has no duplicates
  and holds exactly the keys of the map, each stream is stored under its own ID, the two counters
  are the numbers of odd (client-initiated) and even (server-initiated) streams, and on the server
  neither number ever exceeds its limit, whatever the peer and the application open and close.
\<close>

theorem streams_map_consistent:
  assumes "mk_ok mk" "sm_run mk cpm (m, e)"
  shows "distinct (sm_openStreams m) \<and> set (sm_openStreams m) = dom (sm_streams m) \<and>
    (\<forall>k s. sm_streams m k = Some s \<longrightarrow> st_streamID s = k) \<and>
    sm_numIncomingStreams m = word_of_nat (length (filter (\<lambda>k. k mod 2 = 1) (sm_openStreams m))) \<and>
    sm_numOutgoingStreams m = word_of_nat (length (filter (\<lambda>k. k mod 2 \<noteq> 1) (sm_openStreams m))) \<and>
    (sm_perspective m = PerspectiveServer \<longrightarrow>
       length (filter (\<lambda>k. k mod 2 = 1) (sm_openStreams m)) \<le> unat (GetMaxIncomingStreams cpm) \<and>
       length (filter (\<lambda>k. k mod 2 \<noteq> 1) (sm_openStreams m)) \<le> unat (GetMaxOutgoingStreams cpm))"
  using sm_run_inv [OF assms] unfolding sm_inv_def countOdd_def countEven_def fst_conv by blast

lemma session_mk_ok: "mk_ok (session_newStreamPrioritySize cpm)"
  by (simp add: mk_ok_def session_newStreamPrioritySize_def newStreamPrioritySize_def)

lemma example_map_run:
  "\<exists>m e. sm_run (session_newStreamPrioritySize exampleParameters) exampleParameters (m, e) \<and>
     sm_openStreams m = [1, 3, 5] \<and> sm_roundRobinIndex m = 0"
proof -
  let ?me = "(newStreamsMapTree PerspectiveServer (Some newStreamTree), NewFlowControlManager exampleParameters)"
  have "map_option (\<lambda>t. (sm_openStreams (fst (fst t)), sm_roundRobinIndex (fst (fst t))))
      (getOrOpen True (session_newStreamPrioritySize exampleParameters) exampleParameters 5 defaultPriority ?me) = Some ([1, 3, 5], 0)"
    by code_simp
  then obtain m e r where g: "getOrOpen True (session_newStreamPrioritySize exampleParameters) exampleParameters 5 defaultPriority ?me =
      Some ((m, e), r)" and o: "sm_openStreams m = [1, 3, 5]" "sm_roundRobinIndex m = 0" by auto
  from sm_run.get [OF sm_run.new _ g] have "sm_run (session_newStreamPrioritySize exampleParameters) exampleParameters (m, e)" by simp
  then show ?thesis using o by blast
qed

theorem streams_map_consistent_witness:
  "\<exists>m e. sm_run (session_newStreamPrioritySize exampleParameters) exampleParameters (m, e) \<and>
     sm_openStreams m = [1, 3, 5] \<and> dom (sm_streams m) = {1, 3, 5} \<and> sm_numIncomingStreams m = 3"
proof -
  obtain m e where r: "sm_run (session_newStreamPrioritySize exampleParameters) exampleParameters (m, e)"
    and o: "sm_openStreams m = [1, 3, 5]" using example_map_run by blast
  have "(1 :: StreamID) mod 2 = 1" "(3 :: StreamID) mod 2 = 1" "(5 :: StreamID) mod 2 = 1" by simp_all
  then show ?thesis using r o streams_map_consistent [OF session_mk_ok r] by (auto intro!: exI [of _ m] exI [of _ e])
qed

text \<open>
  On the client the limit on the streams it opens itself is checked against the number of
  streams that the server has opened.
\<close>

lemma client_limit_counts_peer:
  assumes "sm_inv cpm m" "sm_perspective m = PerspectiveClient" "mk_ok mk"
  shows "openStreamImpl mk cpm p (m, e) = Some (me', Inl (ErrorCode TooManyOpenStreams)) \<longleftrightarrow>
    GetMaxOutgoingStreams cpm \<le> word_of_nat (countEven m) \<and> me' = (m, e)"
proof (cases "GetMaxOutgoingStreams cpm \<le> word_of_nat (countEven m)")
  case True
  then show ?thesis using assms by (auto simp: openStreamImpl_def sm_inv_def)
next
  case False
  then show ?thesis using assms by (auto simp: openStreamImpl_def sm_inv_def createStream_def Let_def split: option.splits prod.splits)
qed

section \<open>Round robin\<close>

text \<open>The function that notes the streams it is called for, and never stops.\<close>

definition visit :: "(streamsMap \<times> StreamID list) streamLambda" where
  "visit k me = ((fst me, snd me @ [k]), True, None)"

lemma iterateFirst_visit:
  "iterateFirst visit ks (m, seen) = ((m, seen @ filter (\<lambda>k. sm_streams m k \<noteq> None) ks), True, None)"
  by (induction ks arbitrary: seen) (auto simp: iterateFunc_def visit_def)

lemma roundRobinLoop_visit:
  assumes "\<forall>i\<in>set is. unat ((i + start) mod n) < length (sm_openStreams m)" "set (sm_openStreams m) \<subseteq> dom (sm_streams m)"
  shows "\<exists>j. roundRobinLoop visit n start is (m, seen) = ((m\<lparr>sm_roundRobinIndex := j\<rparr>,
    seen @ filter (\<lambda>k. k \<noteq> 1 \<and> k \<noteq> 3) (map (\<lambda>i. sm_openStreams m ! unat ((i + start) mod n)) is)), None)"
  using assms
proof (induction "is" arbitrary: m seen)
  case Nil
  then show ?case by (auto intro: exI [of _ "sm_roundRobinIndex m"])
next
  case (Cons i "is")
  let ?k = "sm_openStreams m ! unat ((i + start) mod n)"
  have "?k \<in> set (sm_openStreams m)" using Cons.prems(1) by (auto intro: nth_mem)
  then have k: "sm_streams m ?k \<noteq> None" using Cons.prems(2) by auto
  show ?case
  proof (cases "?k = 1 \<or> ?k = 3")
    case True
    then show ?thesis using Cons.IH [of m seen] Cons.prems by (auto simp: Let_def not_le)
  next
    case False
    let ?m = "m\<lparr>sm_roundRobinIndex := (sm_roundRobinIndex m + 1) mod n\<rparr>"
    have "roundRobinLoop visit n start (i # is) (m, seen) = roundRobinLoop visit n start is (?m, seen @ [?k])"
      using False k Cons.prems(1) by (auto simp: Let_def not_le iterateFunc_def visit_def)
    moreover have "\<forall>i\<in>set is. unat ((i + start) mod n) < length (sm_openStreams ?m)"
      "set (sm_openStreams ?m) \<subseteq> dom (sm_streams ?m)" using Cons.prems by simp_all
    from Cons.IH [OF this, of "seen @ [?k]"] obtain j where
      "roundRobinLoop visit n start is (?m, seen @ [?k]) = ((m\<lparr>sm_roundRobinIndex := j\<rparr>, (seen @ [?k]) @
         filter (\<lambda>k. k \<noteq> 1 \<and> k \<noteq> 3) (map (\<lambda>i. sm_openStreams m ! unat ((i + start) mod n)) is)), None)" by auto
    ultimately show ?thesis using False by auto
  qed
qed

lemma rotated_index:
  assumes "unat start + len < 2 ^ 32" "i < len"
  shows "unat (((word_of_nat i :: u32) + start) mod word_of_nat len) = (unat start + i) mod len"
proof -
  have "unat ((word_of_nat i :: u32) + start) = unat start + i"
    using assms by (simp add: unat_word_ariths unat_of_nat)
  then show ?thesis using assms by (simp add: unat_mod unat_of_nat)
qed

lemma rotate_by_index: "map (\<lambda>i. xs ! ((k + i) mod length xs)) [0..<length xs] = rotate k xs"
  by (rule nth_equalityI) (simp_all add: nth_rotate)

text \<open>
  C18: The round robin iteration over a map of any run considers every open stream exactly once:
  first the crypto and the header stream, if they are open, then all others in the order of
  opening, rotated by the round robin index.  (The index and the number of streams together stay
  below the range of 32 bits.)
\<close>

theorem RoundRobinIterate_visits_all:
  assumes "mk_ok mk" "sm_run mk cpm (m, e)"
    "unat (sm_roundRobinIndex m) + length (sm_openStreams m) < 2 ^ 32"
  shows "\<exists>j ids. RoundRobinIterate visit (m, []) = ((m\<lparr>sm_roundRobinIndex := j\<rparr>, ids), None) \<and>
    distinct ids \<and> set ids = dom (sm_streams m) \<and>
    ids = filter (\<lambda>k. sm_streams m k \<noteq> None) [1, 3] @
          filter (\<lambda>k. k \<noteq> 1 \<and> k \<noteq> 3) (rotate (unat (sm_roundRobinIndex m)) (sm_openStreams m))"
proof -
  have inv: "distinct (sm_openStreams m)" "set (sm_openStreams m) = dom (sm_streams m)"
    using sm_run_inv [OF assms(1,2)] by (auto simp: sm_inv_def)
  define len where "len = length (sm_openStreams m)"
  define start where "start = sm_roundRobinIndex m"
  have n: "numStreams m = word_of_nat len" using inv by (simp add: numStreams_def len_def distinct_card [symmetric])
  have un: "unat (numStreams m) = len" using assms(3) by (simp add: n unat_of_nat len_def)
  have ix: "unat ((word_of_nat i + start) mod numStreams m) = (unat start + i) mod len" if "i < len" for i
    unfolding n by (rule rotated_index) (use assms(3) that in \<open>simp_all add: len_def start_def\<close>)
  have "\<forall>i\<in>set (map word_of_nat [0..<len]). unat ((i + start) mod numStreams m) < length (sm_openStreams m)"
    using ix by (auto simp: len_def [symmetric])
  from roundRobinLoop_visit [OF this, of "[] @ filter (\<lambda>k. sm_streams m k \<noteq> None) [1, 3]"] inv(2)
  obtain j where l: "roundRobinLoop visit (numStreams m) start (map word_of_nat [0..<len])
      (m, [] @ filter (\<lambda>k. sm_streams m k \<noteq> None) [1, 3]) = ((m\<lparr>sm_roundRobinIndex := j\<rparr>,
      ([] @ filter (\<lambda>k. sm_streams m k \<noteq> None) [1, 3]) @ filter (\<lambda>k. k \<noteq> 1 \<and> k \<noteq> 3)
         (map (\<lambda>i. sm_openStreams m ! unat ((i + start) mod numStreams m)) (map word_of_nat [0..<len]))), None)" by auto
  have "map (\<lambda>i. sm_openStreams m ! unat ((i + start) mod numStreams m)) (map word_of_nat [0..<len]) =
      map (\<lambda>i. sm_openStreams m ! ((unat start + i) mod len)) [0..<len]" using ix by simp
  then have r: "map (\<lambda>i. sm_openStreams m ! unat ((i + start) mod numStreams m)) (map word_of_nat [0..<len]) =
      rotate (unat start) (sm_openStreams m)" using rotate_by_index [of "sm_openStreams m" "unat start"] by (simp add: len_def)
  define ids where "ids = filter (\<lambda>k. sm_streams m k \<noteq> None) [1, 3] @
    filter (\<lambda>k. k \<noteq> 1 \<and> k \<noteq> 3) (rotate (unat start) (sm_openStreams m))"
  have "RoundRobinIterate visit (m, []) = ((m\<lparr>sm_roundRobinIndex := j\<rparr>, ids), None)"
    using l unfolding r RoundRobinIterate_def fst_conv Let_def iterateFirst_visit un start_def [symmetric] ids_def by simp
  moreover have "distinct ids" "set ids = dom (sm_streams m)" using inv by (auto simp: ids_def)
  ultimately show ?thesis unfolding ids_def start_def by blast
qed

theorem RoundRobinIterate_visits_all_witness:
  "\<exists>m e j. sm_run (session_newStreamPrioritySize exampleParameters) exampleParameters (m, e) \<and>
     RoundRobinIterate visit (m, []) = ((m\<lparr>sm_roundRobinIndex := j\<rparr>, [1, 3, 5]), None)"
proof -
  obtain m e where r: "sm_run (session_newStreamPrioritySize exampleParameters) exampleParameters (m, e)"
    and o: "sm_openStreams m = [1, 3, 5]" "sm_roundRobinIndex m = 0" using example_map_run by blast
  have "dom (sm_streams m) = {1, 3, 5}" using sm_run_inv [OF session_mk_ok r] o by (simp add: sm_inv_def)
  then have "sm_streams m 1 \<noteq> None" "sm_streams m 3 \<noteq> None" by auto
  then show ?thesis using r o RoundRobinIterate_visits_all [OF session_mk_ok r] by auto
qed

text \<open>
  The index is not advanced for the crypto and the header stream.  When every iteration stops at
  its first normal stream, the stream behind them is taken three times in a row.
\<close>

definition visitOnce :: "(streamsMap \<times> StreamID list) streamLambda" where
  "visitOnce k me = (if k = 1 \<or> k = 3 then (me, True, None) else ((fst me, snd me @ [k]), False, None))"

definition iterateOnce :: "streamsMap \<times> StreamID list \<Rightarrow> streamsMap \<times> StreamID list" where
  "iterateOnce me = fst (RoundRobinIterate visitOnce me)"

lemma iterateOnce_step:
  assumes "sm_openStreams m = [1, 3, 5, 7]" "dom (sm_streams m) = {1, 3, 5, 7}" "sm_roundRobinIndex m = j" "j \<in> {0, 1, 2, 3}"
  shows "iterateOnce (m, seen) = (m\<lparr>sm_roundRobinIndex := (j + 1) mod 4\<rparr>, seen @ [if j = 3 then 7 else 5])"
proof -
  have k: "sm_streams m 1 \<noteq> None" "sm_streams m 3 \<noteq> None" "sm_streams m 5 \<noteq> None" "sm_streams m 7 \<noteq> None"
    using assms(2) by auto
  have n: "numStreams m = 4" by (simp add: numStreams_def assms(2))
  have u: "map word_of_nat [0..<4] = [0, 1, 2, 3 :: u32]" by (simp add: upt_conv_Cons)
  have f: "iterateFirst visitOnce [1, 3] (m, seen) = ((m, seen), True, None)"
    using k by (simp add: iterateFunc_def visitOnce_def)
  have "roundRobinLoop visitOnce 4 j [0, 1, 2, 3] (m, seen) =
      ((m\<lparr>sm_roundRobinIndex := (j + 1) mod 4\<rparr>, seen @ [if j = 3 then 7 else 5]), None)"
  proof -
    consider "j = 0" | "j = 1" | "j = 2" | "j = 3" using assms(4) by blast
    then show ?thesis
      by cases (use assms(1,3) k in \<open>simp_all add: Let_def iterateFunc_def visitOnce_def\<close>)
  qed
  then show ?thesis
    unfolding iterateOnce_def RoundRobinIterate_def fst_conv n Let_def f assms(3)
    by (simp add: u del: roundRobinLoop.simps)
qed

lemma round_robin_bias:
  assumes "sm_openStreams m = [1, 3, 5, 7]" "dom (sm_streams m) = {1, 3, 5, 7}" "sm_roundRobinIndex m = 0"
  shows "snd (iterateOnce (iterateOnce (iterateOnce (iterateOnce (m, []))))) = [5, 5, 5, 7]"
  using assms by (simp add: iterateOnce_step)

end
