(* ===== verification/StreamFramer.thy ===== *)
theory StreamFramer
  imports StreamsInvariant PathFrames ClosePathFrames
begin

text \<open>
  The framer (\<open>stream_framer.go\<close>), which fills packets with STREAM frames: first the lost
  frames that are to be sent again, then new data of the streams as far as flow control
  allows.  The streams map and the flow control manager are shared with the session, so
  they are arguments of the operations.  A frame of the queue is changed in place by the
  code, and the model puts the changed frame back into the queue.  Frames are values here: when
  a packet was duplicated (\<open>DuplicatePacket\<close>), its frames are also in the history of the sent
  packets, where the code changes them too and the model does not.  The three
  pairs of functions (for all streams, for the streams of a path, for one stream) have the
  same loop bodies, which are written once.
\<close>

section \<open>The framer and its queues\<close>

record streamFramer =
  fr_retransmissionQueue :: "StreamFrame list"
  fr_blockedFrameQueue :: "BlockedFrame list"
  fr_addAddressFrameQueue :: "AddAddressFrame list"
  fr_closePathFrameQueue :: "ClosePathFrame list"
  fr_pathsFrame :: "PathsFrame option"

definition newStreamFramer :: streamFramer where
  "newStreamFramer =
     \<lparr>fr_retransmissionQueue = [], fr_blockedFrameQueue = [], fr_addAddressFrameQueue = [],
      fr_closePathFrameQueue = [], fr_pathsFrame = None\<rparr>"

definition AddFrameForRetransmission :: "StreamFrame \<Rightarrow> streamFramer \<Rightarrow> streamFramer" where
  "AddFrameForRetransmission frame f = f\<lparr>fr_retransmissionQueue := fr_retransmissionQueue f @ [frame]\<rparr>"

definition PopBlockedFrame :: "streamFramer \<Rightarrow> streamFramer \<times> BlockedFrame option" where
  "PopBlockedFrame f =
     (case fr_blockedFrameQueue f of
        [] \<Rightarrow> (f, None)
      | frame # q \<Rightarrow> (f\<lparr>fr_blockedFrameQueue := q\<rparr>, Some frame))"

definition AddAddressForTransmission :: "byte \<Rightarrow> UDPAddr \<Rightarrow> streamFramer \<Rightarrow> streamFramer" where
  "AddAddressForTransmission ipVersion addr f =
     f\<lparr>fr_addAddressFrameQueue := fr_addAddressFrameQueue f @ [\<lparr>aa_IPVersion = ipVersion, aa_Addr = addr\<rparr>]\<rparr>"

definition PopAddAddressFrame :: "streamFramer \<Rightarrow> streamFramer \<times> AddAddressFrame option" where
  "PopAddAddressFrame f =
     (case fr_addAddressFrameQueue f of
        [] \<Rightarrow> (f, None)
      | frame # q \<Rightarrow> (f\<lparr>fr_addAddressFrameQueue := q\<rparr>, Some frame))"

text \<open>The first two parts of an address that is split at its colons.\<close>

definition parseIPAndPort :: "string \<Rightarrow> (string \<times> string) result" where
  "parseIPAndPort addr =
     (let colon = (\<lambda>c. c \<noteq> CHR '':'')
      in case dropWhile colon addr of
           [] \<Rightarrow> Inl (GoPanic ''index out of range'')
         | _ # rest \<Rightarrow> Inr (takeWhile colon addr, takeWhile colon rest))"

text \<open>An IPv6 address has colons of its own, so neither its address nor its port comes out.\<close>

lemma parseIPAndPort_IPv6:
  "parseIPAndPort ''10.0.0.1:443'' = Inr (''10.0.0.1'', ''443'')"
  "parseIPAndPort ''[fe80::1]:443'' = Inr (''[fe80'', [])"
  by code_simp+

text \<open>What the PATHS frame tells of a path; the list is in the order of the loop over the map of paths.\<close>

record pathInfo =
  pi_pathID :: PathID
  pi_potentiallyFailed :: bool
  pi_smoothedRTT :: duration
  pi_localAddr :: string

fun parseAddrs :: "string list \<Rightarrow> (string \<times> string) list result" where
  "parseAddrs [] = Inr []"
| "parseAddrs (a # as) = wbind (parseIPAndPort a) (\<lambda>p. wbind (parseAddrs as) (\<lambda>ps. Inr (p # ps)))"

definition AddPathsFrameForTransmission :: "Perspective \<Rightarrow> pathInfo list \<Rightarrow> streamFramer \<Rightarrow> streamFramer result" where
  "AddPathsFrameForTransmission perspective paths f =
     (let client = (perspective = PerspectiveClient)
      in wbind (if client then parseAddrs (map pi_localAddr paths) else Inr []) (\<lambda>addrs.
           Inr (f\<lparr>fr_pathsFrame := Some
             \<lparr>pf_MaxNumPaths = 255, pf_NumPaths = word_of_nat (length paths),
              pf_NumIPs = (if client then word_of_nat (length paths) else 0),
              pf_PathIDs = map pi_pathID paths,
              pf_RemoteRTTs = map (\<lambda>p. if pi_potentiallyFailed p then 3600 * 1000000000 else pi_smoothedRTT p) paths,
              pf_RemoteAddrsIP = map fst addrs, pf_RemoteAddrsPort = map snd addrs\<rparr>\<rparr>)))"

definition PopPathsFrame :: "streamFramer \<Rightarrow> streamFramer \<times> PathsFrame option" where
  "PopPathsFrame f = (f\<lparr>fr_pathsFrame := None\<rparr>, fr_pathsFrame f)"

definition AddClosePathFrameForTransmission :: "ClosePathFrame \<Rightarrow> streamFramer \<Rightarrow> streamFramer" where
  "AddClosePathFrameForTransmission frame f =
     f\<lparr>fr_closePathFrameQueue := fr_closePathFrameQueue f @ [frame]\<rparr>"

definition PopClosePathFrame :: "streamFramer \<Rightarrow> streamFramer \<times> ClosePathFrame option" where
  "PopClosePathFrame f =
     (case fr_closePathFrameQueue f of
        [] \<Rightarrow> (f, None)
      | frame # q \<Rightarrow> (f\<lparr>fr_closePathFrameQueue := q\<rparr>, Some frame))"

definition HasFramesForRetransmission :: "streamFramer \<Rightarrow> bool" where
  "HasFramesForRetransmission f \<longleftrightarrow> fr_retransmissionQueue f \<noteq> []"

section \<open>The crypto stream\<close>

text \<open>The length of the frame header; the code ignores the error, which never occurs.\<close>

definition headerLen :: "StreamFrame \<Rightarrow> ByteCount" where
  "headerLen frame = (case StreamFrame_MinLength frame 0 of Inr n \<Rightarrow> n | Inl _ \<Rightarrow> 0)"

definition cryptoStream :: "'e mkStream \<Rightarrow> connectionParametersManager \<Rightarrow> streamsMap \<times> 'e \<Rightarrow>
    ((streamsMap \<times> 'e) \<times> stream) result option" where
  "cryptoStream mk cpm me =
     map_option (\<lambda>(me, r).
       case r of
         Inr (Some sid) \<Rightarrow>
           (case sm_streams (fst me) sid of
              Some cs \<Rightarrow> Inr (me, cs) | None \<Rightarrow> Inl (GoPanic ''nil pointer dereference''))
       | _ \<Rightarrow> Inl (GoPanic ''nil pointer dereference'')) (GetOrOpenStream mk cpm 1 me)"

definition HasCryptoStreamFrame :: "'e mkStream \<Rightarrow> connectionParametersManager \<Rightarrow> streamsMap \<times> 'e \<Rightarrow>
    ((streamsMap \<times> 'e) \<times> bool) result option" where
  "HasCryptoStreamFrame mk cpm me =
     map_option (\<lambda>r. wbind r (\<lambda>(me, cs). Inr (me, lenOfDataForWriting cs > 0))) (cryptoStream mk cpm me)"

definition PopCryptoStreamFrame :: "'e mkStream \<Rightarrow> connectionParametersManager \<Rightarrow> ByteCount \<Rightarrow> streamsMap \<times> 'e \<Rightarrow>
    ((streamsMap \<times> 'e) \<times> StreamFrame option) result option" where
  "PopCryptoStreamFrame mk cpm maxLen me =
     obind (HasCryptoStreamFrame mk cpm me) (\<lambda>(me, has).
       if \<not> has then Some (Inr (me, None))
       else obind (cryptoStream mk cpm me) (\<lambda>(me, cs).
         let frame = \<lparr>sf_StreamID = 1, sf_FinBit = False, sf_DataLenPresent = False,
                      sf_Offset = st_writeOffset cs, sf_Data = []\<rparr>
         in case getDataForWriting (maxLen - headerLen frame) cs of
              (cs, data) \<Rightarrow>
                Some (Inr (((fst me)\<lparr>sm_streams := (sm_streams (fst me))(1 \<mapsto> cs)\<rparr>, snd me),
                  Some (frame\<lparr>sf_Data := (case data of None \<Rightarrow> [] | Some d \<Rightarrow> d)\<rparr>)))))"

section \<open>Frames to be sent again\<close>

definition maybeSplitOffFrame :: "StreamFrame \<Rightarrow> ByteCount \<Rightarrow> StreamFrame \<times> StreamFrame option" where
  "maybeSplitOffFrame frame n =
     (if n \<ge> StreamFrame_DataLen frame then (frame, None)
      else (frame\<lparr>sf_Data := drop (unat n) (sf_Data frame), sf_Offset := sf_Offset frame + n\<rparr>,
            Some \<lparr>sf_StreamID = sf_StreamID frame, sf_FinBit = False,
                  sf_DataLenPresent = sf_DataLenPresent frame, sf_Offset = sf_Offset frame,
                  sf_Data = take (unat n) (sf_Data frame)\<rparr>))"

text \<open>The loop over the queue, for the frames that \<open>sel\<close> selects: the frames taken, the rest of the queue and the length.\<close>

fun popRetransmissions :: "(StreamFrame \<Rightarrow> bool) \<Rightarrow> ByteCount \<Rightarrow> StreamFrame list \<Rightarrow> ByteCount \<Rightarrow> flowControlManager \<Rightarrow>
    StreamFrame list \<times> StreamFrame list \<times> ByteCount \<times> flowControlManager" where
  "popRetransmissions sel maxLen [] currentLen fcm = ([], [], currentLen, fcm)"
| "popRetransmissions sel maxLen (frame # queue) currentLen fcm =
     (if \<not> sel frame
      then case popRetransmissions sel maxLen queue currentLen fcm of
             (res, rest, currentLen, fcm) \<Rightarrow> (res, frame # rest, currentLen, fcm)
      else
        let frame = frame\<lparr>sf_DataLenPresent := True\<rparr>; frameHeaderLen = headerLen frame
        in if currentLen + frameHeaderLen \<ge> maxLen then ([], frame # queue, currentLen, fcm)
           else
             let currentLen = currentLen + frameHeaderLen
             in case maybeSplitOffFrame frame (maxLen - currentLen) of
                  (frame, Some splitFrame) \<Rightarrow>
                    let frameLen = StreamFrame_DataLen splitFrame
                    in ([splitFrame], frame # queue, currentLen + frameLen,
                        fst (fcm_AddBytesRetrans (sf_StreamID splitFrame) frameLen fcm))
                | (frame, None) \<Rightarrow>
                    let frameLen = StreamFrame_DataLen frame
                    in case popRetransmissions sel maxLen queue (currentLen + frameLen)
                              (fst (fcm_AddBytesRetrans (sf_StreamID frame) frameLen fcm)) of
                         (res, rest, currentLen, fcm) \<Rightarrow> (frame # res, rest, currentLen, fcm))"

type_synonym framing = "streamsMap \<times> flowControlManager \<times> streamFramer"

definition popQueue :: "(StreamFrame \<Rightarrow> bool) \<Rightarrow> ByteCount \<Rightarrow> framing \<Rightarrow> framing \<times> StreamFrame list \<times> ByteCount" where
  "popQueue sel maxLen st =
     (case st of (m, fcm, f) \<Rightarrow>
        (case popRetransmissions sel maxLen (fr_retransmissionQueue f) 0 fcm of
           (res, rest, currentLen, fcm) \<Rightarrow> ((m, fcm, f\<lparr>fr_retransmissionQueue := rest\<rparr>), res, currentLen)))"

definition maybePopFramesForRetransmission :: "ByteCount \<Rightarrow> framing \<Rightarrow> framing \<times> StreamFrame list \<times> ByteCount" where
  "maybePopFramesForRetransmission = popQueue (\<lambda>_. True)"

definition maybePopFramesForRetransmissionOfPath ::
    "ByteCount \<Rightarrow> StreamID list \<Rightarrow> framing \<Rightarrow> framing \<times> StreamFrame list \<times> ByteCount" where
  "maybePopFramesForRetransmissionOfPath maxLen streamIDs =
     popQueue (\<lambda>frame. sf_StreamID frame \<in> set streamIDs) maxLen"

definition maybePopFramesForRetransmissionOfOneStream ::
    "ByteCount \<Rightarrow> StreamID \<Rightarrow> framing \<Rightarrow> framing \<times> StreamFrame list \<times> ByteCount" where
  "maybePopFramesForRetransmissionOfOneStream maxLen streamID =
     popQueue (\<lambda>frame. sf_StreamID frame = streamID) maxLen"

section \<open>New data\<close>

text \<open>The variables that the function of the iteration changes.\<close>

record popState =
  ps_frame :: StreamFrame
  ps_currentLen :: ByteCount
  ps_res :: "StreamFrame list"
  ps_fcm :: flowControlManager
  ps_framer :: streamFramer

abbreviation (input) emptyFrame :: StreamFrame where
  "emptyFrame \<equiv> \<lparr>sf_StreamID = 0, sf_FinBit = False, sf_DataLenPresent = True, sf_Offset = 0, sf_Data = []\<rparr>"

text \<open>The BLOCKED frame that the sending of the frame makes necessary.\<close>

definition queueBlocked :: "connectionParametersManager \<Rightarrow> ByteCount \<Rightarrow> StreamFrame \<Rightarrow> flowControlManager \<Rightarrow>
    streamFramer \<Rightarrow> streamFramer" where
  "queueBlocked cpm sendWindowSize frame fcm f =
     (if RemainingConnectionWindowSize cpm fcm = 0
      then f\<lparr>fr_blockedFrameQueue := fr_blockedFrameQueue f @ [\<lparr>blocked_StreamID = 0\<rparr>]\<rparr>
      else if \<not> sf_FinBit frame \<and> sendWindowSize - StreamFrame_DataLen frame = 0
      then f\<lparr>fr_blockedFrameQueue := fr_blockedFrameQueue f @ [\<lparr>blocked_StreamID = sf_StreamID frame\<rparr>]\<rparr>
      else f)"

text \<open>
  The function of the iteration, from the end: the frame with the data taken and the FIN is
  sent, unless there is neither.  In the variant for a path, \<open>account\<close> lowers the volume
  that the stream has left on the path.
\<close>

definition sendFrame :: "connectionParametersManager \<Rightarrow> (StreamFrame \<Rightarrow> stream \<Rightarrow> stream) \<Rightarrow> ByteCount \<Rightarrow> ByteCount \<Rightarrow>
    stream \<times> byte list option \<Rightarrow> (streamsMap \<times> popState) streamLambda" where
  "sendFrame cpm account maxBytes sendWindowSize sd streamID me =
     (case (me, sd) of ((m, e), (s, data)) \<Rightarrow>
        let fin = shouldSendFin s
        in if data = None \<and> \<not> fin then ((m\<lparr>sm_streams := (sm_streams m)(streamID \<mapsto> s)\<rparr>, e), True, None)
           else
             let frameHeaderBytes = headerLen (ps_frame e);
                 frame = (ps_frame e)\<lparr>sf_FinBit := (sf_FinBit (ps_frame e) \<or> fin),
                                      sf_Data := (case data of None \<Rightarrow> [] | Some d \<Rightarrow> d)\<rparr>;
                 s = account frame (if fin then sentFin s else s);
                 fcm = fst (fcm_AddBytesSent (st_streamID s) (StreamFrame_DataLen frame) (ps_fcm e));
                 currentLen = ps_currentLen e + (frameHeaderBytes + StreamFrame_DataLen frame);
                 m = m\<lparr>sm_streams := (sm_streams m)(streamID \<mapsto> s)\<rparr>;
                 e = e\<lparr>ps_frame := frame, ps_currentLen := currentLen, ps_res := ps_res e @ [frame],
                       ps_fcm := fcm, ps_framer := queueBlocked cpm sendWindowSize frame fcm (ps_framer e)\<rparr>
             in if currentLen = maxBytes then ((m, e), False, None)
                else ((m, e\<lparr>ps_frame := emptyFrame\<rparr>), True, None))"

text \<open>
  The data that the packet and the windows allow is taken from the stream; in the variant
  for a path only when it is \<open>allowed\<close>.
\<close>

definition takeData :: "connectionParametersManager \<Rightarrow> (stream \<Rightarrow> ByteCount \<Rightarrow> ByteCount \<Rightarrow> bool) \<Rightarrow>
    (StreamFrame \<Rightarrow> stream \<Rightarrow> stream) \<Rightarrow> ByteCount \<Rightarrow> stream \<Rightarrow> (streamsMap \<times> popState) streamLambda" where
  "takeData cpm allowed account maxBytes s streamID me =
     (let e = snd me;
          maxLen = maxBytes - ps_currentLen e - headerLen (ps_frame e);
          lenStreamData = lenOfDataForWriting s;
          sendWindowSize =
            (if lenStreamData \<noteq> 0
             then case fcm_SendWindowSize cpm (st_streamID s) (ps_fcm e) of Inr w \<Rightarrow> w | Inl _ \<Rightarrow> 0
             else 0);
          maxLen = (if lenStreamData \<noteq> 0 then MinByteCount maxLen sendWindowSize else maxLen)
      in if maxLen = 0 then (me, True, None)
         else sendFrame cpm account maxBytes sendWindowSize
                (if lenStreamData \<noteq> 0 \<and> allowed s lenStreamData maxLen then getDataForWriting maxLen s else (s, None))
                streamID me)"

definition popFrame :: "connectionParametersManager \<Rightarrow> (stream \<Rightarrow> ByteCount \<Rightarrow> ByteCount \<Rightarrow> bool) \<Rightarrow>
    (StreamFrame \<Rightarrow> stream \<Rightarrow> stream) \<Rightarrow> ByteCount \<Rightarrow> (streamsMap \<times> popState) streamLambda" where
  "popFrame cpm allowed account maxBytes streamID me =
     (case sm_streams (fst me) streamID of
        None \<Rightarrow> (me, True, None)
      | Some s \<Rightarrow>
          if st_streamID s = 1 then (me, True, None)
          else
            let frame = (ps_frame (snd me))\<lparr>sf_StreamID := st_streamID s, sf_Offset := st_writeOffset s\<rparr>;
                me = (fst me, (snd me)\<lparr>ps_frame := frame\<rparr>)
            in if ps_currentLen (snd me) + headerLen frame > maxBytes then (me, False, None)
               else takeData cpm allowed account maxBytes s streamID me)"

text \<open>An iteration over the streams, whose error is dropped unless it is a panic.\<close>

definition popStreams :: "(streamsMap \<times> popState \<Rightarrow> (streamsMap \<times> popState) \<times> go_error option) \<Rightarrow>
    framing \<Rightarrow> (framing \<times> StreamFrame list) result" where
  "popStreams iter st =
     (case st of (m, fcm, f) \<Rightarrow>
        (case iter (m, \<lparr>ps_frame = emptyFrame, ps_currentLen = 0, ps_res = [], ps_fcm = fcm, ps_framer = f\<rparr>) of
           (_, Some (GoPanic p)) \<Rightarrow> Inl (GoPanic p)
         | ((m, e), _) \<Rightarrow> Inr ((m, ps_fcm e, ps_framer e), ps_res e)))"

definition maybePopNormalFrames :: "connectionParametersManager \<Rightarrow> ByteCount \<Rightarrow> framing \<Rightarrow> (framing \<times> StreamFrame list) result" where
  "maybePopNormalFrames cpm maxBytes =
     popStreams (RoundRobinIterate (popFrame cpm (\<lambda>_ _ _. True) (\<lambda>_ s. s) maxBytes))"

definition pathVolume :: "stream \<Rightarrow> PathID \<Rightarrow> rat" where
  "pathVolume s pathID = (case st_pathVolume s pathID of None \<Rightarrow> 0 | Some v \<Rightarrow> v)"

definition maybePopNormalFramesOfPath ::
    "connectionParametersManager \<Rightarrow> string \<Rightarrow> (StreamID list \<Rightarrow> StreamID list) \<Rightarrow> int \<Rightarrow> ByteCount \<Rightarrow>
     PathID \<Rightarrow> StreamID list \<Rightarrow> framing \<Rightarrow> (framing \<times> StreamFrame list) result" where
  "maybePopNormalFramesOfPath cpm pathScheduler order randInt maxBytes pathID streamIDs =
     popStreams (PriorityIteratePopOfPath
       (popFrame cpm
         (\<lambda>s lenStreamData maxLen.
            pathScheduler = ''MultiPath'' \<and> (pathVolume s pathID > 0 \<or> lenStreamData < maxLen) \<or>
            pathScheduler = ''SinglePath'')
         (\<lambda>frame s. s\<lparr>st_pathVolume := (st_pathVolume s)(pathID \<mapsto>
            f64 (pathVolume s pathID - f64 (of_nat (unat (StreamFrame_DataLen frame)))))\<rparr>)
         maxBytes) order randInt streamIDs)"

definition maybePopNormalFramesOfOneStream ::
    "connectionParametersManager \<Rightarrow> ByteCount \<Rightarrow> StreamID \<Rightarrow> framing \<Rightarrow> (framing \<times> StreamFrame list) result" where
  "maybePopNormalFramesOfOneStream cpm maxBytes streamID =
     popStreams (\<lambda>me. case iterateFunc streamID (popFrame cpm (\<lambda>_ _ _. True) (\<lambda>_ s. s) maxBytes) me of
       (me, _, err) \<Rightarrow> (me, err))"

definition PopStreamFrames :: "connectionParametersManager \<Rightarrow> ByteCount \<Rightarrow> framing \<Rightarrow> (framing \<times> StreamFrame list) result" where
  "PopStreamFrames cpm maxLen st =
     (case maybePopFramesForRetransmission maxLen st of
        (st, fs, currentLen) \<Rightarrow>
          wbind (maybePopNormalFrames cpm (maxLen - currentLen) st) (\<lambda>(st, gs). Inr (st, fs @ gs)))"

definition PopStreamFramesOfOneStream ::
    "connectionParametersManager \<Rightarrow> ByteCount \<Rightarrow> StreamID \<Rightarrow> framing \<Rightarrow> (framing \<times> StreamFrame list) result" where
  "PopStreamFramesOfOneStream cpm maxLen streamID st =
     (case maybePopFramesForRetransmissionOfOneStream maxLen streamID st of
        (st, fs, currentLen) \<Rightarrow>
          wbind (maybePopNormalFramesOfOneStream cpm (maxLen - currentLen) streamID st) (\<lambda>(st, gs). Inr (st, fs @ gs)))"

definition PopStreamFramesOfPath ::
    "connectionParametersManager \<Rightarrow> string \<Rightarrow> (StreamID list \<Rightarrow> StreamID list) \<Rightarrow> int \<Rightarrow> ByteCount \<Rightarrow>
     PathID \<Rightarrow> StreamID list \<Rightarrow> framing \<Rightarrow> (framing \<times> StreamFrame list) result" where
  "PopStreamFramesOfPath cpm pathScheduler order randInt maxLen pathID streamIDs st =
     (case maybePopFramesForRetransmissionOfPath maxLen streamIDs st of
        (st, fs, currentLen) \<Rightarrow>
          wbind (maybePopNormalFramesOfPath cpm pathScheduler order randInt (maxLen - currentLen) pathID streamIDs st)
            (\<lambda>(st, gs). Inr (st, fs @ gs)))"

end
