(* ===== verification/StreamFraming.thy ===== *)
theory StreamFraming
  imports StreamFramer "HOL-Library.Multiset"
begin

text \<open>
  What the framer guarantees: a packet is never overfilled, what is to be sent is neither
  lost nor made up nor sent twice, and the windows of the peer are kept.  The bytes of a
  stream and the FIN that follows them are \<^emph>\<open>items\<close> with a position.
\<close>

section \<open>Items\<close>

definition items_at :: "StreamID \<Rightarrow> nat \<Rightarrow> byte option list \<Rightarrow> (StreamID \<times> nat \<times> byte option) multiset" where
  "items_at sid off xs = mset (map (\<lambda>i. (sid, off + i, xs ! i)) [0..<length xs])"

lemma items_at_Nil [simp]: "items_at sid off [] = {#}"
  by (simp add: items_at_def)

lemma items_at_append: "items_at sid off (xs @ ys) = items_at sid off xs + items_at sid (off + length xs) ys"
proof -
  have u: "[0..<length xs + length ys] = [0..<length xs] @ map (\<lambda>i. i + length xs) [0..<length ys]"
    using upt_add_eq_append [of 0 "length xs" "length ys"] by (simp add: map_add_upt add.commute)
  have a: "map (\<lambda>i. (sid, off + i, (xs @ ys) ! i)) [0..<length xs] = map (\<lambda>i. (sid, off + i, xs ! i)) [0..<length xs]"
    by (simp add: nth_append)
  have b: "map (\<lambda>i. (sid, off + i, (xs @ ys) ! i)) (map (\<lambda>i. i + length xs) [0..<length ys]) =
      map (\<lambda>i. (sid, off + length xs + i, ys ! i)) [0..<length ys]"
    unfolding map_map by (rule map_cong) (simp_all add: nth_append)
  show ?thesis unfolding items_at_def length_append u map_append a b by simp
qed

definition finish :: "bool \<Rightarrow> byte list \<Rightarrow> byte option list" where
  "finish fin d = map Some d @ (if fin then [None] else [])"

lemma finish_split: "items_at sid off (finish fin d) =
    items_at sid off (finish False (take n d)) + items_at sid (off + min n (length d)) (finish fin (drop n d))"
proof -
  have "finish fin d = finish False (take n d) @ finish fin (drop n d)"
    by (simp add: finish_def flip: map_append append_assoc)
  then show ?thesis by (simp only: items_at_append) (simp add: finish_def min.commute)
qed

definition frame_items :: "StreamFrame \<Rightarrow> (StreamID \<times> nat \<times> byte option) multiset" where
  "frame_items f = items_at (sf_StreamID f) (unat (sf_Offset f)) (finish (sf_FinBit f) (sf_Data f))"

text \<open>The data that the stream has left, and the FIN unless it was sent or the stream has failed.\<close>

definition pending :: "stream \<Rightarrow> byte list" where
  "pending s = (case st_dataForWriting s of None \<Rightarrow> [] | Some d \<Rightarrow> d)"

definition stream_items :: "stream \<Rightarrow> (StreamID \<times> nat \<times> byte option) multiset" where
  "stream_items s = items_at (st_streamID s) (unat (st_writeOffset s))
     (finish (st_finishedWriting s \<and> \<not> st_finSent s \<and> st_err s = None) (pending s))"

definition frames_items :: "StreamFrame list \<Rightarrow> (StreamID \<times> nat \<times> byte option) multiset" where
  "frames_items fs = sum_list (map frame_items fs)"

definition streams_items :: "streamsMap \<Rightarrow> (StreamID \<times> nat \<times> byte option) multiset" where
  "streams_items m = (\<Sum>k\<in>dom (sm_streams m). stream_items (the (sm_streams m k)))"

definition to_send :: "framing \<Rightarrow> (StreamID \<times> nat \<times> byte option) multiset" where
  "to_send st = (case st of (m, fcm, f) \<Rightarrow> frames_items (fr_retransmissionQueue f) + streams_items m)"

text \<open>The bytes that the frames take in a packet.\<close>

definition frame_size :: "StreamFrame \<Rightarrow> nat" where
  "frame_size f = unat (headerLen f) + length (sf_Data f)"

definition frame_ok :: "StreamFrame \<Rightarrow> bool" where
  "frame_ok f \<longleftrightarrow> unat (sf_Offset f) + length (sf_Data f) < 2 ^ 64"

definition stream_ok :: "StreamID \<Rightarrow> stream \<Rightarrow> bool" where
  "stream_ok k s \<longleftrightarrow> st_streamID s = k \<and> unat (st_writeOffset s) + length (pending s) < 2 ^ 64"

definition streams_ok :: "streamsMap \<Rightarrow> bool" where
  "streams_ok m \<longleftrightarrow> finite (dom (sm_streams m)) \<and> (\<forall>k s. sm_streams m k = Some s \<longrightarrow> stream_ok k s)"

text \<open>No window that the peer granted is exceeded.\<close>

definition windows_ok :: "connectionParametersManager \<Rightarrow> flowControlManager \<Rightarrow> bool" where
  "windows_ok cpm fcm \<longleftrightarrow> fc_bytesSent (fcm_conn fcm) \<le> getSendWindow cpm (fcm_conn fcm) \<and>
     (\<forall>k c. fcm_streams fcm k = Some c \<longrightarrow> fc_bytesSent c \<le> getSendWindow cpm c)"

definition framing_ok :: "connectionParametersManager \<Rightarrow> framing \<Rightarrow> bool" where
  "framing_ok cpm st \<longleftrightarrow> (case st of (m, fcm, f) \<Rightarrow>
     streams_ok m \<and> windows_ok cpm fcm \<and> list_all frame_ok (fr_retransmissionQueue f))"

lemma headerLen_bounds: "0 < unat (headerLen f)" "unat (headerLen f) < 16"
proof -
  have "calculateStreamIDLength f \<in> {1, 2, 3, 4}" by (rule StreamID_length(3))
  moreover have "getOffsetLength f \<in> {0, 2, 3, 4, 5, 6, 7, 8}" by (simp add: getOffsetLength_def)
  ultimately show "0 < unat (headerLen f)" "unat (headerLen f) < 16"
    by (auto simp: headerLen_def StreamFrame_MinLength_def Let_def)
qed

lemma headerLen_cong:
  assumes "sf_StreamID g = sf_StreamID f" "sf_Offset g = sf_Offset f" "sf_DataLenPresent g = sf_DataLenPresent f"
  shows "headerLen g = headerLen f"
  using assms by (simp add: headerLen_def StreamFrame_MinLength_def calculateStreamIDLength_def getOffsetLength_def)

section \<open>Frames that are sent again\<close>

lemma DataLen_unat: "frame_ok f \<Longrightarrow> unat (StreamFrame_DataLen f) = length (sf_Data f)"
  by (simp add: frame_ok_def StreamFrame_DataLen_def unat_of_nat)

lemma maybeSplitOffFrame_split:
  assumes "maybeSplitOffFrame f n = (f', Some g)" "frame_ok f"
  shows "frame_items f = frame_items g + frame_items f'" "length (sf_Data g) = unat n"
    "headerLen g = headerLen f" "frame_ok f'" "frame_ok g"
proof -
  have n: "unat n < length (sf_Data f)"
    and f': "f' = f\<lparr>sf_Data := drop (unat n) (sf_Data f), sf_Offset := sf_Offset f + n\<rparr>"
    and g: "g = \<lparr>sf_StreamID = sf_StreamID f, sf_FinBit = False, sf_DataLenPresent = sf_DataLenPresent f,
      sf_Offset = sf_Offset f, sf_Data = take (unat n) (sf_Data f)\<rparr>"
    using assms by (auto simp: maybeSplitOffFrame_def word_le_nat_alt DataLen_unat split: if_splits)
  have off: "unat (sf_Offset f + n) = unat (sf_Offset f) + unat n"
    using assms(2) n by (simp add: frame_ok_def unat_word_ariths)
  show "frame_items f = frame_items g + frame_items f'"
    using n off unfolding frame_items_def g f' by (simp add: finish_split [of _ _ "sf_FinBit f" "sf_Data f" "unat n"] min_absorb1)
  show "length (sf_Data g) = unat n" using n by (simp add: g)
  show "headerLen g = headerLen f" by (rule headerLen_cong) (simp_all add: g)
  show "frame_ok f'" "frame_ok g" using assms(2) n off by (simp_all add: frame_ok_def f' g)
qed

lemma addToBoth_windows:
  assumes "\<And>c. fc_bytesSent (h c) = fc_bytesSent c" "\<And>c. getSendWindow cpm (h c) = getSendWindow cpm c"
    "windows_ok cpm fcm"
  shows "windows_ok cpm (fst (addToBoth h k fcm))"
  using assms by (auto simp: windows_ok_def addToBoth_def getFlowController_def putFlowController_def Let_def
      split: option.splits sum.splits)

lemma AddBytesRetrans_windows [simp]: "windows_ok cpm fcm \<Longrightarrow> windows_ok cpm (fst (fcm_AddBytesRetrans k n fcm))"
  unfolding fcm_AddBytesRetrans_def
  by (rule addToBoth_windows) (simp_all add: fc_AddBytesRetrans_def getSendWindow_def)

lemma frames_items_simps [simp]: "frames_items [] = {#}" "frames_items (f # fs) = frame_items f + frames_items fs"
    "frames_items (fs @ gs) = frames_items fs + frames_items gs"
  by (simp_all add: frames_items_def)

lemma present_items [simp]: "frame_items (f\<lparr>sf_DataLenPresent := b\<rparr>) = frame_items f"
    "frame_ok (f\<lparr>sf_DataLenPresent := b\<rparr>) = frame_ok f"
  by (simp_all add: frame_items_def frame_ok_def)

lemma add_small:
  fixes a b :: u64
  assumes "unat a \<le> M" "unat b < 16" "M < 2 ^ 63"
  shows "unat (a + b) = unat a + unat b"
  using assms by (simp add: unat_word_ariths)

lemma popRetransmissions_sound:
  assumes "popRetransmissions sel maxLen queue currentLen fcm = (res, rest, currentLen', fcm')"
    "list_all frame_ok queue" "currentLen \<le> maxLen" "unat maxLen < 2 ^ 63"
  shows "frames_items queue = frames_items res + frames_items rest \<and> list_all frame_ok rest \<and>
    unat currentLen' = unat currentLen + sum_list (map frame_size res) \<and> currentLen' \<le> maxLen \<and>
    (windows_ok cpm fcm \<longrightarrow> windows_ok cpm fcm')"
  using assms
proof (induction sel maxLen queue currentLen fcm arbitrary: res rest currentLen' fcm' rule: popRetransmissions.induct)
  case (1 sel maxLen currentLen fcm)
  then show ?case by simp
next
  case (2 sel maxLen frame queue currentLen fcm)
  let ?f = "frame\<lparr>sf_DataLenPresent := True\<rparr>"
  let ?h = "headerLen ?f"
  let ?cur = "currentLen + ?h"
  have ok: "frame_ok frame" "list_all frame_ok queue" using "2.prems"(2) by simp_all
  have cur: "unat ?cur = unat currentLen + unat ?h"
    using "2.prems"(3,4) headerLen_bounds(2) [of ?f] by (intro add_small [of _ "unat maxLen"]) (simp_all add: word_le_nat_alt)
  consider (skip) "\<not> sel frame" | (full) "sel frame" "?cur \<ge> maxLen"
    | (split) g g' where "sel frame" "\<not> ?cur \<ge> maxLen" "maybeSplitOffFrame ?f (maxLen - ?cur) = (g', Some g)"
    | (whole) g' where "sel frame" "\<not> ?cur \<ge> maxLen" "maybeSplitOffFrame ?f (maxLen - ?cur) = (g', None)"
    by (metis option.exhaust surj_pair)
  then show ?case
  proof cases
    case skip
    obtain res1 rest1 c1 f1 where r: "popRetransmissions sel maxLen queue currentLen fcm = (res1, rest1, c1, f1)"
      by (metis prod_cases4)
    show ?thesis using "2.IH"(1) [OF skip r ok(2) "2.prems"(3,4)] "2.prems"(1) skip r ok by auto
  next
    case full
    then show ?thesis using "2.prems" ok by (auto simp: Let_def)
  next
    case split
    note s = maybeSplitOffFrame_split [OF split(3), simplified, OF ok(1)]
    have room: "unat (maxLen - ?cur) = unat maxLen - unat ?cur"
      using split(2) by (simp add: unat_sub)
    have l: "unat (?cur + StreamFrame_DataLen g) = unat maxLen"
      using split(2) s(2) room "2.prems"(4) DataLen_unat [OF s(5)] by (simp add: unat_word_ariths not_le word_less_nat_alt)
    have e: "res = [g]" "rest = g' # queue" "currentLen' = ?cur + StreamFrame_DataLen g"
      "fcm' = fst (fcm_AddBytesRetrans (sf_StreamID g) (StreamFrame_DataLen g) fcm)"
      using "2.prems"(1) split by (simp_all add: Let_def)
    have "unat ?cur < unat maxLen" using split(2) by (simp add: not_le word_less_nat_alt)
    then show ?thesis using s l e room cur ok(2) by (simp add: frame_size_def word_le_nat_alt)
  next
    case whole
    have g: "g' = ?f" "maxLen - ?cur \<ge> StreamFrame_DataLen ?f"
      using whole(3) by (auto simp: maybeSplitOffFrame_def split: if_splits)
    have len: "unat (StreamFrame_DataLen ?f) = length (sf_Data frame)" using DataLen_unat [of ?f] ok(1) by simp
    have "unat (maxLen - ?cur) = unat maxLen - unat ?cur"
      using whole(2) by (simp add: unat_sub)
    then have le: "unat ?cur + length (sf_Data frame) \<le> unat maxLen"
      using g(2) whole(2) len by (simp add: word_le_nat_alt)
    then have l: "unat (?cur + StreamFrame_DataLen ?f) = unat ?cur + length (sf_Data frame)"
      using "2.prems"(4) len by (simp add: unat_word_ariths)
    obtain res1 rest1 c1 f1 where r: "popRetransmissions sel maxLen queue (?cur + StreamFrame_DataLen ?f)
        (fst (fcm_AddBytesRetrans (sf_StreamID ?f) (StreamFrame_DataLen ?f) fcm)) = (res1, rest1, c1, f1)"
      by (metis prod_cases4)
    have sel: "\<not> \<not> sel frame" using whole(1) by simp
    have "?cur + StreamFrame_DataLen ?f \<le> maxLen" using le l by (simp add: word_le_nat_alt)
    note IH = "2.IH"(2) [OF sel HOL.refl HOL.refl whole(2) HOL.refl whole(3) [symmetric, unfolded g(1)] HOL.refl HOL.refl, OF r ok(2) this "2.prems"(4)]
    have e: "res = ?f # res1" "rest = rest1" "currentLen' = c1" "fcm' = f1"
      using "2.prems"(1) whole r unfolding g(1) by (simp_all add: Let_def)
    show ?thesis using IH e l cur by (simp add: frame_size_def)
  qed
qed

section \<open>New data\<close>

lemma getDataForWriting_items:
  assumes "getDataForWriting n s = (s', data)" "stream_ok k s"
  defines "d \<equiv> (case data of None \<Rightarrow> [] | Some d \<Rightarrow> d)"
  shows "stream_items s = items_at k (unat (st_writeOffset s)) (finish False d) + stream_items s'"
    "stream_ok k s'" "length d \<le> unat n" "unat (st_writeOffset s') = unat (st_writeOffset s) + length d"
proof -
  have ok: "st_streamID s = k" "unat (st_writeOffset s) + length (pending s) < 2 ^ 64"
    using assms(2) by (simp_all add: stream_ok_def)
  obtain j where d: "d = take j (pending s)" "pending s' = drop j (pending s)" "length d = j" "j \<le> unat n"
    and s': "st_writeOffset s' = st_writeOffset s + word_of_nat j" "st_streamID s' = k" "st_finishedWriting s' = st_finishedWriting s"
      "st_finSent s' = st_finSent s" "st_err s' = st_err s"
  proof (cases "st_dataForWriting s = None \<or> st_err s \<noteq> None")
    case True
    then have "s' = s" "data = None" using assms(1) by (auto simp: getDataForWriting_def split: option.splits)
    then show thesis using that [of 0] ok(1) by (simp add: d_def)
  next
    case False
    then obtain p where p: "st_dataForWriting s = Some p" "st_err s = None" by auto
    then have w: "unat (word_of_nat (length p) :: ByteCount) = length p" using ok(2) by (simp add: pending_def unat_of_nat)
    show thesis
    proof (cases "word_of_nat (length p) > n")
      case True
      then have "unat n < length p" using w by (simp add: word_less_nat_alt)
      then show thesis using that [of "unat n"] True assms(1) p ok(1)
        by (auto simp: getDataForWriting_def Let_def pending_def d_def)
    next
      case False
      then have "length p \<le> unat n" using w by (simp add: word_less_nat_alt)
      moreover have "data = Some p"
        "s' = s\<lparr>st_dataForWriting := None, st_writeChan := True, st_writeOffset := st_writeOffset s + word_of_nat (length p)\<rparr>"
        using False assms(1) p by (simp_all add: getDataForWriting_def Let_def signalWrite_def)
      ultimately show thesis using that [of "length p"] p(1) ok(1) by (simp add: pending_def d_def)
    qed
  qed
  have le: "j \<le> length (pending s)" using d by auto
  show off: "unat (st_writeOffset s') = unat (st_writeOffset s) + length d"
    using ok(2) le d(3) s'(1) by (simp add: unat_word_ariths unat_of_nat)
  show "length d \<le> unat n" using d by simp
  show "stream_ok k s'" using ok(2) off s'(2) d le by (simp add: stream_ok_def)
  show "stream_items s = items_at k (unat (st_writeOffset s)) (finish False d) + stream_items s'"
    unfolding stream_items_def using le off d(3)
    by (simp add: finish_split [of _ _ _ "pending s" j] ok(1) s' d(2) flip: d(1))
qed

lemma sentFin_items:
  assumes "shouldSendFin s"
  shows "stream_items s = items_at (st_streamID s) (unat (st_writeOffset s)) [None]" "stream_items (sentFin s) = {#}"
  using assms by (simp_all add: shouldSendFin_def stream_items_def pending_def finish_def sentFin_def)

lemma sentFin_ok [simp]: "stream_ok k (sentFin s) = stream_ok k s"
  by (simp add: stream_ok_def sentFin_def pending_def)

text \<open>A frame with the next data of a stream, and with its FIN when nothing is left.\<close>

lemma popped_items:
  assumes "sd = (if c then getDataForWriting n s else (s, None))" "stream_ok k s"
  defines "d \<equiv> (case snd sd of None \<Rightarrow> [] | Some d \<Rightarrow> d)" and "fin \<equiv> shouldSendFin (fst sd)"
  defines "s' \<equiv> (if fin then sentFin (fst sd) else fst sd)"
  assumes "sf_StreamID f = k" "sf_Offset f = st_writeOffset s" "sf_FinBit f = fin" "sf_Data f = d"
  shows "stream_items s = frame_items f + stream_items s'" "stream_ok k s'"
    "length d \<le> (if c then unat n else 0)"
proof -
  have x: "stream_items s = items_at k (unat (st_writeOffset s)) (finish False d) + stream_items (fst sd) \<and>
      stream_ok k (fst sd) \<and> length d \<le> (if c then unat n else 0) \<and>
      unat (st_writeOffset (fst sd)) = unat (st_writeOffset s) + length d"
  proof (cases c)
    case True
    then have "getDataForWriting n s = (fst sd, snd sd)" using assms(1) by simp
    then show ?thesis using True assms(2) getDataForWriting_items [of n s "fst sd" "snd sd" k] by (simp add: d_def)
  next
    case False
    then show ?thesis using assms(1,2) by (simp add: d_def finish_def)
  qed
  show "stream_ok k s'" "length d \<le> (if c then unat n else 0)" using x by (simp_all add: s'_def)
  show "stream_items s = frame_items f + stream_items s'"
  proof (cases fin)
    case True
    have "frame_items f = items_at k (unat (st_writeOffset s)) (finish False d @ [None])"
      using True assms(6-9) by (simp add: frame_items_def finish_def)
    moreover have "st_streamID (fst sd) = k" using x by (simp add: stream_ok_def)
    moreover have "length (finish False d) = length d" by (simp add: finish_def)
    ultimately show ?thesis
      using True x sentFin_items [of "fst sd"] by (simp add: s'_def fin_def items_at_append add.commute)
  next
    case False
    then show ?thesis using x assms(6-9) by (simp add: frame_items_def s'_def)
  qed
qed

lemma streams_items_upd:
  assumes "streams_ok m" "sm_streams m k = Some s" "stream_items s = A + stream_items s'"
  shows "streams_items m = A + streams_items (m\<lparr>sm_streams := (sm_streams m)(k \<mapsto> s')\<rparr>)"
proof -
  have k: "k \<in> dom (sm_streams m)" "finite (dom (sm_streams m))" using assms by (auto simp: streams_ok_def)
  have e: "(\<Sum>i\<in>dom (sm_streams m) - {k}. stream_items (the (((sm_streams m)(k \<mapsto> s')) i))) =
      (\<Sum>i\<in>dom (sm_streams m) - {k}. stream_items (the (sm_streams m i)))"
    by (rule sum.cong) auto
  have i: "insert k (dom (sm_streams m)) = dom (sm_streams m)" using k by auto
  show ?thesis
    unfolding streams_items_def
    using assms(2,3) by (simp add: sum.remove [OF k(2,1)] i e add.assoc)
qed

lemma streams_ok_upd: "streams_ok m \<Longrightarrow> stream_ok k s \<Longrightarrow> streams_ok (m\<lparr>sm_streams := (sm_streams m)(k \<mapsto> s)\<rparr>)"
  by (auto simp: streams_ok_def)

lemma AddBytesSent_windows:
  assumes "windows_ok cpm fcm" "n = 0 \<or> (fcm_SendWindowSize cpm k fcm = Inr w \<and> n \<le> w)"
  shows "windows_ok cpm (fst (fcm_AddBytesSent k n fcm))"
proof (cases "n = 0")
  case True
  then show ?thesis unfolding fcm_AddBytesSent_def
    by (intro addToBoth_windows) (simp_all add: fc_AddBytesSent_def assms)
next
  case False
  then have w: "fcm_SendWindowSize cpm k fcm = Inr w" "n \<le> w" "0 < n" using assms(2) by (auto simp: word_neq_0_conv)
  then obtain c where c: "fcm_streams fcm k = Some c"
    by (auto simp: fcm_SendWindowSize_def getFlowController_def split: option.splits)
  have l: "n \<le> fc_SendWindowSize cpm c" "fc_contributesToConnection c \<Longrightarrow> n \<le> fc_SendWindowSize cpm (fcm_conn fcm)"
    using w c by (auto simp: fcm_SendWindowSize_def getFlowController_def MinByteCount_def Let_def split: if_splits)
  have g: "getSendWindow cpm (fc_AddBytesSent n q) = getSendWindow cpm q" for q
    by (simp add: getSendWindow_def fc_AddBytesSent_def)
  note s = fc_SendWindowSize_enough [OF l(1) w(3)] fc_SendWindowSize_enough [OF l(2) w(3)]
  show ?thesis
    using assms(1) c s(1) s(3)
    by (auto simp: windows_ok_def fcm_AddBytesSent_def addToBoth_def getFlowController_def putFlowController_def Let_def g)
      (simp_all add: fc_AddBytesSent_def)
qed

section \<open>The iteration\<close>

definition pop_inv :: "connectionParametersManager \<Rightarrow> ByteCount \<Rightarrow> StreamFrame list \<Rightarrow>
    (StreamID \<times> nat \<times> byte option) multiset \<Rightarrow> streamsMap \<times> popState \<Rightarrow> bool" where
  "pop_inv cpm maxBytes q T me \<longleftrightarrow> (case me of (m, e) \<Rightarrow>
     streams_ok m \<and> windows_ok cpm (ps_fcm e) \<and> fr_retransmissionQueue (ps_framer e) = q \<and>
     frames_items (ps_res e) + streams_items m = T \<and>
     unat (ps_currentLen e) = sum_list (map frame_size (ps_res e)) \<and> ps_currentLen e \<le> maxBytes \<and>
     (ps_currentLen e = maxBytes \<or> \<not> sf_FinBit (ps_frame e)))"

definition neutral :: "(StreamFrame \<Rightarrow> stream \<Rightarrow> stream) \<Rightarrow> bool" where
  "neutral account \<longleftrightarrow> (\<forall>frame s. \<exists>v. account frame s = s\<lparr>st_pathVolume := v\<rparr>)"

lemma neutral_items:
  assumes "neutral account"
  shows "stream_items (account f s) = stream_items s" "stream_ok k (account f s) = stream_ok k s"
    "st_streamID (account f s) = st_streamID s"
proof -
  obtain v where "account f s = s\<lparr>st_pathVolume := v\<rparr>" using assms unfolding neutral_def by blast
  then show "stream_items (account f s) = stream_items s" "stream_ok k (account f s) = stream_ok k s"
    "st_streamID (account f s) = st_streamID s"
    by (simp_all add: stream_items_def stream_ok_def pending_def)
qed

lemma queueBlocked_queue [simp]: "fr_retransmissionQueue (queueBlocked cpm w frame fcm f) = fr_retransmissionQueue f"
  by (simp add: queueBlocked_def)

text \<open>What is sent fits in the packet and in the windows.\<close>

lemma popped_fits:
  fixes cur hdr maxBytes w :: u64
  assumes "\<not> cur + hdr > maxBytes" "cur \<le> maxBytes" "unat hdr < 16" "unat maxBytes < 2 ^ 63"
    "n \<le> unat maxLen" "maxLen \<le> maxBytes - cur - hdr"
  shows "unat (cur + (hdr + word_of_nat n)) = unat cur + unat hdr + n" "cur + (hdr + word_of_nat n) \<le> maxBytes"
    "unat (word_of_nat n :: u64) = n"
proof -
  have c: "unat (cur + hdr) = unat cur + unat hdr"
    using assms(2,3,4) by (intro add_small [of _ "unat maxBytes"]) (simp_all add: word_le_nat_alt)
  have "unat (maxBytes - (cur + hdr)) = unat maxBytes - unat (cur + hdr)"
    using assms(1) by (intro unat_sub) (simp add: not_less)
  then have n: "unat cur + unat hdr + n \<le> unat maxBytes"
    using assms(1,5,6) c by (simp add: word_le_nat_alt word_less_nat_alt diff_diff_eq)
  then show u: "unat (word_of_nat n :: u64) = n" using assms(4) by (simp add: unat_of_nat)
  show v: "unat (cur + (hdr + word_of_nat n)) = unat cur + unat hdr + n"
    using n assms(4) c u by (simp add: unat_word_ariths flip: add.assoc)
  show "cur + (hdr + word_of_nat n) \<le> maxBytes" using n v by (simp add: word_le_nat_alt)
qed

lemma sendFrame_inv:
  assumes "neutral account" "unat maxBytes < 2 ^ 63" "pop_inv cpm maxBytes q T (m, e)"
    "sm_streams m k = Some s" "sf_StreamID (ps_frame e) = k" "sf_Offset (ps_frame e) = st_writeOffset s"
    "\<not> ps_currentLen e + headerLen (ps_frame e) > maxBytes" "maxLen \<le> maxBytes - ps_currentLen e - headerLen (ps_frame e)"
    "sd = (if c then getDataForWriting maxLen s else (s, None))"
    "c \<Longrightarrow> maxLen \<noteq> 0 \<Longrightarrow> fcm_SendWindowSize cpm k (ps_fcm e) = Inr w \<and> maxLen \<le> w"
  shows "pop_inv cpm maxBytes q T (fst (sendFrame cpm account maxBytes sw sd k (m, e)))"
proof -
  have inv: "streams_ok m" "windows_ok cpm (ps_fcm e)" "fr_retransmissionQueue (ps_framer e) = q"
    "frames_items (ps_res e) + streams_items m = T" "unat (ps_currentLen e) = sum_list (map frame_size (ps_res e))"
    "ps_currentLen e \<le> maxBytes" "ps_currentLen e = maxBytes \<or> \<not> sf_FinBit (ps_frame e)"
    using assms(3) by (simp_all add: pop_inv_def)
  have ok: "stream_ok k s" "st_streamID s = k" using inv(1) assms(4) by (auto simp: streams_ok_def stream_ok_def)
  define d where "d = (case snd sd of None \<Rightarrow> [] | Some d \<Rightarrow> d)"
  define fin where "fin = shouldSendFin (fst sd)"
  define g where "g = (ps_frame e)\<lparr>sf_FinBit := (sf_FinBit (ps_frame e) \<or> fin), sf_Data := d\<rparr>"
  define s' where "s' = account g (if fin then sentFin (fst sd) else fst sd)"
  define fcm where "fcm = fst (fcm_AddBytesSent (st_streamID s') (StreamFrame_DataLen g) (ps_fcm e))"
  define cur where "cur = ps_currentLen e + (headerLen (ps_frame e) + StreamFrame_DataLen g)"
  define m' where "m' = m\<lparr>sm_streams := (sm_streams m)(k \<mapsto> s')\<rparr>"
  have less: "ps_currentLen e \<noteq> maxBytes"
  proof
    assume "ps_currentLen e = maxBytes"
    then have "unat (ps_currentLen e + headerLen (ps_frame e)) = unat maxBytes + unat (headerLen (ps_frame e))"
      using add_small [OF order.refl headerLen_bounds(2) assms(2), of "ps_frame e"] by simp
    then show False using assms(7) headerLen_bounds(1) [of "ps_frame e"] by (simp add: word_less_nat_alt)
  qed
  then have fin: "sf_FinBit g = fin" using inv(7) by (simp add: g_def)
  have p: "stream_items s = frame_items g + stream_items s'" "stream_ok k s'" "length d \<le> (if c then unat maxLen else 0)"
    using popped_items [OF assms(9) ok(1), of g] assms(5,6) fin neutral_items [OF assms(1)]
    by (simp_all add: d_def [symmetric] fin_def [symmetric] s'_def g_def)
  then have dl: "length (sf_Data g) \<le> unat maxLen" by (simp add: g_def split: if_splits)
  note fits = popped_fits [OF assms(7) inv(6) headerLen_bounds(2) assms(2) dl assms(8), folded StreamFrame_DataLen_def]
  have h: "headerLen g = headerLen (ps_frame e)" by (rule headerLen_cong) (simp_all add: g_def)
  have k: "st_streamID s' = k" using p(2) by (simp add: stream_ok_def)
  have "windows_ok cpm fcm"
    unfolding fcm_def k
  proof (rule AddBytesSent_windows [OF inv(2)])
    show "StreamFrame_DataLen g = 0 \<or> fcm_SendWindowSize cpm k (ps_fcm e) = Inr w \<and> StreamFrame_DataLen g \<le> w"
    proof (cases "StreamFrame_DataLen g = 0")
      case False
      then have "length d \<noteq> 0" by (auto simp: StreamFrame_DataLen_def g_def)
      then have "c" "maxLen \<noteq> 0" using p(3) by (auto split: if_splits)
      moreover have "StreamFrame_DataLen g \<le> maxLen" using fits(3) dl by (simp add: word_le_nat_alt)
      ultimately show ?thesis using assms(10) order_trans by blast
    qed simp
  qed
  moreover have "streams_ok m'" unfolding m'_def by (rule streams_ok_upd [OF inv(1) p(2)])
  moreover have "frames_items (ps_res e @ [g]) + streams_items m' = T"
    using streams_items_upd [OF inv(1) assms(4) p(1)] inv(4) by (simp add: m'_def add.assoc)
  moreover have "unat cur = sum_list (map frame_size (ps_res e @ [g]))" "cur \<le> maxBytes"
    using fits(1,2) inv(5) h by (simp_all add: cur_def frame_size_def)
  moreover have "pop_inv cpm maxBytes q T (m\<lparr>sm_streams := (sm_streams m)(k \<mapsto> fst sd)\<rparr>, e)" if "snd sd = None" "\<not> fin"
  proof -
    have "fst sd = s" using that(1) assms(9)
      by (auto simp: getDataForWriting_def Let_def split: if_splits option.splits)
    then have "m\<lparr>sm_streams := (sm_streams m)(k \<mapsto> fst sd)\<rparr> = m" using assms(4) by (simp add: fun_upd_idem)
    then show ?thesis using assms(3) by simp
  qed
  moreover have "sendFrame cpm account maxBytes sw sd k (m, e) =
     (if snd sd = None \<and> \<not> fin then ((m\<lparr>sm_streams := (sm_streams m)(k \<mapsto> fst sd)\<rparr>, e), True, None)
      else if cur = maxBytes
      then ((m', e\<lparr>ps_frame := g, ps_currentLen := cur, ps_res := ps_res e @ [g], ps_fcm := fcm,
               ps_framer := queueBlocked cpm sw g fcm (ps_framer e)\<rparr>), False, None)
      else ((m', e\<lparr>ps_frame := emptyFrame, ps_currentLen := cur, ps_res := ps_res e @ [g], ps_fcm := fcm,
               ps_framer := queueBlocked cpm sw g fcm (ps_framer e)\<rparr>), True, None))"
    unfolding sendFrame_def by (simp add: case_prod_unfold Let_def d_def fin_def g_def s'_def fcm_def cur_def m'_def)
  ultimately show ?thesis using inv(3) by (simp add: pop_inv_def) auto
qed

lemma popFrame_inv:
  assumes "neutral account" "unat maxBytes < 2 ^ 63" "pop_inv cpm maxBytes q T me"
  shows "pop_inv cpm maxBytes q T (fst (popFrame cpm allowed account maxBytes k me))"
proof (cases "sm_streams (fst me) k")
  case None
  then show ?thesis using assms(3) by (simp add: popFrame_def)
next
  case (Some s)
  obtain m e where me: "me = (m, e)" by force
  have k: "st_streamID s = k" using assms(3) Some by (auto simp: me pop_inv_def streams_ok_def stream_ok_def)
  define fr where "fr = (ps_frame e)\<lparr>sf_StreamID := k, sf_Offset := st_writeOffset s\<rparr>"
  let ?e = "e\<lparr>ps_frame := fr\<rparr>"
  have inv: "pop_inv cpm maxBytes q T (m, ?e)" using assms(3) by (simp add: me pop_inv_def fr_def)
  have "pop_inv cpm maxBytes q T (fst (takeData cpm allowed account maxBytes s k (m, ?e)))"
    if a: "\<not> ps_currentLen e + headerLen fr > maxBytes"
  proof -
    define room where "room = maxBytes - ps_currentLen e - headerLen fr"
    define n where "n = lenOfDataForWriting s"
    define w where "w = (if n \<noteq> 0 then case fcm_SendWindowSize cpm k (ps_fcm e) of Inr w \<Rightarrow> w | Inl _ \<Rightarrow> 0 else 0)"
    define maxLen where "maxLen = (if n \<noteq> 0 then MinByteCount room w else room)"
    let ?c = "n \<noteq> 0 \<and> allowed s n maxLen"
    have w: "fcm_SendWindowSize cpm k (ps_fcm e) = Inr w \<and> maxLen \<le> w" if "?c" "maxLen \<noteq> 0"
      using that by (auto simp: maxLen_def w_def MinByteCount_def split: sum.splits if_splits)
    have r: "maxLen \<le> room" by (auto simp: maxLen_def MinByteCount_def not_less)
    define sd where "sd = (if ?c then getDataForWriting maxLen s else (s, None))"
    have "pop_inv cpm maxBytes q T (fst (sendFrame cpm account maxBytes w sd k (m, ?e)))"
      by (rule sendFrame_inv [OF assms(1,2) inv, of k s maxLen sd ?c w])
        (use Some r w a in \<open>simp_all add: me room_def fr_def sd_def\<close>)
    moreover have "takeData cpm allowed account maxBytes s k (m, ?e) =
       (if maxLen = 0 then ((m, ?e), True, None) else sendFrame cpm account maxBytes w sd k (m, ?e))"
      by (simp add: takeData_def Let_def k maxLen_def w_def n_def room_def sd_def)
    ultimately show ?thesis using inv by simp
  qed
  moreover have "fst (popFrame cpm allowed account maxBytes k me) =
     (if k = 1 then me else if ps_currentLen e + headerLen fr > maxBytes then (m, ?e)
      else fst (takeData cpm allowed account maxBytes s k (m, ?e)))"
    using Some by (simp add: popFrame_def me k fr_def)
  ultimately show ?thesis using inv assms(3) by simp
qed

text \<open>A property that the function of an iteration keeps is kept by the iteration.\<close>

definition keeps :: "(streamsMap \<times> 'e) streamLambda \<Rightarrow> (streamsMap \<times> 'e \<Rightarrow> bool) \<Rightarrow> bool" where
  "keeps fn P \<longleftrightarrow> (\<forall>k me. P me \<longrightarrow> P (fst (fn k me))) \<and>
     (\<forall>m e i. P (m, e) \<longrightarrow> P (m\<lparr>sm_roundRobinIndex := i\<rparr>, e))"

lemma keeps_step: "keeps fn P \<Longrightarrow> P me \<Longrightarrow> iterateFunc k fn me = (me', cont, err) \<Longrightarrow> P me'"
proof -
  assume a: "keeps fn P" "P me" "iterateFunc k fn me = (me', cont, err)"
  have "P (fst (fn k me))" using a(1,2) unfolding keeps_def by blast
  then have "P (fst (iterateFunc k fn me))" using a(2) by (simp add: iterateFunc_def)
  then show "P me'" using a(3) by simp
qed

lemma keeps_iterateFunc: "keeps fn P \<Longrightarrow> P me \<Longrightarrow> P (fst (case iterateFunc k fn me of (me, _, err) \<Rightarrow> (me, err)))"
  by (auto split: prod.split elim: keeps_step)

lemma keeps_iterateFirst: "keeps fn P \<Longrightarrow> P me \<Longrightarrow> P (fst (iterateFirst fn ks me))"
proof (induction fn ks me rule: iterateFirst.induct)
  case (2 fn k ks me)
  obtain me1 cont err where r: "iterateFunc k fn me = (me1, cont, err)" by (metis prod_cases3)
  show ?case using "2.IH" [OF r [symmetric] HOL.refl] keeps_step [OF "2.prems" r] "2.prems"(1) r by auto
qed simp

lemma keeps_roundRobinLoop: "keeps fn P \<Longrightarrow> P me \<Longrightarrow> P (fst (roundRobinLoop fn n start is me))"
proof (induction fn n start "is" me rule: roundRobinLoop.induct)
  case (2 fn n start i "is" me)
  let ?idx = "unat ((i + start) mod n)"
  let ?sid = "sm_openStreams (fst me) ! ?idx"
  obtain m e cont err where r: "iterateFunc ?sid fn me = ((m, e), cont, err)" by (metis prod_cases3 surj_pair)
  have P: "P (m\<lparr>sm_roundRobinIndex := j\<rparr>, e)" for j
    using keeps_step [OF "2.prems" r] "2.prems"(1) by (simp add: keeps_def)
  show ?case
    using "2.IH" "2.prems" P r keeps_step [OF "2.prems" r] by (cases err) (auto simp: Let_def)
qed simp

lemma keeps_RoundRobinIterate: "keeps fn P \<Longrightarrow> P me \<Longrightarrow> P (fst (RoundRobinIterate fn me))"
proof -
  assume a: "keeps fn P" "P me"
  obtain me1 cont err where r: "iterateFirst fn [1, 3] me = (me1, cont, err)" by (metis prod_cases3)
  have P: "P me1" using keeps_iterateFirst [OF a, of "[1, 3]"] r by simp
  show "P (fst (RoundRobinIterate fn me))"
    unfolding RoundRobinIterate_def Let_def r using keeps_roundRobinLoop [OF a(1) P] P by simp
qed

lemma keeps_sumWeights: "keeps fn P \<Longrightarrow> P me \<Longrightarrow> P (fst (sumWeights fn ids wsum me))"
proof (induction fn ids wsum me rule: sumWeights.induct)
  case (2 fn k ks wsum me)
  obtain me1 cont err where r: "iterateFunc k fn me = (me1, cont, err)" by (metis prod_cases3)
  show ?case
    using "2.IH"(1) [OF _ r [symmetric] HOL.refl] "2.IH"(2) keeps_step [OF "2.prems" r] "2.prems" r
    by (auto split: option.splits)
qed simp

lemma keeps_PriorityIteratePopOfPath:
  assumes "keeps fn P" "P me"
  shows "P (fst (PriorityIteratePopOfPath fn order randInt ids me))"
proof -
  obtain me1 cont wsum err where s: "sumWeights fn ids 0 me = (me1, cont, wsum, err)" by (metis prod_cases4)
  then have P: "P me1" using keeps_sumWeights [OF assms, of ids 0] by simp
  define cid where "cid = fetchFlow (popProbability (fst me1) wsum) randInt 0
    (order (remdups (filter (\<lambda>sid. sid \<noteq> 1 \<and> sid \<noteq> 3) ids)))"
  obtain me2 cont2 err2 where r: "iterateFunc cid fn me1 = (me2, cont2, err2)" by (metis prod_cases3)
  have "fst (PriorityIteratePopOfPath fn order randInt ids me) = (if \<not> cont \<or> cid = 0 then me1 else me2)"
    unfolding PriorityIteratePopOfPath_def s prod.case Let_def cid_def [symmetric] r by (cases cont) simp_all
  then show ?thesis using keeps_step [OF assms(1) P r] P by simp
qed

lemma keeps_popFrame:
  assumes "neutral account" "unat maxBytes < 2 ^ 63"
  shows "keeps (popFrame cpm allowed account maxBytes) (pop_inv cpm maxBytes q T)"
  unfolding keeps_def using popFrame_inv [OF assms]
  by (auto simp: pop_inv_def streams_ok_def streams_items_def)

lemma popStreams_sound:
  assumes "popStreams iter (m, fcm, f) = Inr ((m', fcm', f'), frames)" "framing_ok cpm (m, fcm, f)"
    "\<And>q T me. pop_inv cpm maxBytes q T me \<Longrightarrow> pop_inv cpm maxBytes q T (fst (iter me))"
  shows "fr_retransmissionQueue f' = fr_retransmissionQueue f \<and> streams_items m = frames_items frames + streams_items m' \<and>
    framing_ok cpm (m', fcm', f') \<and> sum_list (map frame_size frames) \<le> unat maxBytes"
proof -
  let ?me = "(m, \<lparr>ps_frame = emptyFrame, ps_currentLen = 0, ps_res = [], ps_fcm = fcm, ps_framer = f\<rparr>)"
  obtain m1 e1 err where i: "iter ?me = ((m1, e1), err)" by (metis surj_pair)
  have "pop_inv cpm maxBytes (fr_retransmissionQueue f) (streams_items m) ?me"
    using assms(2) by (simp add: pop_inv_def framing_ok_def)
  then have "pop_inv cpm maxBytes (fr_retransmissionQueue f) (streams_items m) (m1, e1)"
    using assms(3) [of _ _ ?me] i by simp
  moreover have "m' = m1" "fcm' = ps_fcm e1" "f' = ps_framer e1" "frames = ps_res e1"
    using assms(1) i by (auto simp: popStreams_def split: option.splits go_error.splits)
  ultimately show ?thesis using assms(2) by (auto simp: pop_inv_def framing_ok_def word_le_nat_alt)
qed

text \<open>The two halves of the three functions.\<close>

lemma popQueue_room:
  assumes "popQueue sel maxLen st = (st1, fs, currentLen)" "framing_ok cpm st" "unat maxLen < 2 ^ 63"
  shows "currentLen \<le> maxLen"
proof -
  obtain m fcm f where st: "st = (m, fcm, f)" by (metis prod_cases3)
  obtain rest fcm1 where "popRetransmissions sel maxLen (fr_retransmissionQueue f) 0 fcm = (fs, rest, currentLen, fcm1)"
    using assms(1) by (auto simp: popQueue_def st split: prod.splits)
  then show ?thesis using popRetransmissions_sound [of sel maxLen _ 0] assms(2,3) by (auto simp: framing_ok_def st)
qed

lemma pop_sound:
  assumes "popQueue sel maxLen st = (st1, fs, currentLen)" "popStreams iter st1 = Inr (st', gs)"
    "framing_ok cpm st" "unat maxLen < 2 ^ 63"
    "\<And>q T me. pop_inv cpm (maxLen - currentLen) q T me \<Longrightarrow> pop_inv cpm (maxLen - currentLen) q T (fst (iter me))"
  shows "sum_list (map frame_size (fs @ gs)) \<le> unat maxLen \<and> to_send st = frames_items (fs @ gs) + to_send st' \<and> framing_ok cpm st'"
proof -
  obtain m fcm f where st: "st = (m, fcm, f)" by (metis prod_cases3)
  obtain rest fcm1 where p: "popRetransmissions sel maxLen (fr_retransmissionQueue f) 0 fcm = (fs, rest, currentLen, fcm1)"
    and st1: "st1 = (m, fcm1, f\<lparr>fr_retransmissionQueue := rest\<rparr>)"
    using assms(1) by (auto simp: popQueue_def st split: prod.splits)
  note r = popRetransmissions_sound [OF p, of cpm]
  obtain m' fcm' f' where st': "st' = (m', fcm', f')" by (metis prod_cases3)
  have ok: "framing_ok cpm st1" using assms(3,4) r by (simp add: framing_ok_def st st1)
  note n = popStreams_sound [OF assms(2) [unfolded st1 st'] ok [unfolded st1] assms(5)]
  have le: "currentLen \<le> maxLen" by (rule popQueue_room [OF assms(1,3,4)])
  then have "unat (maxLen - currentLen) = unat maxLen - unat currentLen" by (rule unat_sub)
  then show ?thesis using r n assms(3,4) le by (auto simp: framing_ok_def st st' to_send_def word_le_nat_alt)
qed

section \<open>Packets\<close>

text \<open>The iteration over all streams does not run out of the list of open streams.\<close>

lemma sendFrame_frame: "snd (snd (sendFrame cpm account maxBytes w sd k me)) = None"
    "sm_openStreams (fst (fst (sendFrame cpm account maxBytes w sd k me))) = sm_openStreams (fst me)"
  by (simp_all add: sendFrame_def case_prod_unfold Let_def)

lemma popFrame_frame: "snd (snd (popFrame cpm allowed account maxBytes k me)) = None"
    "sm_openStreams (fst (fst (popFrame cpm allowed account maxBytes k me))) = sm_openStreams (fst me)"
  by (simp_all add: popFrame_def takeData_def sendFrame_frame Let_def split: option.split)

lemma keeps_openStreams: "keeps (popFrame cpm allowed account maxBytes) (\<lambda>me. sm_openStreams (fst me) = os)"
  by (simp add: keeps_def popFrame_frame)

lemma iterateFunc_error:
  "iterateFunc k (popFrame cpm allowed account maxBytes) me = (me', cont, err) \<Longrightarrow> err = None \<or> err = Some errStreamsMapAccess"
  using popFrame_frame(1) [of cpm allowed account maxBytes k me] by (auto simp: iterateFunc_def split: if_splits)

lemma roundRobinLoop_no_panic:
  assumes "fn = popFrame cpm allowed account maxBytes" "sm_openStreams (fst me) = os" "unat n \<le> length os" "n \<noteq> 0"
  shows "snd (roundRobinLoop fn n start is me) = None \<or> snd (roundRobinLoop fn n start is me) = Some errStreamsMapAccess"
  using assms
proof (induction fn n start "is" me rule: roundRobinLoop.induct)
  case (2 fn n start i "is" me)
  let ?idx = "unat ((i + start) mod n)"
  let ?sid = "sm_openStreams (fst me) ! ?idx"
  have "?idx < unat n" using "2.prems"(4) by (simp add: unat_mod word_neq_0_conv word_less_nat_alt)
  then have idx: "\<not> ?idx \<ge> length (sm_openStreams (fst me))" using "2.prems"(2,3) by simp
  show ?case
  proof (cases "?sid = 1 \<or> ?sid = 3")
    case True
    then show ?thesis using idx "2.IH"(1) [OF HOL.refl idx HOL.refl True] "2.prems" by (simp add: Let_def)
  next
    case False
    obtain m e cont err where r: "iterateFunc ?sid fn me = ((m, e), cont, err)" by (metis prod_cases3 surj_pair)
    have os: "sm_openStreams (m\<lparr>sm_roundRobinIndex := j\<rparr>) = os" for j
      using keeps_step [OF keeps_openStreams [of cpm allowed account maxBytes os], of me ?sid "(m, e)" cont err] "2.prems"(1,2) r by simp
    show ?thesis
    proof (cases err)
      case None
      show ?thesis
        using False idx r None os "2.prems" "2.IH"(2) [OF HOL.refl idx HOL.refl False r [symmetric] HOL.refl HOL.refl None HOL.refl]
        by (simp add: Let_def)
    next
      case (Some a)
      then show ?thesis using iterateFunc_error r "2.prems"(1) False idx by (fastforce simp: Let_def)
    qed
  qed
qed simp

lemma iterateFirst_no_panic:
  "fn = popFrame cpm allowed account maxBytes \<Longrightarrow> snd (snd (iterateFirst fn ks me)) = None"
proof (induction fn ks me rule: iterateFirst.induct)
  case (2 fn k ks me)
  obtain me1 cont err where r: "iterateFunc k fn me = (me1, cont, err)" by (metis prod_cases3)
  then have "err = None \<or> err = Some errStreamsMapAccess" using iterateFunc_error "2.prems" by blast
  then show ?case using "2.IH" [OF r [symmetric] HOL.refl] "2.prems" r by auto
qed simp

lemma RoundRobinIterate_no_panic:
  assumes "unat (numStreams (fst me)) \<le> length (sm_openStreams (fst me))"
  shows "snd (RoundRobinIterate (popFrame cpm allowed account maxBytes) me) = None \<or>
    snd (RoundRobinIterate (popFrame cpm allowed account maxBytes) me) = Some errStreamsMapAccess"
proof -
  let ?fn = "popFrame cpm allowed account maxBytes"
  obtain me1 cont err where r: "iterateFirst ?fn [1, 3] me = (me1, cont, err)" by (metis prod_cases3)
  have e: "err = None" using iterateFirst_no_panic [OF HOL.refl, of cpm allowed account maxBytes "[1, 3]" me] r by simp
  have "sm_openStreams (fst me1) = sm_openStreams (fst me)"
    using keeps_iterateFirst [OF keeps_openStreams, of me "sm_openStreams (fst me)" cpm allowed account maxBytes "[1, 3]"] r by simp
  note l = roundRobinLoop_no_panic [OF HOL.refl this assms]
  show ?thesis
  proof (cases "numStreams (fst me) = 0")
    case True
    then show ?thesis unfolding RoundRobinIterate_def Let_def r using e by simp
  next
    case False
    show ?thesis unfolding RoundRobinIterate_def Let_def r prod.case using e l [OF False] by simp
  qed
qed

lemma popStreams_returns:
  assumes "snd (iter (m, \<lparr>ps_frame = emptyFrame, ps_currentLen = 0, ps_res = [], ps_fcm = fcm, ps_framer = f\<rparr>)) \<in> {None, Some errStreamsMapAccess}"
  shows "\<exists>st' gs. popStreams iter (m, fcm, f) = Inr (st', gs)"
  using assms by (auto simp: popStreams_def case_prod_unfold)

lemma PopStreamFrames_returns:
  assumes "unat (numStreams (fst st)) \<le> length (sm_openStreams (fst st))"
  shows "\<exists>st' frames. PopStreamFrames cpm maxLen st = Inr (st', frames)"
proof -
  obtain m fcm f fs currentLen where q: "maybePopFramesForRetransmission maxLen st = ((m, fcm, f), fs, currentLen)"
    by (metis prod_cases3)
  then have "m = fst st" by (auto simp: maybePopFramesForRetransmission_def popQueue_def split: prod.splits)
  then have "\<exists>st' gs. maybePopNormalFrames cpm (maxLen - currentLen) (m, fcm, f) = Inr (st', gs)"
    unfolding maybePopNormalFrames_def
    using assms RoundRobinIterate_no_panic [of "(m, _)" cpm "\<lambda>_ _ _. True" "\<lambda>_ s. s"]
    by (intro popStreams_returns) simp
  then show ?thesis using q by (auto simp: PopStreamFrames_def)
qed

lemma neutral_examples: "neutral (\<lambda>_ s. s)" "neutral (\<lambda>frame s. s\<lparr>st_pathVolume := h frame s\<rparr>)"
proof -
  have "\<exists>v. s = s\<lparr>st_pathVolume := v\<rparr>" for s :: stream by (rule exI [of _ "st_pathVolume s"]) simp
  then show "neutral (\<lambda>_ s. s)" by (simp add: neutral_def)
qed (auto simp: neutral_def)

text \<open>The three functions have one shape: the queue, then the streams.\<close>

lemma pops_cases:
  assumes "PopStreamFrames cpm maxLen st = Inr (st', frames) \<or>
    PopStreamFramesOfOneStream cpm maxLen streamID st = Inr (st', frames) \<or>
    PopStreamFramesOfPath cpm pathScheduler order randInt maxLen pathID streamIDs st = Inr (st', frames)"
    "unat maxLen < 2 ^ 63"
  obtains sel st1 fs currentLen iter gs where "popQueue sel maxLen st = (st1, fs, currentLen)"
    "popStreams iter st1 = Inr (st', gs)" "frames = fs @ gs"
    "unat (maxLen - currentLen) < 2 ^ 63 \<Longrightarrow>
      (\<And>q T me. pop_inv cpm (maxLen - currentLen) q T me \<Longrightarrow> pop_inv cpm (maxLen - currentLen) q T (fst (iter me)))"
proof -
  note k = keeps_popFrame [OF neutral_examples(1)] keeps_popFrame [OF neutral_examples(2)]
  consider (all) "PopStreamFrames cpm maxLen st = Inr (st', frames)"
    | (one) "PopStreamFramesOfOneStream cpm maxLen streamID st = Inr (st', frames)"
    | (path) "PopStreamFramesOfPath cpm pathScheduler order randInt maxLen pathID streamIDs st = Inr (st', frames)"
    using assms(1) by blast
  then show thesis
  proof cases
    case all
    obtain st1 fs currentLen where q: "popQueue (\<lambda>_. True) maxLen st = (st1, fs, currentLen)" by (metis prod_cases3)
    obtain gs where g: "maybePopNormalFrames cpm (maxLen - currentLen) st1 = Inr (st', gs)" "frames = fs @ gs"
      using all q by (auto simp: PopStreamFrames_def maybePopFramesForRetransmission_def wbind_eq_Inr)
    show thesis
      by (rule that [OF q g(1) [unfolded maybePopNormalFrames_def] g(2)]) (rule keeps_RoundRobinIterate [OF k(1)])
  next
    case one
    obtain st1 fs currentLen where q: "popQueue (\<lambda>frame. sf_StreamID frame = streamID) maxLen st = (st1, fs, currentLen)"
      by (metis prod_cases3)
    obtain gs where g: "maybePopNormalFramesOfOneStream cpm (maxLen - currentLen) streamID st1 = Inr (st', gs)" "frames = fs @ gs"
      using one q by (auto simp: PopStreamFramesOfOneStream_def maybePopFramesForRetransmissionOfOneStream_def wbind_eq_Inr)
    show thesis
      by (rule that [OF q g(1) [unfolded maybePopNormalFramesOfOneStream_def] g(2)])
        (rule keeps_iterateFunc [OF k(1)])
  next
    case path
    obtain st1 fs currentLen where q: "popQueue (\<lambda>frame. sf_StreamID frame \<in> set streamIDs) maxLen st = (st1, fs, currentLen)"
      by (metis prod_cases3)
    obtain gs where g: "maybePopNormalFramesOfPath cpm pathScheduler order randInt (maxLen - currentLen) pathID streamIDs st1 =
        Inr (st', gs)" "frames = fs @ gs"
      using path q by (auto simp: PopStreamFramesOfPath_def maybePopFramesForRetransmissionOfPath_def wbind_eq_Inr)
    show thesis
      by (rule that [OF q g(1) [unfolded maybePopNormalFramesOfPath_def] g(2)]) (rule keeps_PriorityIteratePopOfPath [OF k(2)])
  qed
qed

text \<open>
  C3: The framer fills a packet correctly, in each of its three variants (all streams, the
  streams of a path, one stream).  The frames it returns take at most \<open>maxLen\<close> bytes
  together with their headers.  Every byte and every FIN that was waiting, in the queue of
  lost frames or in a stream, is afterwards either in exactly one of these frames, with the
  stream and the offset it had, or still waiting: nothing is lost, repeated, moved or made
  up.  No window of the peer is exceeded, for a stream or for the connection, if none was
  before.  \<open>PopStreamFrames\<close> does not panic as long as every stream of the map is in the list
  of open streams.
\<close>

theorem PopStreamFrames_correct:
  assumes "framing_ok cpm st" "unat maxLen < 2 ^ 63"
  shows "(unat (numStreams (fst st)) \<le> length (sm_openStreams (fst st)) \<longrightarrow>
      (\<exists>st' frames. PopStreamFrames cpm maxLen st = Inr (st', frames))) \<and>
    (PopStreamFrames cpm maxLen st = Inr (st', frames) \<or>
     PopStreamFramesOfOneStream cpm maxLen streamID st = Inr (st', frames) \<or>
     PopStreamFramesOfPath cpm pathScheduler order randInt maxLen pathID streamIDs st = Inr (st', frames) \<longrightarrow>
       sum_list (map frame_size frames) \<le> unat maxLen \<and>
       to_send st = frames_items frames + to_send st' \<and> framing_ok cpm st')"
proof (intro conjI [OF impI impI])
  assume "PopStreamFrames cpm maxLen st = Inr (st', frames) \<or>
     PopStreamFramesOfOneStream cpm maxLen streamID st = Inr (st', frames) \<or>
     PopStreamFramesOfPath cpm pathScheduler order randInt maxLen pathID streamIDs st = Inr (st', frames)"
  then show "sum_list (map frame_size frames) \<le> unat maxLen \<and>
       to_send st = frames_items frames + to_send st' \<and> framing_ok cpm st'"
  proof (rule pops_cases [OF _ assms(2)])
    fix sel st1 fs currentLen iter gs
    assume q: "popQueue sel maxLen st = (st1, fs, currentLen)" "popStreams iter st1 = Inr (st', gs)" "frames = fs @ gs"
      and i: "unat (maxLen - currentLen) < 2 ^ 63 \<Longrightarrow>
        (\<And>q T me. pop_inv cpm (maxLen - currentLen) q T me \<Longrightarrow> pop_inv cpm (maxLen - currentLen) q T (fst (iter me)))"
    have "unat (maxLen - currentLen) < 2 ^ 63"
      using popQueue_room [OF q(1) assms] assms(2) by (simp add: unat_sub)
    then show ?thesis using pop_sound [OF q(1,2) assms i] q(3) by simp
  qed
qed (rule PopStreamFrames_returns)

text \<open>Stream 5 has a lost frame and four new bytes; the packet has room for the frame and for two of the bytes.\<close>

definition example_framing :: framing where
  "example_framing =
     ((newStreamsMapTree PerspectiveServer None)
        \<lparr>sm_streams := [5 \<mapsto> (newStream 5)\<lparr>st_dataForWriting := Some [10, 20, 30, 40], st_writeOffset := 3\<rparr>],
         sm_openStreams := [5]\<rparr>,
      fcm_NewStream exampleParameters 5 True (NewFlowControlManager exampleParameters),
      AddFrameForRetransmission
        \<lparr>sf_StreamID = 5, sf_FinBit = False, sf_DataLenPresent = False, sf_Offset = 0, sf_Data = [1, 2, 3]\<rparr> newStreamFramer)"

lemma example_framing_ok: "framing_ok exampleParameters example_framing"
proof -
  have "streams_ok (fst example_framing)"
    by (simp add: example_framing_def streams_ok_def stream_ok_def pending_def newStream_def newStreamPrioritySize_def)
  moreover have "windows_ok exampleParameters (fst (snd example_framing))"
    by (simp add: example_framing_def windows_ok_def fcm_NewStream_def NewFlowControlManager_def newFlowController_def Let_def)
  moreover have "list_all frame_ok (fr_retransmissionQueue (snd (snd example_framing)))"
    by (simp add: example_framing_def AddFrameForRetransmission_def newStreamFramer_def frame_ok_def)
  ultimately show ?thesis by (simp add: framing_ok_def case_prod_unfold)
qed

lemma example_framing_pops:
  "\<exists>st' frames. PopStreamFramesOfOneStream exampleParameters 15 5 example_framing = Inr (st', frames) \<and>
     map sf_Data frames = [[1, 2, 3], [10, 20]]"
proof -
  have "case PopStreamFramesOfOneStream exampleParameters 15 5 example_framing of
      Inl e \<Rightarrow> False | Inr (st', frames) \<Rightarrow> map sf_Data frames = [[1, 2, 3], [10, 20]]"
    by code_simp
  then show ?thesis by (auto split: sum.splits)
qed

theorem PopStreamFrames_correct_witness:
  "(\<exists>st' frames. PopStreamFrames exampleParameters 15 example_framing = Inr (st', frames)) \<and>
   (\<exists>st' frames. PopStreamFramesOfOneStream exampleParameters 15 5 example_framing = Inr (st', frames) \<and>
      map sf_Data frames = [[1, 2, 3], [10, 20]] \<and> sum_list (map frame_size frames) \<le> 15 \<and>
      to_send example_framing = frames_items frames + to_send st' \<and> framing_ok exampleParameters st')"
proof -
  have n: "unat (numStreams (fst example_framing)) \<le> length (sm_openStreams (fst example_framing))"
    by (simp add: numStreams_def example_framing_def)
  obtain st' frames where p: "PopStreamFramesOfOneStream exampleParameters 15 5 example_framing = Inr (st', frames)"
    "map sf_Data frames = [[1, 2, 3], [10, 20]]"
    using example_framing_pops by (elim exE conjE)
  have m: "unat (15 :: ByteCount) < 2 ^ 63" by simp
  show ?thesis using PopStreamFrames_correct [OF example_framing_ok m, of st' frames 5] n p by auto
qed

end
