(* ===== verification/Spec2Isabelle.thy ===== *)
theory Spec2Isabelle
  imports ReceivedHandler SentInvariant PacketNumbers StreamReading StreamFraming
begin

text \<open>
  A verification library for the multipath QUIC implementation in Go under
  \<open>src/rlmp-quic\<close>: the wire format, the handlers of sent and received packets, flow control
  and the streams.

  \<^bold>\<open>The program and its parts.\<close>  A session runs over several paths.  Data that the application
  writes to a stream (\<open>stream.go\<close>) is held there until the framer (\<open>stream_framer.go\<close>) takes
  it, stream by stream in the order of the streams map (\<open>streams_map.go\<close>) and as far as flow
  control (\<open>internal/flowcontrol\<close>) allows.  The frames (\<open>internal/wire\<close>) are written behind a
  public header; the number of the packet comes from a generator, and only its lower bytes are
  sent.  The handler of sent packets (\<open>ackhandler/sent_packet_handler.go\<close>) remembers the packet
  until an ACK frame acknowledges it, or until it is lost and its frames go back to the framer.
  On the other side the unpacker (\<open>packet_unpacker.go\<close>) parses the frames, the handler of
  received packets (\<open>ackhandler/received_packet_handler.go\<close>) keeps the intervals of packet
  numbers and produces ACK frames, and the data goes through the sorter
  (\<open>stream_frame_sorter.go\<close>) to the reader of the stream.

  \<^bold>\<open>Theories.\<close>  Each theory has the definitions of the files it names, in the order of the code
  and under the names of the code, followed by their properties.
  \<^item> \<open>Prelude\<close>: errors and results (\<open>go_error\<close>, \<open>result\<close>), the two sequencing functions, readers
    of bytes, and the collections of lemmas for them.  \<open>GoNumbers\<close>: rounding of \<open>float32\<close> and
    \<open>float64\<close>, conversions.
  \<^item> \<open>Protocol\<close> (\<open>internal/protocol\<close>), \<open>ByteOrder\<close>, \<open>Float16\<close>, \<open>Utils\<close> (\<open>internal/utils\<close>), \<open>Qerr\<close>:
    packet numbers and their inference, versions, integers in both byte orders, 16-bit floats.
  \<^item> \<open>Frames\<close>, \<open>StreamFrames\<close>, \<open>AckRanges\<close>, \<open>AckFrames\<close>, \<open>ClosePathFrames\<close>, \<open>PathFrames\<close>,
    \<open>PublicHeaders\<close> (\<open>internal/wire\<close>), \<open>Unpacker\<close>: writing, announced lengths and parsing.  The
    locale \<open>frame_codec\<close> has what the unpacker needs of a frame type; it is interpreted for each.
  \<^item> \<open>HandshakeMessages\<close>, \<open>ConnectionParameters\<close> (\<open>internal/handshake\<close>): messages and the
    negotiation of parameters.
  \<^item> \<open>ReceivedHistory\<close>, \<open>ReceivedHandler\<close>, \<open>SentPackets\<close>, \<open>SentHandler\<close>, \<open>SentInvariant\<close>
    (\<open>ackhandler\<close>), \<open>RttStats\<close>, \<open>Congestion\<close> (\<open>congestion\<close>), \<open>PacketNumbers\<close>.
  \<^item> \<open>FlowControl\<close> (\<open>internal/flowcontrol\<close>), \<open>StreamSorter\<close>, \<open>StreamDelivery\<close>, \<open>Streams\<close>,
    \<open>StreamReading\<close>, \<open>StreamTree\<close>, \<open>StreamsMap\<close>, \<open>StreamsInvariant\<close>, \<open>StreamFramer\<close>,
    \<open>StreamFraming\<close>.

  \<^bold>\<open>How code is modelled.\<close>  A struct is a record, a method is a function that returns the changed
  record.  Integers keep their width as words and wrap around; \<open>int64\<close> durations and times are
  integers, with the wrap-around written out where it can occur (\<open>wrapInt64\<close>).  Floating-point
  operations are rational operations that are rounded one by one, so a compiler that fuses a
  multiplication with an addition may differ.  An error is a value; a run-time panic is the
  error \<open>GoPanic\<close>.  A function that reads the clock gets the time as an argument, one instant
  per call.  A loop over a Go map gets the order of its keys, a random choice gets the random
  number.  An operation under a mutex is one step; a call that waits has a result that says so.
  Numeric and error constants are abbreviations.  Code that is not in the repository is a
  parameter: opening a packet (\<open>aead_open\<close>), parsing an IP address (\<open>parseIP\<close>); the congestion
  controller is a record of its operations.

  \<^bold>\<open>Loops.\<close>  There is no fuel.  Loops that end for a visible reason are recursive functions with a
  termination proof.  The loop of \<open>Read\<close>, the walks over the tree of streams and the loops of
  the streams map that may not end are partial functions with result \<open>None\<close> for not ending; for
  \<open>Read\<close> it is proved that it does end.

  \<^bold>\<open>What is shown.\<close>
  \<^item> Wire format: written frames, headers, handshake messages, resets and whole packets parse
    back, with the announced length; ACK frames that are accepted are consistent; a packet
    number is recovered from its lower bytes; 16-bit floats round down by a bounded error.
  \<^item> Acknowledgements: the intervals are the set of received packets, ACK frames say exactly
    what was received and are sent in time; an ACK divides the packets in flight into
    acknowledged, lost and still in flight; the bytes in flight are those of the packets; each
    alarm retransmits what it should; round-trip times are averaged exactly.
  \<^item> Flow control: counters of the connection are sums over its streams, no window is exceeded
    in either direction, windows only grow.
  \<^item> Streams: the sorter delivers the bytes of a stream in order whatever the frames, and
    reading from the stream ends and returns them; the streams map is consistent in every
    run, and its round robin visits every stream; the framer never overfills a packet and
    neither loses nor repeats a byte.
  Lemmas and properties that show a defect of the code are listed as findings of the project.

  \<^bold>\<open>Not modelled.\<close>  The session, the scheduler, paths, sockets, client and server are goroutines
  around the parts above, driven by timers, the network and a learning agent; the packet packer
  interleaves the framer with the sealing functions.  The CUBIC and OLIA controllers are not
  modelled, and the properties of the handler of sent packets hold for any controller.
  Cryptography and the handshake state machines consist of calls to cryptographic libraries.
  The HTTP layer, examples, tests, mocks, and the Python services of the learning agent are no
  part of the transport.  Interleavings inside an operation are not modelled either, nor is the
  sharing of frames between the queue of the framer and the history of sent packets after a
  packet was duplicated.
\<close>

end
